(* ===== verification/Actix_Prelude.thy ===== *)
theory Actix_Prelude
  imports Main "HOL-Library.Word" "HOL-Library.Multiset"
begin

text \<open>
  Shared vocabulary of the development: machine integers, the result types of the
  \<^verbatim>\<open>futures\<close> crate (\<^verbatim>\<open>Async\<close>, \<^verbatim>\<open>Poll\<close>), the faults a Rust program can
  run into (panic, use after free, a loop that did not finish within the fuel), and the
  vector operations (\<^verbatim>\<open>swap_remove\<close>, \<^verbatim>\<open>swap\<close>, \<^verbatim>\<open>pop\<close>) the components share, with the
  generic lemmas about them.
\<close>

named_theorems exec_simps \<open>equations of the fault monad\<close>
named_theorems flag_simps \<open>evaluation of the flag words\<close>
named_theorems chan_simps \<open>effect of the channel operations on their fields\<close>

section \<open>Machine integers and task handles\<close>

type_synonym usize = "64 word"
type_synonym u8 = "8 word"
type_synonym u16 = "16 word"

text \<open>
  A task handle of the \<^verbatim>\<open>futures\<close> executor (\<^verbatim>\<open>futures::task::Task\<close>) is opaque: the
  code under verification only stores it and calls \<^verbatim>\<open>notify\<close> on it.  It is a number here,
  and a notification is an entry of a list of woken tasks.
\<close>

type_synonym task = nat

section \<open>Results of polling\<close>

datatype 'a Async = Ready 'a | NotReady

text \<open>\<^verbatim>\<open>Poll<T, E>\<close> is \<^verbatim>\<open>Result<Async<T>, E>\<close>: the left summand is the error.\<close>

type_synonym ('i, 'e) Poll = "'e + 'i Async"

abbreviation PReady :: "'i \<Rightarrow> ('i, 'e) Poll" where
  "PReady x \<equiv> Inr (Ready x)"

abbreviation PNotReady :: "('i, 'e) Poll" where
  "PNotReady \<equiv> Inr NotReady"

abbreviation PErr :: "'e \<Rightarrow> ('i, 'e) Poll" where
  "PErr e \<equiv> Inl e"

fun is_ready :: "'a Async \<Rightarrow> bool" where
  "is_ready (Ready _) = True"
| "is_ready NotReady = False"

lemma is_ready_iff: "is_ready a \<longleftrightarrow> a \<noteq> NotReady"
  by (cases a) auto

lemma poll_exhaust [case_names failed ready pending]:
  assumes "\<And>e. p = PErr e \<Longrightarrow> thesis" and "\<And>x. p = PReady x \<Longrightarrow> thesis" and "p = PNotReady \<Longrightarrow> thesis"
  shows thesis
  using assms by (cases p) (auto, metis Async.exhaust)

section \<open>Send errors\<close>

text \<open>\<^verbatim>\<open>SendError<T>\<close> and \<^verbatim>\<open>MailboxError\<close> of \<^verbatim>\<open>src/address/mod.rs\<close>; a failed send gives the
  message back.\<close>

datatype 'm SendError = Full 'm | Closed 'm

datatype MailboxError = MailboxClosed | MailboxTimeout

fun send_error_into_inner :: "'m SendError \<Rightarrow> 'm" where
  "send_error_into_inner (Full msg) = msg"
| "send_error_into_inner (Closed msg) = msg"

text \<open>What the errors print: \<^verbatim>\<open>Debug\<close> and \<^verbatim>\<open>Display\<close>; the message itself is not shown.\<close>

fun send_error_debug :: "'m SendError \<Rightarrow> string" where
  "send_error_debug (Full _) = ''SendError::Full(..)''"
| "send_error_debug (Closed _) = ''SendError::Closed(..)''"

fun send_error_display :: "'m SendError \<Rightarrow> string" where
  "send_error_display (Full _) = ''send failed because receiver is full''"
| "send_error_display (Closed _) = ''send failed because receiver is gone''"

fun mailbox_error_display :: "MailboxError \<Rightarrow> string" where
  "mailbox_error_display MailboxClosed = ''Mailbox has closed''"
| "mailbox_error_display MailboxTimeout = ''Message delivery timed out''"

definition mailbox_error_debug :: "MailboxError \<Rightarrow> string" where
  "mailbox_error_debug e = ''MailboxError('' @ mailbox_error_display e @ '')''"

section \<open>Faults\<close>

datatype fault = Panicked | UseAfterFree | OutOfFuel

type_synonym 'a exec = "fault + 'a"

definition bind_exec :: "'a exec \<Rightarrow> ('a \<Rightarrow> 'b exec) \<Rightarrow> 'b exec" where
  "bind_exec m f = (case m of Inl e \<Rightarrow> Inl e | Inr x \<Rightarrow> f x)"

lemma bind_exec_Inr [simp, exec_simps]: "bind_exec (Inr x) f = f x"
  by (simp add: bind_exec_def)

lemma bind_exec_Inl [simp, exec_simps]: "bind_exec (Inl e) f = Inl e"
  by (simp add: bind_exec_def)

lemma bind_exec_eq_Inr: "bind_exec m f = Inr y \<longleftrightarrow> (\<exists>x. m = Inr x \<and> f x = Inr y)"
  by (cases m) auto

lemma bind_exec_eq_Inl:
  "bind_exec m f = Inl e \<longleftrightarrow> m = Inl e \<or> (\<exists>x. m = Inr x \<and> f x = Inl e)"
  by (cases m) auto

lemma bind_exec_assoc: "bind_exec (bind_exec m f) g = bind_exec m (\<lambda>x. bind_exec (f x) g)"
  by (cases m) auto

lemma bind_exec_cong [fundef_cong]:
  "m = m' \<Longrightarrow> (\<And>x. m' = Inr x \<Longrightarrow> f x = f' x) \<Longrightarrow> bind_exec m f = bind_exec m' f'"
  by (cases m') auto

section \<open>Vectors\<close>

text \<open>
  \<^verbatim>\<open>Vec::swap_remove(i)\<close> (and the same operation of \<^verbatim>\<open>SmallVec\<close>): removes the element at
  index \<open>i\<close> and puts the last element in its place; panics when \<open>i\<close> is out of range.
\<close>

definition swap_remove :: "nat \<Rightarrow> 'a list \<Rightarrow> 'a list exec" where
  "swap_remove i xs =
     (if i < length xs then Inr (butlast (xs[i := last xs])) else Inl Panicked)"

text \<open>\<^verbatim>\<open>slice::swap(i, j)\<close>: panics when an index is out of range.\<close>

definition swap_elems :: "nat \<Rightarrow> nat \<Rightarrow> 'a list \<Rightarrow> 'a list exec" where
  "swap_elems i j xs =
     (if i < length xs \<and> j < length xs then Inr (xs[i := xs ! j, j := xs ! i]) else Inl Panicked)"

lemma swap_remove_Inr_iff: "(\<exists>ys. swap_remove i xs = Inr ys) \<longleftrightarrow> i < length xs"
  by (simp add: swap_remove_def)

lemma swap_remove_length: "swap_remove i xs = Inr ys \<Longrightarrow> length ys = length xs - 1"
  by (auto simp: swap_remove_def split: if_splits)

lemma swap_remove_mset:
  assumes "swap_remove i xs = Inr ys"
  shows "mset xs = add_mset (xs ! i) (mset ys)"
proof -
  have i: "i < length xs" and ys: "ys = butlast (xs[i := last xs])"
    using assms by (auto simp: swap_remove_def split: if_splits)
  obtain zs z where xs: "xs = zs @ [z]" using i by (cases xs rule: rev_cases) auto
  show ?thesis
  proof (cases "i < length zs")
    case True
    then have "mset (zs[i := z]) = add_mset z (mset zs - {#zs ! i#})" by (rule mset_update)
    then show ?thesis using xs ys True
      by (simp add: nth_append list_update_append butlast_append insert_DiffM)
  next
    case False
    then have "i = length zs" using i xs by simp
    then show ?thesis using xs ys by (simp add: list_update_append)
  qed
qed

lemma swap_elems_mset: "swap_elems i j xs = Inr ys \<Longrightarrow> mset ys = mset xs"
  by (auto simp: swap_elems_def mset_swap split: if_splits)

end
