(* ===== verification/Mpsc_Queue.thy ===== *)
theory Mpsc_Queue
  imports Actix_Prelude
begin

text \<open>
  The lock-free multi-producer single-consumer queue of \<^verbatim>\<open>src/address/queue.rs\<close>.

  The linked nodes live in an explicit heap, so that aliasing, frees and dangling pointers
  are visible.  A push is the two atomic accesses the code makes (the swap of \<^verbatim>\<open>head\<close> and the
  store into \<^verbatim>\<open>(*prev).next\<close>), a pop the two loads (\<^verbatim>\<open>(*tail).next\<close>, then \<^verbatim>\<open>head\<close>).
  The first part gives the operations and their laws when no push is in flight, stated as
  the locale \<open>mpsc_queue\<close> and interpreted on the model; the second part
  interleaves any number of pushers with the one popper.
\<close>

section \<open>Data\<close>

type_synonym addr = nat

datatype 'a PopResult = Data 'a | Empty | Inconsistent

record 'a Node =
  n_next :: "addr option"
  n_value :: "'a option"

text \<open>
  \<open>q_heap\<close> holds the nodes that are allocated.  \<open>q_brk\<close> is above every
  address handed out so far; the sequential operations allocate there, the concurrent ones at
  any free address.
\<close>

record 'a Queue =
  q_head :: addr
  q_tail :: addr
  q_heap :: "addr \<rightharpoonup> 'a Node"
  q_brk :: addr

definition node_new :: "'a option \<Rightarrow> 'a Node" where
  "node_new v = \<lparr>n_next = None, n_value = v\<rparr>"

definition queue_new :: "'a Queue" where
  "queue_new =
     \<lparr>q_head = 0, q_tail = 0, q_heap = [0 \<mapsto> node_new None], q_brk = 1\<rparr>"

section \<open>Operations\<close>

text \<open>
  \<^verbatim>\<open>push\<close>: the node is allocated at \<open>n\<close> and becomes the head in one atomic swap, whose
  result is the previous head; then the previous head is linked to it.
\<close>

definition push_swap :: "addr \<Rightarrow> 'a \<Rightarrow> 'a Queue \<Rightarrow> addr \<times> 'a Queue" where
  "push_swap n t q =
     (q_head q,
      q\<lparr>q_head := n, q_heap := (q_heap q)(n \<mapsto> node_new (Some t)), q_brk := max (q_brk q) (Suc n)\<rparr>)"

definition push_link :: "addr \<Rightarrow> addr \<Rightarrow> 'a Queue \<Rightarrow> 'a Queue exec" where
  "push_link prev n q =
     (case q_heap q prev of
        None \<Rightarrow> Inl UseAfterFree
      | Some nd \<Rightarrow> Inr (q\<lparr>q_heap := (q_heap q)(prev \<mapsto> nd\<lparr>n_next := Some n\<rparr>)\<rparr>))"

definition queue_push :: "'a \<Rightarrow> 'a Queue \<Rightarrow> 'a Queue exec" where
  "queue_push t q =
     (let n = q_brk q; (prev, q') = push_swap n t q in push_link prev n q')"

text \<open>
  \<^verbatim>\<open>pop\<close>: \<open>pop_load\<close> reads \<^verbatim>\<open>(*tail).next\<close>; with a successor, \<open>pop_take\<close> advances the
  tail, checks the two assertions, takes the value and frees the old tail; without one,
  \<open>pop_check\<close> compares \<^verbatim>\<open>head\<close> with the tail.
\<close>

definition pop_load :: "'a Queue \<Rightarrow> addr option exec" where
  "pop_load q = (case q_heap q (q_tail q) of None \<Rightarrow> Inl UseAfterFree | Some nd \<Rightarrow> Inr (n_next nd))"

definition pop_take :: "addr \<Rightarrow> 'a Queue \<Rightarrow> ('a PopResult \<times> 'a Queue) exec" where
  "pop_take nx q =
     (case q_heap q (q_tail q) of
        None \<Rightarrow> Inl UseAfterFree
      | Some old \<Rightarrow>
          if n_value old \<noteq> None then Inl Panicked
          else (case q_heap q nx of
                  None \<Rightarrow> Inl UseAfterFree
                | Some nd \<Rightarrow>
                    (case n_value nd of
                       None \<Rightarrow> Inl Panicked
                     | Some ret \<Rightarrow>
                         Inr (Data ret,
                              q\<lparr>q_tail := nx,
                                q_heap := (q_heap q)(nx \<mapsto> nd\<lparr>n_value := None\<rparr>, q_tail q := None)\<rparr>))))"

definition pop_check :: "'a Queue \<Rightarrow> 'a PopResult" where
  "pop_check q = (if q_head q = q_tail q then Empty else Inconsistent)"

definition queue_pop :: "'a Queue \<Rightarrow> ('a PopResult \<times> 'a Queue) exec" where
  "queue_pop q =
     bind_exec (pop_load q) (\<lambda>next.
       case next of Some nx \<Rightarrow> pop_take nx q | None \<Rightarrow> Inr (pop_check q, q))"

text \<open>
  \<^verbatim>\<open>Drop for Queue\<close> walks from the tail and frees every node; the fuel bounds the walk.
\<close>

fun drop_walk :: "nat \<Rightarrow> addr option \<Rightarrow> (addr \<rightharpoonup> 'a Node) \<Rightarrow> (addr \<rightharpoonup> 'a Node) exec" where
  "drop_walk _ None h = Inr h"
| "drop_walk 0 (Some a) h = Inl OutOfFuel"
| "drop_walk (Suc k) (Some a) h =
     (case h a of
        None \<Rightarrow> Inl UseAfterFree
      | Some nd \<Rightarrow> drop_walk k (n_next nd) (h(a := None)))"

definition queue_drop :: "nat \<Rightarrow> 'a Queue \<Rightarrow> 'a Queue exec" where
  "queue_drop k q =
     bind_exec (drop_walk k (Some (q_tail q)) (q_heap q)) (\<lambda>h. Inr (q\<lparr>q_heap := h\<rparr>))"

section \<open>Representation\<close>

text \<open>
  \<open>chain h pend a ns vs\<close>: from node \<open>a\<close> the nodes \<open>ns\<close> follow in order
  and hold the values \<open>vs\<close>.  A link in \<open>pend\<close> belongs to a push that has swapped
  the head and not stored the link yet: it reads as null in the heap.
\<close>

fun chain :: "(addr \<rightharpoonup> 'a Node) \<Rightarrow> (addr \<times> addr) set \<Rightarrow> addr \<Rightarrow> addr list \<Rightarrow> 'a list \<Rightarrow> bool" where
  "chain h pend a [] [] = (\<exists>nd. h a = Some nd \<and> n_next nd = None)"
| "chain h pend a (b # ns) (v # vs) =
     ((\<exists>nd. h a = Some nd \<and> n_next nd = (if (a, b) \<in> pend then None else Some b)) \<and>
      (\<exists>nd. h b = Some nd \<and> n_value nd = Some v) \<and> chain h pend b ns vs)"
| "chain h pend a _ _ = False"

fun links :: "addr \<Rightarrow> addr list \<Rightarrow> (addr \<times> addr) list" where
  "links a [] = []"
| "links a (b # ns) = (a, b) # links b ns"

definition queue_rep_via :: "(addr \<times> addr) set \<Rightarrow> 'a Queue \<Rightarrow> addr list \<Rightarrow> 'a list \<Rightarrow> bool" where
  "queue_rep_via pend q ns vs \<longleftrightarrow>
     distinct (q_tail q # ns) \<and>
     dom (q_heap q) = set (q_tail q # ns) \<and>
     q_head q = last (q_tail q # ns) \<and>
     (\<exists>nd. q_heap q (q_tail q) = Some nd \<and> n_value nd = None) \<and>
     chain (q_heap q) pend (q_tail q) ns vs \<and>
     pend \<subseteq> set (links (q_tail q) ns) \<and>
     (\<forall>a \<in> dom (q_heap q). a < q_brk q)"

text \<open>The queue holds the values \<open>vs\<close>, oldest first, and no push is in flight.\<close>

definition queue_rep :: "'a Queue \<Rightarrow> 'a list \<Rightarrow> bool" where
  "queue_rep q vs \<longleftrightarrow> (\<exists>ns. queue_rep_via {} q ns vs)"

section \<open>Lemmas on chains\<close>

lemma chain_length: "chain h pend a ns vs \<Longrightarrow> length ns = length vs"
  by (induction h pend a ns vs rule: chain.induct) auto

lemma chain_cong:
  "\<lbrakk>chain h pend a ns vs; \<And>x. x \<in> set (a # ns) \<Longrightarrow> h' x = h x;
    \<And>l. l \<in> set (links a ns) \<Longrightarrow> l \<in> pend' \<longleftrightarrow> l \<in> pend\<rbrakk> \<Longrightarrow> chain h' pend' a ns vs"
  by (induction h pend a ns vs rule: chain.induct) auto

lemma links_fst: "(x, y) \<in> set (links a ns) \<Longrightarrow> x \<in> set (a # ns) \<and> y \<in> set ns"
  by (induction a ns rule: links.induct) auto

lemma links_snoc: "links a (ns @ [n]) = links a ns @ [(last (a # ns), n)]"
  by (induction a ns rule: links.induct) auto

lemma links_last_fresh:
  "distinct (a # ns) \<Longrightarrow> (last (a # ns), y) \<notin> set (links a ns)"
  by (induction a ns rule: links.induct) (auto dest: links_fst)

lemma links_functional:
  "distinct (a # ns) \<Longrightarrow> (x, y) \<in> set (links a ns) \<Longrightarrow> (x, z) \<in> set (links a ns) \<Longrightarrow> y = z"
  by (induction a ns rule: links.induct) (auto dest: links_fst)

text \<open>The last node has no successor.\<close>

lemma chain_last:
  "chain h pend a ns vs \<Longrightarrow> \<exists>nd. h (last (a # ns)) = Some nd \<and> n_next nd = None"
  by (induction h pend a ns vs rule: chain.induct) auto

text \<open>Appending a node whose link is still to be stored.\<close>

lemma chain_snoc:
  "\<lbrakk>chain h pend a ns vs; n \<notin> set (a # ns)\<rbrakk> \<Longrightarrow>
   chain (h(n \<mapsto> node_new (Some t))) (insert (last (a # ns), n) pend) a (ns @ [n]) (vs @ [t])"
proof (induction h pend a ns vs rule: chain.induct)
  case (2 h pend a b ns v vs)
  then show ?case by (auto simp: node_new_def)
qed (auto simp: node_new_def)

text \<open>Storing a pending link.\<close>

lemma chain_link:
  "\<lbrakk>chain h pend a ns vs; distinct (a # ns); (x, y) \<in> set (links a ns); h x = Some nd\<rbrakk> \<Longrightarrow>
   chain (h(x \<mapsto> nd\<lparr>n_next := Some y\<rparr>)) (pend - {(x, y)}) a ns vs"
proof (induction h pend a ns vs rule: chain.induct)
  case (2 h pend a b ns v vs)
  show ?case
  proof (cases "x = a")
    case True
    have yb: "y = b" using True "2.prems"(2,3) by (auto dest: links_fst)
    have "chain (h(a \<mapsto> nd\<lparr>n_next := Some b\<rparr>)) (pend - {(a, b)}) b ns vs"
    proof (rule chain_cong)
      show "chain h pend b ns vs" using "2.prems"(1) by simp
    qed (use "2.prems"(2) in \<open>auto dest: links_fst\<close>)
    moreover have "h b \<noteq> None" "a \<noteq> b" using "2.prems"(1,2) by auto
    ultimately show ?thesis unfolding True yb using "2.prems"(1) by (simp add: fun_upd_def)
  next
    case False
    then have xy: "(x, y) \<in> set (links b ns)" and ab: "(a, b) \<noteq> (x, y)"
      using "2.prems" by auto
    have "x \<in> set (b # ns)" "a \<notin> set (b # ns)"
      using xy "2.prems"(2) by (auto dest: links_fst)
    moreover have "chain (h(x \<mapsto> nd\<lparr>n_next := Some y\<rparr>)) (pend - {(x, y)}) b ns vs"
      using 2 xy by (simp add: fun_upd_def)
    ultimately show ?thesis using "2.prems"(1,4) ab False by (auto simp: fun_upd_def)
  qed
qed auto

section \<open>Operations on a represented queue\<close>

text \<open>
  The two halves of a push, on a queue with any set of pushes in flight.
\<close>

lemma push_swap_rep:
  assumes rep: "queue_rep_via pend q ns vs" and free: "q_heap q n = None"
  shows "queue_rep_via (insert (q_head q, n) pend) (snd (push_swap n t q)) (ns @ [n]) (vs @ [t])"
proof -
  have new: "n \<notin> set (q_tail q # ns)"
    using rep free by (auto simp: queue_rep_via_def)
  have "chain ((q_heap q)(n \<mapsto> node_new (Some t))) (insert (last (q_tail q # ns), n) pend)
          (q_tail q) (ns @ [n]) (vs @ [t])"
    using rep new by (intro chain_snoc) (auto simp: queue_rep_via_def)
  then show ?thesis
    using rep new by (auto simp: queue_rep_via_def push_swap_def links_snoc less_max_iff_disj)
qed

lemma push_link_rep:
  assumes rep: "queue_rep_via pend q ns vs" and l: "(x, y) \<in> pend"
  shows "\<exists>q'. push_link x y q = Inr q' \<and> queue_rep_via (pend - {(x, y)}) q' ns vs"
proof -
  have link: "(x, y) \<in> set (links (q_tail q) ns)"
    using rep l by (auto simp: queue_rep_via_def)
  then obtain nd where nd: "q_heap q x = Some nd"
    using rep links_fst [OF link] unfolding queue_rep_via_def by blast
  have "chain ((q_heap q)(x \<mapsto> nd\<lparr>n_next := Some y\<rparr>)) (pend - {(x, y)}) (q_tail q) ns vs"
    using rep link nd by (intro chain_link) (auto simp: queue_rep_via_def)
  moreover have "insert x (dom (q_heap q)) = dom (q_heap q)"
    using nd by auto
  ultimately have "queue_rep_via (pend - {(x, y)})
      (q\<lparr>q_heap := (q_heap q)(x \<mapsto> nd\<lparr>n_next := Some y\<rparr>)\<rparr>) ns vs"
    using rep nd by (auto simp: queue_rep_via_def)
  then show ?thesis using nd by (simp add: push_link_def)
qed

lemma pop_load_rep:
  assumes "queue_rep_via pend q ns vs"
  shows "pop_load q =
    Inr (case ns of [] \<Rightarrow> None | b # _ \<Rightarrow> if (q_tail q, b) \<in> pend then None else Some b)"
  using assms by (cases ns; cases vs) (auto simp: queue_rep_via_def pop_load_def)

text \<open>
  A successor that \<open>pop_load\<close> has seen can be taken: no assertion of the code fails, no freed
  node is touched, and the old tail that is freed is no node a pusher still has to link.
\<close>

lemma pop_take_rep:
  assumes rep: "queue_rep_via pend q (b # ns) (v # vs)" and link: "(q_tail q, b) \<notin> pend"
  shows "\<exists>q'. pop_take b q = Inr (Data v, q') \<and> queue_rep_via pend q' ns vs
    \<and> q_tail q' = b \<and> q_head q' = q_head q"
proof -
  obtain told where told: "q_heap q (q_tail q) = Some told" "n_value told = None"
    using rep by (auto simp: queue_rep_via_def)
  obtain nd where nd: "q_heap q b = Some nd" "n_value nd = Some v"
    using rep by (auto simp: queue_rep_via_def)
  have ch: "chain (q_heap q) pend b ns vs" and dist: "distinct (q_tail q # b # ns)"
    using rep by (auto simp: queue_rep_via_def)
  let ?h = "(q_heap q)(b \<mapsto> nd\<lparr>n_value := None\<rparr>, q_tail q := None)"
  have "chain ?h pend b ns vs"
    using ch dist nd by (cases ns; cases vs) (auto intro!: chain_cong [of "q_heap q" pend])
  moreover have "pend \<subseteq> set (links b ns)"
    using rep link by (auto simp: queue_rep_via_def)
  ultimately have "queue_rep_via pend (q\<lparr>q_tail := b, q_heap := ?h\<rparr>) ns vs"
    using rep by (auto simp: queue_rep_via_def)
  moreover have "pop_take b q = Inr (Data v, q\<lparr>q_tail := b, q_heap := ?h\<rparr>)"
    using told nd by (simp add: pop_take_def)
  ultimately show ?thesis by auto
qed

lemma rep_via_empty_iff:
  assumes "queue_rep_via pend q ns vs"
  shows "q_head q = q_tail q \<longleftrightarrow> vs = []"
proof -
  have "length ns = length vs"
    using assms by (auto simp: queue_rep_via_def dest: chain_length)
  then show ?thesis
    using assms by (cases ns) (auto simp: queue_rep_via_def dest: last_in_set)
qed

lemma rep_via_unique:
  "chain h {} a ns vs \<Longrightarrow> chain h {} a ms ws \<Longrightarrow> distinct (a # ns) \<Longrightarrow> distinct (a # ms) \<Longrightarrow> vs = ws"
proof (induction h "{} :: (addr \<times> addr) set" a ns vs arbitrary: ms ws rule: chain.induct)
  case (1 h a)
  then show ?case by (cases ms; cases ws) auto
next
  case (2 h a b ns v vs)
  then show ?case by (cases ms; cases ws) auto
qed auto

section \<open>The interface of the queue\<close>

text \<open>
  The loops its clients run: \<open>pop_wait\<close> retries an inconsistent pop until it gets data or
  finds the queue empty, \<open>pop_all\<close> pops until the queue is empty and collects what it got.
\<close>

fun pop_wait :: "('q \<Rightarrow> ('a PopResult \<times> 'q) exec) \<Rightarrow> nat \<Rightarrow> 'q \<Rightarrow> ('a option \<times> 'q) exec" where
  "pop_wait pop 0 q = Inl OutOfFuel"
| "pop_wait pop (Suc k) q =
     bind_exec (pop q) (\<lambda>(r, q').
       case r of
         Data x \<Rightarrow> Inr (Some x, q')
       | Empty \<Rightarrow> Inr (None, q')
       | Inconsistent \<Rightarrow> pop_wait pop k q')"

fun pop_all :: "('q \<Rightarrow> ('a PopResult \<times> 'q) exec) \<Rightarrow> nat \<Rightarrow> 'q \<Rightarrow> ('a list \<times> 'q) exec" where
  "pop_all pop 0 q = Inl OutOfFuel"
| "pop_all pop (Suc k) q =
     bind_exec (pop q) (\<lambda>(r, q').
       case r of
         Data x \<Rightarrow> bind_exec (pop_all pop k q') (\<lambda>(xs, q''). Inr (x # xs, q''))
       | Empty \<Rightarrow> Inr ([], q')
       | Inconsistent \<Rightarrow> pop_all pop k q')"

fun push_all :: "('a \<Rightarrow> 'q \<Rightarrow> 'q exec) \<Rightarrow> 'a list \<Rightarrow> 'q \<Rightarrow> 'q exec" where
  "push_all push [] q = Inr q"
| "push_all push (t # ts) q = bind_exec (push t q) (push_all push ts)"

locale mpsc_queue =
  fixes new :: 'q
    and push :: "'a \<Rightarrow> 'q \<Rightarrow> 'q exec"
    and pop :: "'q \<Rightarrow> ('a PopResult \<times> 'q) exec"
    and bound :: "'q \<Rightarrow> nat"
    and rep :: "'q \<Rightarrow> 'a list \<Rightarrow> bool"
  assumes rep_new: "rep new []"
    and push_rep: "rep q vs \<Longrightarrow> \<exists>q'. push t q = Inr q' \<and> rep q' (vs @ [t])"
    and pop_empty: "rep q [] \<Longrightarrow> pop q = Inr (Empty, q)"
    and pop_data: "rep q (v # vs) \<Longrightarrow> \<exists>q'. pop q = Inr (Data v, q') \<and> rep q' vs"
    and rep_bound: "rep q vs \<Longrightarrow> length vs < bound q"
    and rep_unique: "rep q vs \<Longrightarrow> rep q ws \<Longrightarrow> vs = ws"
begin

lemma bound_pos: "rep q vs \<Longrightarrow> \<exists>k. bound q = Suc k"
  using rep_bound by (metis gr0_conv_Suc gr_zeroI not_less_zero)

lemma pop_wait_empty: "rep q [] \<Longrightarrow> pop_wait pop (bound q) q = Inr (None, q)"
  using bound_pos [of q "[]"] by (auto simp: pop_empty)

lemma pop_wait_data:
  "rep q (v # vs) \<Longrightarrow> \<exists>q'. pop_wait pop (bound q) q = Inr (Some v, q') \<and> rep q' vs"
  using bound_pos [of q "v # vs"] pop_data [of q v vs] by auto

lemma pop_all_fuel:
  "rep q vs \<Longrightarrow> length vs < k \<Longrightarrow> \<exists>q'. pop_all pop k q = Inr (vs, q') \<and> rep q' []"
proof (induction vs arbitrary: q k)
  case Nil
  then show ?case by (cases k) (auto simp: pop_empty)
next
  case (Cons v vs)
  then obtain k' where k: "k = Suc k'" "length vs < k'" by (cases k) auto
  obtain q' where q': "pop q = Inr (Data v, q')" "rep q' vs"
    using pop_data [OF Cons.prems(1)] by blast
  then obtain q'' where "pop_all pop k' q' = Inr (vs, q'')" "rep q'' []"
    using Cons.IH [of q' k'] k by auto
  then show ?case using k q' by auto
qed

lemma push_all_rep: "rep q vs \<Longrightarrow> \<exists>q'. push_all push ts q = Inr q' \<and> rep q' (vs @ ts)"
proof (induction ts arbitrary: q vs)
  case Nil
  then show ?case by simp
next
  case (Cons t ts)
  obtain q' where "push t q = Inr q'" "rep q' (vs @ [t])" using push_rep [OF Cons.prems] by blast
  then show ?case using Cons.IH [of q' "vs @ [t]"] by auto
qed

lemma pop_all_rep: "rep q vs \<Longrightarrow> \<exists>q'. pop_all pop (bound q) q = Inr (vs, q') \<and> rep q' []"
  by (rule pop_all_fuel) (auto intro: rep_bound)

end

lemma queue_new_rep: "queue_rep queue_new []"
  by (auto simp: queue_rep_def queue_rep_via_def queue_new_def node_new_def intro!: exI [of _ "[]"])

lemma queue_rep_brk: "queue_rep_via pend q ns vs \<Longrightarrow> q_heap q (q_brk q) = None"
  by (auto simp: queue_rep_via_def domIff)

lemma queue_push_rep: "queue_rep q vs \<Longrightarrow> \<exists>q'. queue_push t q = Inr q' \<and> queue_rep q' (vs @ [t])"
proof -
  assume "queue_rep q vs"
  then obtain ns where rep: "queue_rep_via {} q ns vs" by (auto simp: queue_rep_def)
  let ?n = "q_brk q"
  have "queue_rep_via {(q_head q, ?n)} (snd (push_swap ?n t q)) (ns @ [?n]) (vs @ [t])"
    using push_swap_rep [OF rep queue_rep_brk [OF rep], of t] by simp
  from push_link_rep [OF this, of "q_head q" ?n] show ?thesis
    by (auto simp: queue_push_def queue_rep_def push_swap_def Let_def)
qed

lemma queue_pop_empty: "queue_rep q [] \<Longrightarrow> queue_pop q = Inr (Empty, q)"
proof -
  assume "queue_rep q []"
  then obtain ns where rep: "queue_rep_via {} q ns []" by (auto simp: queue_rep_def)
  then have "ns = []" by (cases ns) (auto simp: queue_rep_via_def)
  then show ?thesis
    using pop_load_rep [OF rep] rep_via_empty_iff [OF rep] by (simp add: queue_pop_def pop_check_def)
qed

lemma queue_pop_data:
  "queue_rep q (v # vs) \<Longrightarrow> \<exists>q'. queue_pop q = Inr (Data v, q') \<and> queue_rep q' vs"
proof -
  assume "queue_rep q (v # vs)"
  then obtain ns where rep: "queue_rep_via {} q ns (v # vs)" by (auto simp: queue_rep_def)
  then obtain b ns' where ns: "ns = b # ns'" by (cases ns) (auto simp: queue_rep_via_def)
  show ?thesis
    using pop_load_rep [OF rep] pop_take_rep [of "{}" q b ns' v vs] rep ns
    by (auto simp: queue_pop_def queue_rep_def)
qed

lemma queue_rep_bound: "queue_rep q vs \<Longrightarrow> length vs < q_brk q"
proof -
  assume "queue_rep q vs"
  then obtain ns where rep: "queue_rep_via {} q ns vs" by (auto simp: queue_rep_def)
  then have "set (q_tail q # ns) \<subseteq> {..<q_brk q}" and "distinct (q_tail q # ns)"
    and "length ns = length vs"
    by (auto simp: queue_rep_via_def dest: chain_length)
  then show ?thesis
    using card_mono [of "{..<q_brk q}" "set (q_tail q # ns)"] distinct_card [of "q_tail q # ns"] by auto
qed

lemma queue_rep_unique: "queue_rep q vs \<Longrightarrow> queue_rep q ws \<Longrightarrow> vs = ws"
  by (auto simp: queue_rep_def queue_rep_via_def intro: rep_via_unique)

interpretation mq: mpsc_queue queue_new queue_push queue_pop q_brk queue_rep
  by unfold_locales
    (fact queue_new_rep queue_push_rep queue_pop_empty queue_pop_data queue_rep_bound queue_rep_unique)+

section \<open>Dropping the queue\<close>

lemma drop_walk_chain:
  "\<lbrakk>chain h {} a ns vs; distinct (a # ns); length ns < k\<rbrakk> \<Longrightarrow>
   drop_walk k (Some a) h = Inr (\<lambda>x. if x \<in> set (a # ns) then None else h x)"
proof (induction ns arbitrary: h a vs k)
  case Nil
  then show ?case by (cases k; cases vs) (auto simp: fun_eq_iff)
next
  case (Cons b ns)
  then obtain k' v ws where k: "k = Suc k'" "length ns < k'" and vs: "vs = v # ws"
    by (cases k; cases vs) auto
  have "chain (h(a := None)) {} b ns ws"
    by (rule chain_cong [of h "{}" b ns ws]) (use Cons.prems vs in auto)
  then have "drop_walk k' (Some b) (h(a := None))
      = Inr (\<lambda>x. if x \<in> set (b # ns) then None else (h(a := None)) x)"
    using Cons.IH [of "h(a := None)" b ws k'] Cons.prems k by (simp add: fun_upd_def)
  then show ?case using Cons.prems k vs by (auto simp: fun_eq_iff)
qed

lemma queue_drop_frees:
  assumes "queue_rep q vs" and "length vs < k"
  shows "\<exists>q'. queue_drop k q = Inr q' \<and> q_heap q' = Map.empty"
proof -
  obtain ns where rep: "queue_rep_via {} q ns vs" using assms by (auto simp: queue_rep_def)
  have "drop_walk k (Some (q_tail q)) (q_heap q)
      = Inr (\<lambda>x. if x \<in> set (q_tail q # ns) then None else q_heap q x)"
    using rep assms(2) by (intro drop_walk_chain) (auto simp: queue_rep_via_def dest: chain_length)
  moreover have "(\<lambda>x. if x \<in> set (q_tail q # ns) then None else q_heap q x) = Map.empty"
    using rep by (auto simp: queue_rep_via_def fun_eq_iff domIff)
  ultimately show ?thesis by (simp add: queue_drop_def)
qed

section \<open>Any number of pushers and one popper\<close>

text \<open>
  \<open>sys_pend\<close> holds, for every pusher that has swapped the head and not stored the link yet,
  the pair of its \<^verbatim>\<open>prev\<close> and its own node.  The popper is idle or holds the successor it has
  loaded.  Every atomic access is a step; a step that would touch freed memory or fail an
  assertion is a step with the event \<open>EvFault\<close>.
\<close>

datatype popper = PopIdle | PopLoaded "addr option"

record 'a qsys =
  sys_q :: "'a Queue"
  sys_pend :: "(addr \<times> addr) set"
  sys_pop :: popper

datatype 'a qevent = EvPush 'a | EvLink | EvLoad | EvPop 'a | EvEmpty | EvInconsistent | EvFault fault

inductive qstep :: "'a qsys \<Rightarrow> 'a qevent \<Rightarrow> 'a qsys \<Rightarrow> bool" where
  swap: "\<lbrakk>q_heap (sys_q s) n = None; push_swap n t (sys_q s) = (prev, q')\<rbrakk> \<Longrightarrow>
    qstep s (EvPush t) (s\<lparr>sys_q := q', sys_pend := insert (prev, n) (sys_pend s)\<rparr>)"
| link: "\<lbrakk>(prev, n) \<in> sys_pend s; push_link prev n (sys_q s) = Inr q'\<rbrakk> \<Longrightarrow>
    qstep s EvLink (s\<lparr>sys_q := q', sys_pend := sys_pend s - {(prev, n)}\<rparr>)"
| link_fault: "\<lbrakk>(prev, n) \<in> sys_pend s; push_link prev n (sys_q s) = Inl e\<rbrakk> \<Longrightarrow>
    qstep s (EvFault e) s"
| load: "\<lbrakk>sys_pop s = PopIdle; pop_load (sys_q s) = Inr nx\<rbrakk> \<Longrightarrow>
    qstep s EvLoad (s\<lparr>sys_pop := PopLoaded nx\<rparr>)"
| load_fault: "\<lbrakk>sys_pop s = PopIdle; pop_load (sys_q s) = Inl e\<rbrakk> \<Longrightarrow> qstep s (EvFault e) s"
| take: "\<lbrakk>sys_pop s = PopLoaded (Some nx); pop_take nx (sys_q s) = Inr (Data v, q')\<rbrakk> \<Longrightarrow>
    qstep s (EvPop v) (s\<lparr>sys_q := q', sys_pop := PopIdle\<rparr>)"
| take_fault: "\<lbrakk>sys_pop s = PopLoaded (Some nx); pop_take nx (sys_q s) = Inl e\<rbrakk> \<Longrightarrow>
    qstep s (EvFault e) s"
| check_empty: "\<lbrakk>sys_pop s = PopLoaded None; pop_check (sys_q s) = Empty\<rbrakk> \<Longrightarrow>
    qstep s EvEmpty (s\<lparr>sys_pop := PopIdle\<rparr>)"
| check_inconsistent: "\<lbrakk>sys_pop s = PopLoaded None; pop_check (sys_q s) = Inconsistent\<rbrakk> \<Longrightarrow>
    qstep s EvInconsistent (s\<lparr>sys_pop := PopIdle\<rparr>)"

definition qsys_init :: "'a qsys" where
  "qsys_init = \<lparr>sys_q = queue_new, sys_pend = {}, sys_pop = PopIdle\<rparr>"

inductive qrun :: "'a qevent list \<Rightarrow> 'a qsys \<Rightarrow> bool" where
  start: "qrun [] qsys_init"
| step: "\<lbrakk>qrun es s; qstep s e s'\<rbrakk> \<Longrightarrow> qrun (es @ [e]) s'"

text \<open>The values pushed, in the order of the swaps, and the values popped.\<close>

fun pushed :: "'a qevent list \<Rightarrow> 'a list" where
  "pushed [] = []"
| "pushed (EvPush t # es) = t # pushed es"
| "pushed (_ # es) = pushed es"

fun popped :: "'a qevent list \<Rightarrow> 'a list" where
  "popped [] = []"
| "popped (EvPop t # es) = t # popped es"
| "popped (_ # es) = popped es"

lemma pushed_append [simp]: "pushed (es @ fs) = pushed es @ pushed fs"
  by (induction es rule: pushed.induct) auto

lemma popped_append [simp]: "popped (es @ fs) = popped es @ popped fs"
  by (induction es rule: popped.induct) auto

text \<open>
  The invariant: the heap represents some list of values, the links in flight are exactly the
  null links of the chain, and a successor the popper has loaded is still the successor.
\<close>

definition popper_ok :: "'a qsys \<Rightarrow> addr list \<Rightarrow> bool" where
  "popper_ok s ns \<longleftrightarrow>
     (\<forall>nx. sys_pop s = PopLoaded (Some nx) \<longrightarrow>
        (\<exists>ns'. ns = nx # ns') \<and> (q_tail (sys_q s), nx) \<notin> sys_pend s)"

definition qsys_inv :: "'a qsys \<Rightarrow> 'a list \<Rightarrow> bool" where
  "qsys_inv s vs \<longleftrightarrow> (\<exists>ns. queue_rep_via (sys_pend s) (sys_q s) ns vs \<and> popper_ok s ns)"

lemma qsys_inv_init: "qsys_inv qsys_init []"
  using queue_new_rep
  by (auto simp: qsys_inv_def qsys_init_def popper_ok_def queue_rep_def)

lemma qsys_inv_swap:
  assumes inv: "qsys_inv s vs" and free: "q_heap (sys_q s) n = None"
    and sw: "push_swap n t (sys_q s) = (prev, q')"
  shows "qsys_inv (s\<lparr>sys_q := q', sys_pend := insert (prev, n) (sys_pend s)\<rparr>) (vs @ [t])"
proof -
  obtain ns where rep: "queue_rep_via (sys_pend s) (sys_q s) ns vs" and ok: "popper_ok s ns"
    using inv by (auto simp: qsys_inv_def)
  have eqs: "prev = q_head (sys_q s)" "q' = snd (push_swap n t (sys_q s))"
    "q_tail q' = q_tail (sys_q s)"
    using sw by (auto simp: push_swap_def)
  have "n \<notin> set ns" using rep free by (auto simp: queue_rep_via_def)
  then have "popper_ok (s\<lparr>sys_q := q', sys_pend := insert (prev, n) (sys_pend s)\<rparr>) (ns @ [n])"
    using ok eqs by (fastforce simp: popper_ok_def)
  then show ?thesis
    using push_swap_rep [OF rep free, of t] eqs by (auto simp: qsys_inv_def)
qed

lemma qsys_inv_link:
  assumes inv: "qsys_inv s vs" and l: "(prev, n) \<in> sys_pend s"
  shows "\<exists>q'. push_link prev n (sys_q s) = Inr q' \<and>
    qsys_inv (s\<lparr>sys_q := q', sys_pend := sys_pend s - {(prev, n)}\<rparr>) vs"
proof -
  obtain ns where rep: "queue_rep_via (sys_pend s) (sys_q s) ns vs" and ok: "popper_ok s ns"
    using inv by (auto simp: qsys_inv_def)
  obtain q' where q': "push_link prev n (sys_q s) = Inr q'"
    "queue_rep_via (sys_pend s - {(prev, n)}) q' ns vs"
    using push_link_rep [OF rep l] by blast
  then have "q_tail q' = q_tail (sys_q s)"
    by (auto simp: push_link_def split: option.splits)
  then show ?thesis using q' ok by (auto simp: qsys_inv_def popper_ok_def)
qed

lemma qsys_inv_load:
  assumes inv: "qsys_inv s vs"
  shows "\<exists>nx. pop_load (sys_q s) = Inr nx \<and> qsys_inv (s\<lparr>sys_pop := PopLoaded nx\<rparr>) vs"
proof -
  obtain ns where rep: "queue_rep_via (sys_pend s) (sys_q s) ns vs"
    using inv by (auto simp: qsys_inv_def)
  have "popper_ok (s\<lparr>sys_pop := PopLoaded nx\<rparr>) ns" if "pop_load (sys_q s) = Inr nx" for nx
    using that pop_load_rep [OF rep] by (auto simp: popper_ok_def split: list.splits if_splits)
  then show ?thesis
    using rep pop_load_rep [OF rep] unfolding qsys_inv_def by fastforce
qed

lemma qsys_inv_take:
  assumes inv: "qsys_inv s vs" and p: "sys_pop s = PopLoaded (Some nx)"
  shows "\<exists>v vs' q'. vs = v # vs' \<and> pop_take nx (sys_q s) = Inr (Data v, q') \<and>
    qsys_inv (s\<lparr>sys_q := q', sys_pop := PopIdle\<rparr>) vs'"
proof -
  obtain ns' where rep: "queue_rep_via (sys_pend s) (sys_q s) (nx # ns') vs"
    and np: "(q_tail (sys_q s), nx) \<notin> sys_pend s"
    using inv p by (auto simp: qsys_inv_def popper_ok_def)
  then obtain v vs' where vs: "vs = v # vs'"
    by (cases vs) (auto simp: queue_rep_via_def)
  with pop_take_rep [of "sys_pend s" "sys_q s" nx ns' v vs'] rep np show ?thesis
    by (auto simp: qsys_inv_def popper_ok_def)
qed

lemma qsys_inv_idle: "qsys_inv s vs \<Longrightarrow> qsys_inv (s\<lparr>sys_pop := PopIdle\<rparr>) vs"
  by (auto simp: qsys_inv_def popper_ok_def)

lemma qsys_inv_check:
  "qsys_inv s vs \<Longrightarrow> pop_check (sys_q s) = (if vs = [] then Empty else Inconsistent)"
  by (auto simp: qsys_inv_def pop_check_def dest: rep_via_empty_iff)

lemma qstep_inv:
  "\<lbrakk>qstep s e s'; qsys_inv s vs\<rbrakk> \<Longrightarrow>
   \<exists>vs'. qsys_inv s' vs' \<and> vs @ pushed [e] = popped [e] @ vs' \<and> (\<forall>f. e \<noteq> EvFault f) \<and>
     (e = EvEmpty \<longrightarrow> vs = [])"
proof (induction rule: qstep.induct)
  case (swap s n t prev q')
  then show ?case using qsys_inv_swap [of s vs n t prev q'] by auto
next
  case (link prev n s q')
  then show ?case using qsys_inv_link [of s vs prev n] by auto
next
  case (link_fault prev n s e)
  then show ?case using qsys_inv_link [of s vs prev n] by auto
next
  case (load s nx)
  then show ?case using qsys_inv_load [of s vs] by auto
next
  case (load_fault s e)
  then show ?case using qsys_inv_load [of s vs] by auto
next
  case (take s nx v q')
  then show ?case using qsys_inv_take [of s vs nx] by auto
next
  case (take_fault s nx e)
  then show ?case using qsys_inv_take [of s vs nx] by auto
next
  case (check_empty s)
  then show ?case by (auto simp: qsys_inv_check intro: qsys_inv_idle split: if_splits)
next
  case (check_inconsistent s)
  then show ?case by (auto intro: qsys_inv_idle)
qed

lemma qrun_inv:
  "qrun es s \<Longrightarrow> \<exists>vs. qsys_inv s vs \<and> pushed es = popped es @ vs \<and> (\<forall>f. EvFault f \<notin> set es)"
proof (induction rule: qrun.induct)
  case start
  then show ?case using qsys_inv_init by auto
next
  case (step es s e s')
  then obtain vs where vs: "qsys_inv s vs" "pushed es = popped es @ vs" "\<forall>f. EvFault f \<notin> set es"
    by blast
  obtain vs' where "qsys_inv s' vs'" "vs @ pushed [e] = popped [e] @ vs'" "\<forall>f. e \<noteq> EvFault f"
    using qstep_inv [OF step.hyps(2) vs(1)] by blast
  then show ?case using vs by (intro exI [of _ vs']) auto
qed

section \<open>Properties\<close>

text \<open>C3: In every interleaving of any number of pushers with the popper, values leave the queue
  in the order in which their pushes swapped the head, none is lost or duplicated (what was
  pushed is what was popped followed by what the heap still holds), and no access ever touches a
  freed node or fails an assertion of \<^verbatim>\<open>pop\<close>.\<close>

theorem mpsc_fifo_and_memory_safe:
  assumes "qrun es s"
  shows "(\<exists>ns vs. queue_rep_via (sys_pend s) (sys_q s) ns vs \<and> pushed es = popped es @ vs)
    \<and> (\<forall>f. EvFault f \<notin> set es)"
  using qrun_inv [OF assms] by (auto simp: qsys_inv_def)

lemma qrun_example: "\<exists>s. qrun [EvPush (7::nat), EvPush 8, EvLink, EvLoad, EvPop 7] s"
proof -
  let ?q0 = "queue_new :: nat Queue"
  let ?q1 = "snd (push_swap 1 7 ?q0)"
  let ?q2 = "snd (push_swap 2 8 ?q1)"
  let ?s2 = "\<lparr>sys_q = ?q2, sys_pend = {(1, 2), (0, 1)}, sys_pop = PopIdle\<rparr>"
  have r0: "qrun [] (qsys_init :: nat qsys)" by (rule qrun.start)
  have r1: "qrun [EvPush 7] (qsys_init\<lparr>sys_q := ?q1, sys_pend := {(0, 1)}\<rparr>)"
    using qrun.step [OF r0 qstep.swap [of qsys_init 1 7 0 ?q1]]
    by (simp add: qsys_init_def push_swap_def queue_new_def)
  have r2: "qrun [EvPush 7, EvPush 8] ?s2"
    using qrun.step [OF r1 qstep.swap [of "qsys_init\<lparr>sys_q := ?q1, sys_pend := {(0, 1)}\<rparr>" 2 8 1 ?q2]]
    by (simp add: qsys_init_def push_swap_def queue_new_def)
  obtain q3 where q3: "push_link 0 1 ?q2 = Inr q3"
    by (simp add: push_link_def push_swap_def queue_new_def)
  have r3: "qrun [EvPush 7, EvPush 8, EvLink] (?s2\<lparr>sys_q := q3, sys_pend := {(1, 2)}\<rparr>)"
    using qrun.step [OF r2 qstep.link [of 0 1 ?s2 q3]] q3 by (simp add: insert_Diff_if)
  have nx: "pop_load q3 = Inr (Some 1)"
    using q3 by (auto simp: push_link_def push_swap_def queue_new_def pop_load_def)
  have r4: "qrun [EvPush 7, EvPush 8, EvLink, EvLoad]
      (?s2\<lparr>sys_q := q3, sys_pend := {(1, 2)}, sys_pop := PopLoaded (Some 1)\<rparr>)"
    using qrun.step [OF r3 qstep.load [of "?s2\<lparr>sys_q := q3, sys_pend := {(1, 2)}\<rparr>" "Some 1"]] nx by simp
  obtain q5 where q5: "pop_take 1 q3 = Inr (Data 7, q5)"
    using q3 by (auto simp: push_link_def push_swap_def queue_new_def pop_take_def node_new_def)
  show ?thesis
    using qrun.step [OF r4 qstep.take [of "?s2\<lparr>sys_q := q3, sys_pend := {(1, 2)},
      sys_pop := PopLoaded (Some 1)\<rparr>" 1 7 q5]] q5 by auto
qed

theorem mpsc_fifo_and_memory_safe_witness:
  "\<exists>(s :: nat qsys) ns vs. qrun [EvPush 7, EvPush 8, EvLink, EvLoad, EvPop 7] s \<and>
     queue_rep_via (sys_pend s) (sys_q s) ns vs \<and> [7, 8] = [7] @ vs"
proof -
  obtain s :: "nat qsys" where s: "qrun [EvPush 7, EvPush 8, EvLink, EvLoad, EvPop 7] s"
    using qrun_example by blast
  show ?thesis using mpsc_fifo_and_memory_safe [OF s] s by auto
qed

text \<open>The verdicts of a pop are exact.  A pop that reports \<^verbatim>\<open>Empty\<close> does so in a state in
  which everything pushed has been popped, and one that reports \<^verbatim>\<open>Inconsistent\<close> in a state
  in which a pushed value has not been popped yet.\<close>

theorem mpsc_pop_verdicts:
  assumes "qrun es s" and "qstep s e s'"
  shows "(e = EvEmpty \<longrightarrow> pushed es = popped es) \<and> (e = EvInconsistent \<longrightarrow> pushed es \<noteq> popped es)"
proof -
  obtain vs where vs: "qsys_inv s vs" "pushed es = popped es @ vs"
    using qrun_inv [OF assms(1)] by blast
  have "e = EvInconsistent \<longrightarrow> vs \<noteq> []"
    using assms(2) vs(1) by (auto elim!: qstep.cases simp: qsys_inv_check)
  then show ?thesis using qstep_inv [OF assms(2) vs(1)] vs(2) by auto
qed

lemma qrun_example_load: "qrun [EvLoad] (qsys_init\<lparr>sys_pop := PopLoaded None\<rparr> :: nat qsys)"
  using qrun.step [OF qrun.start qstep.load [of qsys_init None]]
  by (simp add: qsys_init_def pop_load_def queue_new_def node_new_def)

theorem mpsc_pop_verdicts_witness:
  "qstep (qsys_init\<lparr>sys_pop := PopLoaded None\<rparr> :: nat qsys) EvEmpty qsys_init \<and>
   pushed ([EvLoad] :: nat qevent list) = popped ([EvLoad] :: nat qevent list)"
proof -
  have st: "qstep (qsys_init\<lparr>sys_pop := PopLoaded None\<rparr> :: nat qsys) EvEmpty qsys_init"
    using qstep.check_empty [of "qsys_init\<lparr>sys_pop := PopLoaded None\<rparr>"]
    by (simp add: pop_check_def qsys_init_def queue_new_def)
  show ?thesis using st mpsc_pop_verdicts [OF qrun_example_load st] by simp
qed

text \<open>With no push in flight the queue is a FIFO list: pushing any sequence of values onto a
  new queue succeeds, and popping until the queue is empty returns exactly that sequence.\<close>

theorem queue_push_pop_roundtrip:
  "\<exists>q q'. push_all queue_push ts queue_new = Inr q \<and> pop_all queue_pop (q_brk q) q = Inr (ts, q')
     \<and> queue_pop q' = Inr (Empty, q')"
proof -
  obtain q where q: "push_all queue_push ts queue_new = Inr q" "queue_rep q ts"
    using mq.push_all_rep [OF queue_new_rep, of ts] by auto
  then show ?thesis using mq.pop_all_rep [OF q(2)] mq.pop_empty by blast
qed

text \<open>C4: Dropping a queue that holds any values and has no push in flight walks to the end of the
  list, frees every allocated node exactly once (a second free would be the use-after-free
  fault) and leaks none.\<close>

theorem queue_drop_frees_all:
  assumes "queue_rep q vs" and "length vs < k"
  shows "\<exists>q'. queue_drop k q = Inr q' \<and> q_heap q' = Map.empty"
  using assms by (rule queue_drop_frees)

theorem queue_drop_frees_all_witness:
  "\<exists>q q'. queue_push (5::nat) queue_new = Inr q \<and> queue_rep q [5] \<and> queue_drop 2 q = Inr q' \<and>
     q_heap q' = Map.empty"
proof -
  obtain q where q: "queue_push (5::nat) queue_new = Inr q" "queue_rep q [5]"
    using mq.push_rep [OF queue_new_rep, of 5] by auto
  show ?thesis using q queue_drop_frees_all [OF q(2), of 2] by auto
qed

end
