(* ===== verification/Channel_Spec.thy ===== *)
theory Channel_Spec
  imports Actix_Prelude
begin

text \<open>
  What both mailbox channels promise their clients, as the locale \<open>bounded_channel\<close>: a
  conditional send that is accepted exactly while there is room, an unconditional send, and a
  receive that takes the oldest message.  The client lemmas say that any sequence of these
  operations delivers in order, loses nothing, and that conditional sends alone never take the
  channel over its capacity.  The locale is interpreted on the thread-safe channel in
  \<open>Sync_Channel\<close> and on the single-thread channel in \<open>Unsync_Channel\<close>.
\<close>

datatype 'e chan_op = Offer 'e | Force 'e | Take

text \<open>What the client observes of one operation.\<close>

datatype 'e chan_obs = Accepted 'e | Rejected 'e | Received 'e | NothingThere

fun accepted :: "'e chan_obs list \<Rightarrow> 'e list" where
  "accepted [] = []"
| "accepted (Accepted e # os) = e # accepted os"
| "accepted (_ # os) = accepted os"

fun received :: "'e chan_obs list \<Rightarrow> 'e list" where
  "received [] = []"
| "received (Received e # os) = e # received os"
| "received (_ # os) = received os"

text \<open>\<open>run_chan\<close> runs a sequence of operations and records the observations.\<close>

fun run_chan ::
  "('e \<Rightarrow> 'c \<Rightarrow> bool \<times> 'c) \<Rightarrow> ('e \<Rightarrow> 'c \<Rightarrow> 'c) \<Rightarrow> ('c \<Rightarrow> 'e option \<times> 'c) \<Rightarrow>
   'e chan_op list \<Rightarrow> 'c \<Rightarrow> 'e chan_obs list \<times> 'c" where
  "run_chan offer force recv [] c = ([], c)"
| "run_chan offer force recv (Offer e # ops) c =
     (let (ok, c') = offer e c; (os, c'') = run_chan offer force recv ops c'
      in ((if ok then Accepted e else Rejected e) # os, c''))"
| "run_chan offer force recv (Force e # ops) c =
     (let (os, c'') = run_chan offer force recv ops (force e c) in (Accepted e # os, c''))"
| "run_chan offer force recv (Take # ops) c =
     (let (r, c') = recv c; (os, c'') = run_chan offer force recv ops c'
      in ((case r of None \<Rightarrow> NothingThere | Some e \<Rightarrow> Received e) # os, c''))"

locale bounded_channel =
  fixes rep :: "'c \<Rightarrow> 'e list \<Rightarrow> bool"
    and cap :: "'c \<Rightarrow> nat"
    and offer :: "'e \<Rightarrow> 'c \<Rightarrow> bool \<times> 'c"
    and force :: "'e \<Rightarrow> 'c \<Rightarrow> 'c"
    and recv :: "'c \<Rightarrow> 'e option \<times> 'c"
    and limit :: nat
  assumes offer_room: "\<lbrakk>rep c ms; length ms + 1 < limit; cap c = 0 \<or> length ms < cap c\<rbrakk> \<Longrightarrow>
      \<exists>c'. offer e c = (True, c') \<and> rep c' (ms @ [e]) \<and> cap c' = cap c"
    and offer_full: "\<lbrakk>rep c ms; cap c \<noteq> 0; cap c \<le> length ms\<rbrakk> \<Longrightarrow>
      \<exists>c'. offer e c = (False, c') \<and> rep c' ms \<and> cap c' = cap c"
    and force_ok: "\<lbrakk>rep c ms; length ms + 1 < limit\<rbrakk> \<Longrightarrow>
      rep (force e c) (ms @ [e]) \<and> cap (force e c) = cap c"
    and recv_empty: "rep c [] \<Longrightarrow> \<exists>c'. recv c = (None, c') \<and> rep c' [] \<and> cap c' = cap c"
    and recv_data: "rep c (m # ms) \<Longrightarrow> \<exists>c'. recv c = (Some m, c') \<and> rep c' ms \<and> cap c' = cap c"
begin

text \<open>One operation.\<close>

lemma run_step:
  assumes "rep c ms" and "length ms + 1 < limit"
  shows "\<exists>ob c1 ms1. (\<forall>ops. run_chan offer force recv (op # ops) c =
      (let (os, c2) = run_chan offer force recv ops c1 in (ob # os, c2))) \<and>
    rep c1 ms1 \<and> cap c1 = cap c \<and> ms @ accepted [ob] = received [ob] @ ms1 \<and> length ms1 \<le> length ms + 1 \<and>
    ((\<forall>e. op \<noteq> Force e) \<and> cap c \<noteq> 0 \<and> length ms \<le> cap c \<longrightarrow> length ms1 \<le> cap c)"
proof (cases op)
  case (Offer e)
  show ?thesis
  proof (cases "cap c = 0 \<or> length ms < cap c")
    case True
    then obtain c1 where "offer e c = (True, c1)" "rep c1 (ms @ [e])" "cap c1 = cap c" using offer_room [OF assms] by blast
    then show ?thesis using Offer True by (intro exI [of _ "Accepted e"] exI [of _ c1] exI [of _ "ms @ [e]"]) auto
  next
    case False
    then obtain c1 where "offer e c = (False, c1)" "rep c1 ms" "cap c1 = cap c" using offer_full [OF assms(1)] by fastforce
    then show ?thesis using Offer by (intro exI [of _ "Rejected e"] exI [of _ c1] exI [of _ ms]) auto
  qed
next
  case (Force e)
  then show ?thesis using force_ok [OF assms, of e]
    by (intro exI [of _ "Accepted e"] exI [of _ "force e c"] exI [of _ "ms @ [e]"]) auto
next
  case Take
  show ?thesis
  proof (cases ms)
    case Nil
    then obtain c1 where "recv c = (None, c1)" "rep c1 []" "cap c1 = cap c" using recv_empty assms(1) by blast
    then show ?thesis using Take Nil by (intro exI [of _ NothingThere] exI [of _ c1] exI [of _ "[]"]) auto
  next
    case (Cons m ms1)
    then obtain c1 where "recv c = (Some m, c1)" "rep c1 ms1" "cap c1 = cap c" using recv_data assms(1) by blast
    then show ?thesis using Take Cons by (intro exI [of _ "Received m"] exI [of _ c1] exI [of _ ms1]) auto
  qed
qed

lemma run_spec:
  "\<lbrakk>rep c ms; length ms + length ops + 1 \<le> limit; run_chan offer force recv ops c = (os, c')\<rbrakk> \<Longrightarrow>
   \<exists>ms'. rep c' ms' \<and> cap c' = cap c \<and> ms @ accepted os = received os @ ms' \<and> length ms' \<le> length ms + length ops \<and>
     ((\<forall>e. Force e \<notin> set ops) \<and> cap c \<noteq> 0 \<and> length ms \<le> cap c \<longrightarrow> length ms' \<le> cap c)"
proof (induction ops arbitrary: c ms os)
  case (Cons op ops)
  have "length ms + 1 < limit" using Cons.prems(2) by simp
  from run_step [OF Cons.prems(1) this, of op] obtain ob c1 ms1 where
    st: "\<forall>ops. run_chan offer force recv (op # ops) c = (let (os, c2) = run_chan offer force recv ops c1 in (ob # os, c2))" and
    1: "rep c1 ms1" "cap c1 = cap c" "ms @ accepted [ob] = received [ob] @ ms1" "length ms1 \<le> length ms + 1"
      "(\<forall>e. op \<noteq> Force e) \<and> cap c \<noteq> 0 \<and> length ms \<le> cap c \<longrightarrow> length ms1 \<le> cap c" by blast
  obtain os1 where os: "run_chan offer force recv ops c1 = (os1, c')" "os = ob # os1"
    using st Cons.prems(3) by (auto split: prod.splits)
  obtain ms' where 2: "rep c' ms'" "cap c' = cap c" "ms1 @ accepted os1 = received os1 @ ms'" "length ms' \<le> length ms1 + length ops"
    "(\<forall>e. Force e \<notin> set ops) \<and> cap c \<noteq> 0 \<and> length ms1 \<le> cap c \<longrightarrow> length ms' \<le> cap c"
    using Cons.IH [OF 1(1) _ os(1)] 1(2,4) Cons.prems(2) by auto
  have "accepted os = accepted [ob] @ accepted os1" "received os = received [ob] @ received os1"
    using os(2) by (cases ob; simp)+
  then have "ms @ accepted os = received os @ ms'" using 1(3) 2(3) by (metis append.assoc)
  then show ?case using 1(4,5) 2 by auto
qed auto

lemma run_fifo:
  "\<lbrakk>rep c ms; length ms + length ops + 1 \<le> limit; run_chan offer force recv ops c = (os, c')\<rbrakk> \<Longrightarrow>
   \<exists>ms'. rep c' ms' \<and> cap c' = cap c \<and> ms @ accepted os = received os @ ms' \<and>
     length ms' \<le> length ms + length ops"
  using run_spec by blast

lemma run_bounded:
  "\<lbrakk>rep c ms; length ms + length ops + 1 \<le> limit; \<forall>e. Force e \<notin> set ops;
    cap c \<noteq> 0; length ms \<le> cap c; run_chan offer force recv ops c = (os, c')\<rbrakk> \<Longrightarrow>
   \<exists>ms'. rep c' ms' \<and> length ms' \<le> cap c"
  using run_spec by blast

end

end
