(* ===== verification/Sync_Channel.thy ===== *)
theory Sync_Channel
  imports Mpsc_Queue Channel_Spec
begin

text \<open>
  The thread-safe mailbox channel of \<^verbatim>\<open>src/address/sync_channel.rs\<close>: a bounded
  multi-producer single-consumer channel over two lock-free queues, one of messages and one
  of parked senders.

  The record \<open>Inner\<close> has the fields of the code's struct.  \<open>Chan\<close> extends it with
  what the code reaches through shared pointers: the \<^verbatim>\<open>Arc<Mutex<SenderTask>>\<close> cells, one per
  sender, addressed by number, and the list of tasks notified so far.  The current task
  (\<^verbatim>\<open>task::current()\<close>), the freshly created oneshot pair and the envelope constructor are
  arguments.  Every read-modify-write loop on an atomic takes the list of values that other
  threads store between its attempts; the operations of one thread use the empty list.
  Arithmetic that would overflow is the fault \<open>Panicked\<close>.
\<close>

unbundle bit_operations_syntax

section \<open>State word\<close>

record State =
  is_open :: bool
  num_messages :: usize

definition USIZE_MAX :: usize where
  "USIZE_MAX = -1"

definition OPEN_MASK :: usize where
  "OPEN_MASK = USIZE_MAX - drop_bit 1 USIZE_MAX"

definition INIT_STATE :: usize where
  "INIT_STATE = OPEN_MASK"

definition MAX_CAPACITY :: usize where
  "MAX_CAPACITY = NOT OPEN_MASK"

definition MAX_BUFFER :: usize where
  "MAX_BUFFER = drop_bit 1 MAX_CAPACITY"

definition decode_state :: "usize \<Rightarrow> State" where
  "decode_state num = \<lparr>is_open = (num AND OPEN_MASK = OPEN_MASK), num_messages = num AND MAX_CAPACITY\<rparr>"

definition encode_state :: "State \<Rightarrow> usize" where
  "encode_state st = (let num = num_messages st in if is_open st then num OR OPEN_MASK else num)"

section \<open>Channel state\<close>

record SenderTask =
  st_task :: "task option"
  st_is_parked :: bool

record ReceiverTask =
  rt_unparked :: bool
  rt_task :: "task option"

record 'e Inner =
  i_buffer :: usize
  i_state :: usize
  i_message_queue :: "'e Queue"
  i_parked_queue :: "nat Queue"
  i_num_senders :: usize
  i_recv_task :: ReceiverTask

record 'e Chan = "'e Inner" +
  ch_cells :: "nat \<Rightarrow> SenderTask"
  ch_next_cell :: nat
  ch_woken :: "task list"

record SyncAddressSender =
  s_cell :: nat
  s_maybe_parked :: bool

datatype TryPark = Parked | NotEmpty

definition sender_task_new :: SenderTask where
  "sender_task_new = \<lparr>st_task = None, st_is_parked = False\<rparr>"

text \<open>\<^verbatim>\<open>SenderTask::notify\<close> on the cell \<open>i\<close>.\<close>

definition notify_cell :: "nat \<Rightarrow> 'e Chan \<Rightarrow> 'e Chan" where
  "notify_cell i c =
     (let t = ch_cells c i in
      c\<lparr>ch_cells := (ch_cells c)(i := \<lparr>st_task = None, st_is_parked = False\<rparr>),
        ch_woken := ch_woken c @ (case st_task t of None \<Rightarrow> [] | Some k \<Rightarrow> [k])\<rparr>)"

definition channel :: "usize \<Rightarrow> (SyncAddressSender \<times> 'e Chan) exec" where
  "channel buffer =
     (if buffer < MAX_BUFFER then
        Inr (\<lparr>s_cell = 0, s_maybe_parked = False\<rparr>,
             \<lparr>i_buffer = buffer, i_state = INIT_STATE, i_message_queue = queue_new,
              i_parked_queue = queue_new, i_num_senders = 1,
              i_recv_task = \<lparr>rt_unparked = False, rt_task = None\<rparr>,
              ch_cells = (\<lambda>_. sender_task_new), ch_next_cell = 1, ch_woken = []\<rparr>)
      else Inl Panicked)"

section \<open>Read-modify-write loops\<close>

text \<open>
  In each loop \<open>seen\<close> is the expected value, \<open>mem\<close> the value of the atomic when the
  compare-exchange runs, and the list holds what other threads store before the later attempts.
\<close>

definition next_mem :: "usize \<Rightarrow> usize list \<Rightarrow> usize" where
  "next_mem mem env = (case env of [] \<Rightarrow> mem | e # _ \<Rightarrow> e)"

function inc_loop :: "usize \<Rightarrow> usize \<Rightarrow> usize \<Rightarrow> usize list \<Rightarrow> bool option \<times> usize" where
  "inc_loop buffer seen mem env =
     (let state = decode_state seen in
      if \<not> is_open state then (None, mem)
      else if buffer \<noteq> 0 \<and> num_messages state \<ge> buffer then (Some True, mem)
      else let nxt = encode_state (state\<lparr>num_messages := num_messages state + 1\<rparr>) in
        if mem = seen then (Some False, nxt)
        else inc_loop buffer mem (next_mem mem env) (tl env))"
  by pat_completeness auto
termination
  by (relation "measure (\<lambda>(b, seen, mem, env). 2 * length env + (if mem = seen then 0 else 1))")
    (auto simp: next_mem_def split: list.splits)

definition inc_num_messages :: "'e Chan \<Rightarrow> bool option \<times> 'e Chan" where
  "inc_num_messages c =
     (let (r, st) = inc_loop (i_buffer c) (i_state c) (i_state c) [] in (r, c\<lparr>i_state := st\<rparr>))"

function inc_force_loop :: "usize \<Rightarrow> usize \<Rightarrow> usize \<Rightarrow> usize list \<Rightarrow> bool option \<times> usize" where
  "inc_force_loop buffer seen mem env =
     (let state = decode_state seen in
      if \<not> is_open state then (None, mem)
      else let state' = state\<lparr>num_messages := num_messages state + 1\<rparr>; nxt = encode_state state' in
        if mem = seen then (Some (buffer \<noteq> 0 \<and> num_messages state' \<ge> buffer), nxt)
        else inc_force_loop buffer mem (next_mem mem env) (tl env))"
  by pat_completeness auto
termination
  by (relation "measure (\<lambda>(b, seen, mem, env). 2 * length env + (if mem = seen then 0 else 1))")
    (auto simp: next_mem_def split: list.splits)

definition inc_num_messages_force :: "'e Chan \<Rightarrow> bool option \<times> 'e Chan" where
  "inc_num_messages_force c =
     (let (r, st) = inc_force_loop (i_buffer c) (i_state c) (i_state c) [] in (r, c\<lparr>i_state := st\<rparr>))"

function dec_loop :: "usize \<Rightarrow> usize \<Rightarrow> usize list \<Rightarrow> usize exec" where
  "dec_loop seen mem env =
     (let state = decode_state seen in
      if num_messages state = 0 then Inl Panicked
      else let nxt = encode_state (state\<lparr>num_messages := num_messages state - 1\<rparr>) in
        if mem = seen then Inr nxt else dec_loop mem (next_mem mem env) (tl env))"
  by pat_completeness auto
termination
  by (relation "measure (\<lambda>(seen, mem, env). 2 * length env + (if mem = seen then 0 else 1))")
    (auto simp: next_mem_def split: list.splits)

definition dec_num_messages :: "'e Chan \<Rightarrow> 'e Chan exec" where
  "dec_num_messages c =
     bind_exec (dec_loop (i_state c) (i_state c) []) (\<lambda>st. Inr (c\<lparr>i_state := st\<rparr>))"

function close_loop :: "usize \<Rightarrow> usize \<Rightarrow> usize list \<Rightarrow> usize" where
  "close_loop seen mem env =
     (let state = decode_state seen in
      if \<not> is_open state then mem
      else let nxt = encode_state (state\<lparr>is_open := False\<rparr>) in
        if mem = seen then nxt else close_loop mem (next_mem mem env) (tl env))"
  by pat_completeness auto
termination
  by (relation "measure (\<lambda>(seen, mem, env). 2 * length env + (if mem = seen then 0 else 1))")
    (auto simp: next_mem_def split: list.splits)

text \<open>
  \<^verbatim>\<open>max_senders\<close>; the subtraction is the fault \<open>Panicked\<close> when the buffer is larger than
  the maximal capacity.
\<close>

definition max_senders :: "usize \<Rightarrow> usize exec" where
  "max_senders buffer = (if buffer \<le> MAX_CAPACITY then Inr (MAX_CAPACITY - buffer) else Inl Panicked)"

function clone_loop :: "usize \<Rightarrow> usize \<Rightarrow> usize \<Rightarrow> usize list \<Rightarrow> usize exec" where
  "clone_loop buffer seen mem env =
     bind_exec (max_senders buffer) (\<lambda>m.
       if seen = m then Inl Panicked
       else if \<not> seen < m then Inl Panicked
       else if mem = seen then Inr (seen + 1)
       else clone_loop buffer mem (next_mem mem env) (tl env))"
  by pat_completeness auto
termination
  by (relation "measure (\<lambda>(b, seen, mem, env). 2 * length env + (if mem = seen then 0 else 1))")
    (auto simp: next_mem_def split: list.splits)

function sender_loop :: "usize \<Rightarrow> usize \<Rightarrow> usize \<Rightarrow> usize list \<Rightarrow> usize exec" where
  "sender_loop buffer seen mem env =
     bind_exec (max_senders buffer) (\<lambda>m.
       if seen = m then Inl Panicked
       else if mem = seen then Inr (seen + 1)
       else sender_loop buffer mem (next_mem mem env) (tl env))"
  by pat_completeness auto
termination
  by (relation "measure (\<lambda>(b, seen, mem, env). 2 * length env + (if mem = seen then 0 else 1))")
    (auto simp: next_mem_def split: list.splits)

declare inc_loop.simps [simp del] inc_force_loop.simps [simp del] dec_loop.simps [simp del]
  close_loop.simps [simp del] clone_loop.simps [simp del] sender_loop.simps [simp del]

section \<open>Sender\<close>

definition sync_tx_connected :: "'e Chan \<Rightarrow> bool" where
  "sync_tx_connected c = is_open (decode_state (i_state c))"

definition signal :: "'e Chan \<Rightarrow> 'e Chan" where
  "signal c =
     (let r = i_recv_task c in
      if rt_unparked r then c
      else c\<lparr>i_recv_task := \<lparr>rt_unparked = True, rt_task = None\<rparr>,
             ch_woken := ch_woken c @ (case rt_task r of None \<Rightarrow> [] | Some t \<Rightarrow> [t])\<rparr>)"

definition queue_push_and_signal :: "'e \<Rightarrow> 'e Chan \<Rightarrow> 'e Chan exec" where
  "queue_push_and_signal msg c =
     bind_exec (queue_push msg (i_message_queue c)) (\<lambda>q. Inr (signal (c\<lparr>i_message_queue := q\<rparr>)))"

definition park :: "task \<Rightarrow> bool \<Rightarrow> SyncAddressSender \<Rightarrow> 'e Chan \<Rightarrow> (SyncAddressSender \<times> 'e Chan) exec" where
  "park cur can_park s c =
     (let task = (if can_park then Some cur else None);
          c1 = c\<lparr>ch_cells := (ch_cells c)(s_cell s := \<lparr>st_task = task, st_is_parked = True\<rparr>)\<rparr>
      in bind_exec (queue_push (s_cell s) (i_parked_queue c1)) (\<lambda>q.
           let c2 = c1\<lparr>i_parked_queue := q\<rparr> in
           Inr (s\<lparr>s_maybe_parked := is_open (decode_state (i_state c2))\<rparr>, c2)))"

definition poll_unparked ::
  "task \<Rightarrow> bool \<Rightarrow> SyncAddressSender \<Rightarrow> 'e Chan \<Rightarrow> unit Async \<times> SyncAddressSender \<times> 'e Chan" where
  "poll_unparked cur do_park s c =
     (if s_maybe_parked s then
        (let task = ch_cells c (s_cell s) in
         if \<not> st_is_parked task then (Ready (), s\<lparr>s_maybe_parked := False\<rparr>, c)
         else (NotReady, s,
               c\<lparr>ch_cells := (ch_cells c)(s_cell s :=
                   task\<lparr>st_task := (if do_park then Some cur else None)\<rparr>)\<rparr>))
      else (Ready (), s, c))"

definition sync_send ::
  "('m \<Rightarrow> 'tx option \<Rightarrow> 'e) \<Rightarrow> task \<Rightarrow> 'tx \<times> 'rx \<Rightarrow> 'm \<Rightarrow> SyncAddressSender \<Rightarrow> 'e Chan \<Rightarrow>
     (('m SendError + 'rx) \<times> SyncAddressSender \<times> 'e Chan) exec" where
  "sync_send pack cur oneshot msg s c =
     (let (a, s1, c1) = poll_unparked cur False s c in
      if \<not> is_ready a then Inr (Inl (Full msg), s1, c1)
      else let (r, c2) = inc_num_messages c1 in
        case r of
          None \<Rightarrow> Inr (Inl (Closed msg), s1, c2)
        | Some park_self \<Rightarrow>
            if park_self then
              bind_exec (park cur True s1 c2) (\<lambda>(s3, c3). Inr (Inl (Full msg), s3, c3))
            else
              (let (tx, rx) = oneshot in
               bind_exec (queue_push_and_signal (pack msg (Some tx)) c2) (\<lambda>c3. Inr (Inr rx, s1, c3))))"

definition sync_try_send ::
  "('m \<Rightarrow> 'tx option \<Rightarrow> 'e) \<Rightarrow> task \<Rightarrow> 'm \<Rightarrow> bool \<Rightarrow> SyncAddressSender \<Rightarrow> 'e Chan \<Rightarrow>
     (('m SendError + unit) \<times> SyncAddressSender \<times> 'e Chan) exec" where
  "sync_try_send pack cur msg do_park s c =
     (let (a, s1, c1) = poll_unparked cur False s c in
      if \<not> is_ready a then Inr (Inl (Full msg), s1, c1)
      else let (r, c2) = inc_num_messages c1 in
        case r of
          None \<Rightarrow> Inr (Inl (Closed msg), s1, c2)
        | Some park_self \<Rightarrow>
            if park_self then
              (if do_park then bind_exec (park cur True s1 c2) (\<lambda>(s3, c3). Inr (Inl (Full msg), s3, c3))
               else Inr (Inl (Full msg), s1, c2))
            else
              bind_exec (queue_push_and_signal (pack msg None) c2) (\<lambda>c3. Inr (Inr (), s1, c3)))"

definition sync_do_send ::
  "('m \<Rightarrow> 'tx option \<Rightarrow> 'e) \<Rightarrow> 'm \<Rightarrow> 'e Chan \<Rightarrow> (('m SendError + unit) \<times> 'e Chan) exec" where
  "sync_do_send pack msg c =
     (let (r, c1) = inc_num_messages_force c in
      case r of
        None \<Rightarrow> Inr (Inl (Closed msg), c1)
      | Some _ \<Rightarrow> bind_exec (queue_push_and_signal (pack msg None) c1) (\<lambda>c2. Inr (Inr (), c2)))"

text \<open>A new sender handle on the channel, with a fresh cell.\<close>

definition new_sender :: "'e Chan \<Rightarrow> SyncAddressSender \<times> 'e Chan" where
  "new_sender c =
     (\<lparr>s_cell = ch_next_cell c, s_maybe_parked = False\<rparr>,
      c\<lparr>ch_cells := (ch_cells c)(ch_next_cell c := sender_task_new), ch_next_cell := Suc (ch_next_cell c)\<rparr>)"

definition sync_clone :: "'e Chan \<Rightarrow> (SyncAddressSender \<times> 'e Chan) exec" where
  "sync_clone c =
     bind_exec (clone_loop (i_buffer c) (i_num_senders c) (i_num_senders c) []) (\<lambda>n.
       Inr (new_sender (c\<lparr>i_num_senders := n\<rparr>)))"

definition sync_tx_drop :: "'e Chan \<Rightarrow> 'e Chan" where
  "sync_tx_drop c =
     (let prev = i_num_senders c; c1 = c\<lparr>i_num_senders := prev - 1\<rparr> in
      if prev = 1 then signal c1 else c1)"

section \<open>Receiver\<close>

definition sync_rx_connected :: "'e Chan \<Rightarrow> bool" where
  "sync_rx_connected c = (i_num_senders c \<noteq> 0)"

fun wake_all :: "nat \<Rightarrow> 'e Chan \<Rightarrow> 'e Chan exec" where
  "wake_all 0 c = Inl OutOfFuel"
| "wake_all (Suc k) c =
     bind_exec (queue_pop (i_parked_queue c)) (\<lambda>(r, q).
       let c' = c\<lparr>i_parked_queue := q\<rparr> in
       case r of
         Data i \<Rightarrow> wake_all k (notify_cell i c')
       | Empty \<Rightarrow> Inr c'
       | Inconsistent \<Rightarrow> wake_all k c')"

definition sync_set_capacity :: "usize \<Rightarrow> 'e Chan \<Rightarrow> 'e Chan exec" where
  "sync_set_capacity cap c =
     (let buffer = i_buffer c; c1 = c\<lparr>i_buffer := cap\<rparr> in
      if cap > buffer then wake_all (q_brk (i_parked_queue c1)) c1 else Inr c1)"

definition sync_sender :: "'e Chan \<Rightarrow> (SyncAddressSender \<times> 'e Chan) exec" where
  "sync_sender c =
     bind_exec (sender_loop (i_buffer c) (i_num_senders c) (i_num_senders c) []) (\<lambda>n.
       Inr (new_sender (c\<lparr>i_num_senders := n\<rparr>)))"

definition next_message :: "'e Chan \<Rightarrow> ('e option Async \<times> 'e Chan) exec" where
  "next_message c =
     bind_exec (pop_wait queue_pop (q_brk (i_message_queue c)) (i_message_queue c)) (\<lambda>(r, q).
       let c' = c\<lparr>i_message_queue := q\<rparr> in
       case r of Some msg \<Rightarrow> Inr (Ready (Some msg), c') | None \<Rightarrow> Inr (NotReady, c'))"

definition unpark_one :: "'e Chan \<Rightarrow> 'e Chan exec" where
  "unpark_one c =
     bind_exec (pop_wait queue_pop (q_brk (i_parked_queue c)) (i_parked_queue c)) (\<lambda>(r, q).
       let c' = c\<lparr>i_parked_queue := q\<rparr> in
       case r of Some i \<Rightarrow> Inr (notify_cell i c') | None \<Rightarrow> Inr c')"

definition try_park :: "task \<Rightarrow> 'e Chan \<Rightarrow> TryPark \<times> 'e Chan" where
  "try_park cur c =
     (if rt_unparked (i_recv_task c) then
        (NotEmpty, c\<lparr>i_recv_task := (i_recv_task c)\<lparr>rt_unparked := False\<rparr>\<rparr>)
      else (Parked, c\<lparr>i_recv_task := (i_recv_task c)\<lparr>rt_task := Some cur\<rparr>\<rparr>))"

text \<open>
  \<^verbatim>\<open>Stream::poll\<close>.  A failed park clears the flag that made it fail, so two turns of the loop
  are enough when no other thread runs.
\<close>

fun sync_poll_loop :: "nat \<Rightarrow> task \<Rightarrow> 'e Chan \<Rightarrow> (('e option, unit) Poll \<times> 'e Chan) exec" where
  "sync_poll_loop 0 cur c = Inl OutOfFuel"
| "sync_poll_loop (Suc k) cur c =
     bind_exec (next_message c) (\<lambda>(m, c1).
       case m of
         NotReady \<Rightarrow>
           (case try_park cur c1 of
              (Parked, c2) \<Rightarrow> Inr (PNotReady, c2)
            | (NotEmpty, c2) \<Rightarrow> sync_poll_loop k cur c2)
       | Ready msg \<Rightarrow>
           bind_exec (unpark_one c1) (\<lambda>c2.
             bind_exec (dec_num_messages c2) (\<lambda>c3. Inr (PReady msg, c3))))"

definition sync_poll :: "task \<Rightarrow> 'e Chan \<Rightarrow> (('e option, unit) Poll \<times> 'e Chan) exec" where
  "sync_poll cur c = sync_poll_loop 2 cur c"

fun drain :: "nat \<Rightarrow> 'e Chan \<Rightarrow> 'e Chan exec" where
  "drain 0 c = Inl OutOfFuel"
| "drain (Suc k) c =
     bind_exec (next_message c) (\<lambda>(m, c1). if is_ready m then drain k c1 else Inr c1)"

definition sync_rx_drop :: "'e Chan \<Rightarrow> 'e Chan exec" where
  "sync_rx_drop c =
     (let c1 = c\<lparr>i_state := close_loop (i_state c) (i_state c) []\<rparr> in
      bind_exec (wake_all (q_brk (i_parked_queue c1)) c1) (\<lambda>c2.
        drain (q_brk (i_message_queue c2)) c2))"

section \<open>The state word\<close>

lemma OPEN_MASK_eq: "OPEN_MASK = 0x8000000000000000"
  by (simp add: OPEN_MASK_def USIZE_MAX_def mask_eq_exp_minus_1)

lemma bit_OPEN_MASK: "bit OPEN_MASK n \<longleftrightarrow> n = 63"
proof -
  have "OPEN_MASK = push_bit 63 1" by (simp add: OPEN_MASK_eq)
  then have "bit OPEN_MASK n \<longleftrightarrow> bit (push_bit 63 (1 :: usize)) n" by simp
  also have "\<dots> \<longleftrightarrow> n = 63" unfolding bit_push_bit_iff bit_1_iff by auto
  finally show ?thesis .
qed

lemma bit_MAX_CAPACITY: "bit MAX_CAPACITY n \<longleftrightarrow> n < 63"
  by (auto simp: MAX_CAPACITY_def bit_simps bit_OPEN_MASK)

lemma MAX_CAPACITY_eq: "MAX_CAPACITY = mask 63"
  by (rule bit_word_eqI) (simp add: bit_MAX_CAPACITY bit_simps)

lemma unat_MAX_CAPACITY: "unat MAX_CAPACITY = 2 ^ 63 - 1"
  by (simp add: MAX_CAPACITY_def OPEN_MASK_eq)

lemma decode_is_open: "is_open (decode_state w) \<longleftrightarrow> bit w 63"
proof -
  have "w AND OPEN_MASK = OPEN_MASK \<longleftrightarrow> (\<forall>n. bit (w AND OPEN_MASK) n \<longleftrightarrow> bit OPEN_MASK n)"
    by (auto intro: bit_eqI)
  then show ?thesis by (auto simp: decode_state_def bit_simps bit_OPEN_MASK)
qed

lemma decode_num: "num_messages (decode_state w) = take_bit 63 w"
  by (simp add: decode_state_def MAX_CAPACITY_eq take_bit_eq_mask)

lemma encode_decode: "encode_state (decode_state w) = w"
proof (rule bit_word_eqI)
  fix n assume "n < LENGTH(64)"
  then have "n < 63 \<or> n = 63" by auto
  then show "bit (encode_state (decode_state w)) n = bit w n"
    by (auto simp: encode_state_def Let_def decode_is_open decode_num bit_simps bit_OPEN_MASK)
qed

lemma le_MAX_CAPACITY_iff: "n \<le> MAX_CAPACITY \<longleftrightarrow> take_bit 63 n = n"
proof -
  have "n \<le> MAX_CAPACITY \<longleftrightarrow> unat n < 2 ^ 63"
    by (simp add: word_le_nat_alt unat_MAX_CAPACITY less_eq_Suc_le)
  also have "\<dots> \<longleftrightarrow> take_bit 63 n = n"
    by (simp add: word_unat_eq_iff unsigned_take_bit_eq take_bit_nat_eq_self_iff)
  finally show ?thesis .
qed

lemma bit_63_small: "n \<le> MAX_CAPACITY \<Longrightarrow> \<not> bit n 63"
  by (metis bit_take_bit_iff le_MAX_CAPACITY_iff less_irrefl)

lemma decode_encode: "num_messages st \<le> MAX_CAPACITY \<Longrightarrow> decode_state (encode_state st) = st"
proof (rule State.equality)
  assume n: "num_messages st \<le> MAX_CAPACITY"
  show "is_open (decode_state (encode_state st)) = is_open st"
    using bit_63_small [OF n]
    by (simp add: decode_is_open encode_state_def Let_def bit_simps bit_OPEN_MASK)
  show "num_messages (decode_state (encode_state st)) = num_messages st"
  proof (rule bit_word_eqI)
    fix k assume "k < LENGTH(64)"
    then have "k < 63 \<or> k = 63" by auto
    then show "bit (num_messages (decode_state (encode_state st))) k = bit (num_messages st) k"
      using bit_63_small [OF n]
      by (auto simp: decode_num encode_state_def Let_def bit_simps bit_OPEN_MASK)
  qed
qed simp

lemma num_messages_bound: "num_messages (decode_state w) \<le> MAX_CAPACITY"
  by (simp add: decode_num le_MAX_CAPACITY_iff)

lemma unat_num_messages: "unat (num_messages (decode_state w)) < 2 ^ 63"
  using num_messages_bound [of w] by (simp add: word_le_nat_alt unat_MAX_CAPACITY)

lemma INIT_STATE_decode: "decode_state INIT_STATE = \<lparr>is_open = True, num_messages = 0\<rparr>"
  by (simp add: decode_state_def INIT_STATE_def MAX_CAPACITY_def)

lemma unat_add_1: "unat (w :: usize) < 2 ^ 63 \<Longrightarrow> unat (w + 1) = unat w + 1"
  by (simp add: unat_word_ariths)

lemma unat_sub_1: "(w :: usize) \<noteq> 0 \<Longrightarrow> unat (w - 1) = unat w - 1"
  by (simp add: unat_minus_one)

section \<open>Well-formed channels\<close>

text \<open>
  \<open>chan_wf c ms ps\<close>: the channel holds the messages \<open>ms\<close>, the cells \<open>ps\<close>
  wait in the parked queue, and while the channel is open the message count of the state word
  is the number of messages.
\<close>

definition chan_open :: "'e Chan \<Rightarrow> bool" where
  "chan_open c \<longleftrightarrow> is_open (decode_state (i_state c))"

definition msg_count :: "'e Chan \<Rightarrow> nat" where
  "msg_count c = unat (num_messages (decode_state (i_state c)))"

definition chan_full :: "'e Chan \<Rightarrow> bool" where
  "chan_full c \<longleftrightarrow> i_buffer c \<noteq> 0 \<and> unat (i_buffer c) \<le> msg_count c"

definition chan_wf :: "'e Chan \<Rightarrow> 'e list \<Rightarrow> nat list \<Rightarrow> bool" where
  "chan_wf c ms ps \<longleftrightarrow>
     queue_rep (i_message_queue c) ms \<and> queue_rep (i_parked_queue c) ps \<and>
     (chan_open c \<longrightarrow> msg_count c = length ms)"

definition sender_blocked :: "SyncAddressSender \<Rightarrow> 'e Chan \<Rightarrow> bool" where
  "sender_blocked s c \<longleftrightarrow> s_maybe_parked s \<and> st_is_parked (ch_cells c (s_cell s))"

lemma chan_wfD:
  "chan_wf c ms ps \<Longrightarrow> queue_rep (i_message_queue c) ms"
  "chan_wf c ms ps \<Longrightarrow> queue_rep (i_parked_queue c) ps"
  "chan_wf c ms ps \<Longrightarrow> chan_open c \<Longrightarrow> msg_count c = length ms"
  by (auto simp: chan_wf_def)

text \<open>The state-word operations in terms of the decoded state.\<close>

lemma decode_bump:
  "num_messages (decode_state w) + 1 \<le> MAX_CAPACITY \<Longrightarrow>
   decode_state (encode_state ((decode_state w)\<lparr>num_messages := num_messages (decode_state w) + 1\<rparr>))
   = (decode_state w)\<lparr>num_messages := num_messages (decode_state w) + 1\<rparr>"
  by (rule decode_encode) simp

lemma bump_le: "msg_count c + 1 < 2 ^ 63 \<Longrightarrow> num_messages (decode_state (i_state c)) + 1 \<le> MAX_CAPACITY"
  by (simp add: msg_count_def word_le_nat_alt unat_MAX_CAPACITY unat_add_1)

lemma inc_num_messages_closed: "\<not> chan_open c \<Longrightarrow> inc_num_messages c = (None, c)"
  by (simp add: inc_num_messages_def inc_loop.simps [of _ "i_state c" "i_state c"] chan_open_def)

lemma inc_num_messages_full: "chan_open c \<Longrightarrow> chan_full c \<Longrightarrow> inc_num_messages c = (Some True, c)"
  by (simp add: inc_num_messages_def inc_loop.simps [of _ "i_state c" "i_state c"] chan_open_def
      chan_full_def msg_count_def word_le_nat_alt)

lemma inc_num_messages_room:
  assumes "chan_open c" and "\<not> chan_full c" and "msg_count c + 1 < 2 ^ 63"
  shows "\<exists>st. inc_num_messages c = (Some False, c\<lparr>i_state := st\<rparr>) \<and>
    chan_open (c\<lparr>i_state := st\<rparr>) \<and> msg_count (c\<lparr>i_state := st\<rparr>) = msg_count c + 1"
proof -
  let ?d = "decode_state (i_state c)"
  let ?st = "encode_state (?d\<lparr>num_messages := num_messages ?d + 1\<rparr>)"
  have "inc_num_messages c = (Some False, c\<lparr>i_state := ?st\<rparr>)"
    using assms by (auto simp: inc_num_messages_def inc_loop.simps [of _ "i_state c" "i_state c"]
      chan_open_def chan_full_def msg_count_def word_le_nat_alt Let_def)
  moreover have "decode_state ?st = ?d\<lparr>num_messages := num_messages ?d + 1\<rparr>"
    by (rule decode_bump) (rule bump_le [OF assms(3)])
  ultimately show ?thesis
    using assms by (auto simp: chan_open_def msg_count_def unat_add_1)
qed

lemma inc_num_messages_force_closed: "\<not> chan_open c \<Longrightarrow> inc_num_messages_force c = (None, c)"
  by (simp add: inc_num_messages_force_def inc_force_loop.simps [of _ "i_state c" "i_state c"] chan_open_def)

lemma inc_num_messages_force_open:
  assumes "chan_open c" and "msg_count c + 1 < 2 ^ 63"
  shows "\<exists>b st. inc_num_messages_force c = (Some b, c\<lparr>i_state := st\<rparr>) \<and>
    chan_open (c\<lparr>i_state := st\<rparr>) \<and> msg_count (c\<lparr>i_state := st\<rparr>) = msg_count c + 1"
proof -
  let ?d = "decode_state (i_state c)"
  let ?st = "encode_state (?d\<lparr>num_messages := num_messages ?d + 1\<rparr>)"
  obtain b where b: "inc_num_messages_force c = (Some b, c\<lparr>i_state := ?st\<rparr>)"
    using assms by (auto simp: inc_num_messages_force_def
      inc_force_loop.simps [of _ "i_state c" "i_state c"] chan_open_def Let_def)
  have d: "decode_state ?st = ?d\<lparr>num_messages := num_messages ?d + 1\<rparr>"
    by (rule decode_bump) (rule bump_le [OF assms(2)])
  show ?thesis
    by (intro exI [of _ b] exI [of _ ?st])
      (use b d assms in \<open>simp add: chan_open_def msg_count_def unat_add_1\<close>)
qed

lemma dec_num_messages_ok:
  assumes "0 < msg_count c"
  shows "\<exists>st. dec_num_messages c = Inr (c\<lparr>i_state := st\<rparr>) \<and>
    (chan_open (c\<lparr>i_state := st\<rparr>) \<longleftrightarrow> chan_open c) \<and> msg_count (c\<lparr>i_state := st\<rparr>) = msg_count c - 1"
proof -
  let ?d = "decode_state (i_state c)"
  let ?st = "encode_state (?d\<lparr>num_messages := num_messages ?d - 1\<rparr>)"
  have nz: "num_messages ?d \<noteq> 0" using assms by (auto simp: msg_count_def)
  have "dec_num_messages c = Inr (c\<lparr>i_state := ?st\<rparr>)"
    using nz by (simp add: dec_num_messages_def dec_loop.simps [of "i_state c" "i_state c"] Let_def)
  moreover have "num_messages ?d - 1 \<le> MAX_CAPACITY"
    using num_messages_bound [of "i_state c"] by (simp add: word_le_nat_alt unat_sub_1 [OF nz])
  then have "decode_state ?st = ?d\<lparr>num_messages := num_messages ?d - 1\<rparr>"
    by (intro decode_encode) simp
  ultimately show ?thesis
    by (auto simp: chan_open_def msg_count_def unat_sub_1 [OF nz])
qed


text \<open>Effects on the fields.\<close>

lemma signal_fields [simp, chan_simps]:
  "i_buffer (signal c) = i_buffer c" "i_state (signal c) = i_state c"
  "i_message_queue (signal c) = i_message_queue c" "i_parked_queue (signal c) = i_parked_queue c"
  "i_num_senders (signal c) = i_num_senders c" "ch_cells (signal c) = ch_cells c"
  "ch_next_cell (signal c) = ch_next_cell c" "rt_unparked (i_recv_task (signal c))"
  by (auto simp: signal_def Let_def)

lemma notify_cell_fields [simp, chan_simps]:
  "i_buffer (notify_cell i c) = i_buffer c" "i_state (notify_cell i c) = i_state c"
  "i_message_queue (notify_cell i c) = i_message_queue c"
  "i_parked_queue (notify_cell i c) = i_parked_queue c"
  "i_num_senders (notify_cell i c) = i_num_senders c" "i_recv_task (notify_cell i c) = i_recv_task c"
  "ch_next_cell (notify_cell i c) = ch_next_cell c"
  "\<not> st_is_parked (ch_cells (notify_cell i c) i)"
  "j \<noteq> i \<Longrightarrow> ch_cells (notify_cell i c) j = ch_cells c j"
  by (auto simp: notify_cell_def Let_def)

lemma chan_simps_state [simp]:
  "chan_open (signal c) = chan_open c" "msg_count (signal c) = msg_count c"
  "chan_open (notify_cell i c) = chan_open c" "msg_count (notify_cell i c) = msg_count c"
  "chan_open (c\<lparr>i_message_queue := q\<rparr>) = chan_open c" "msg_count (c\<lparr>i_message_queue := q\<rparr>) = msg_count c"
  "chan_open (c\<lparr>i_parked_queue := p\<rparr>) = chan_open c" "msg_count (c\<lparr>i_parked_queue := p\<rparr>) = msg_count c"
  "chan_open (c\<lparr>ch_cells := f\<rparr>) = chan_open c" "msg_count (c\<lparr>ch_cells := f\<rparr>) = msg_count c"
  "chan_open (c\<lparr>i_recv_task := r\<rparr>) = chan_open c" "msg_count (c\<lparr>i_recv_task := r\<rparr>) = msg_count c"
  "chan_open (c\<lparr>i_buffer := b\<rparr>) = chan_open c" "msg_count (c\<lparr>i_buffer := b\<rparr>) = msg_count c"
  by (auto simp: chan_open_def msg_count_def)

lemma signal_woken:
  "ch_woken (signal c) =
     ch_woken c @ (if rt_unparked (i_recv_task c) then []
       else case rt_task (i_recv_task c) of None \<Rightarrow> [] | Some t \<Rightarrow> [t])"
  by (simp add: signal_def Let_def)

lemma queue_push_and_signal_ok:
  assumes "queue_rep (i_message_queue c) ms"
  shows "\<exists>q. queue_push_and_signal e c = Inr (signal (c\<lparr>i_message_queue := q\<rparr>)) \<and> queue_rep q (ms @ [e])"
  using mq.push_rep [OF assms, of e] by (auto simp: queue_push_and_signal_def)

lemma park_ok:
  assumes "queue_rep (i_parked_queue c) ps"
  shows "\<exists>q. park cur b s c = Inr (s\<lparr>s_maybe_parked := chan_open c\<rparr>,
      c\<lparr>ch_cells := (ch_cells c)(s_cell s := \<lparr>st_task = (if b then Some cur else None), st_is_parked = True\<rparr>),
        i_parked_queue := q\<rparr>) \<and> queue_rep q (ps @ [s_cell s])"
  using mq.push_rep [OF assms, of "s_cell s"] by (auto simp: park_def Let_def chan_open_def)

lemma poll_unparked_blocked:
  "sender_blocked s c \<Longrightarrow> poll_unparked cur b s c =
     (NotReady, s, c\<lparr>ch_cells := (ch_cells c)(s_cell s :=
        (ch_cells c (s_cell s))\<lparr>st_task := (if b then Some cur else None)\<rparr>)\<rparr>)"
  by (simp add: poll_unparked_def sender_blocked_def Let_def)

lemma poll_unparked_free:
  "\<not> sender_blocked s c \<Longrightarrow> poll_unparked cur b s c = (Ready (), s\<lparr>s_maybe_parked := False\<rparr>, c)"
  by (cases s) (auto simp: poll_unparked_def sender_blocked_def Let_def)

lemma next_message_empty: "queue_rep (i_message_queue c) [] \<Longrightarrow> next_message c = Inr (NotReady, c)"
  by (simp add: next_message_def mq.pop_wait_empty)

lemma next_message_data:
  "queue_rep (i_message_queue c) (m # ms) \<Longrightarrow>
   \<exists>q. next_message c = Inr (Ready (Some m), c\<lparr>i_message_queue := q\<rparr>) \<and> queue_rep q ms"
  using mq.pop_wait_data by (fastforce simp: next_message_def)

lemma unpark_one_empty: "queue_rep (i_parked_queue c) [] \<Longrightarrow> unpark_one c = Inr c"
  by (simp add: unpark_one_def mq.pop_wait_empty)

lemma unpark_one_data:
  "queue_rep (i_parked_queue c) (p # ps) \<Longrightarrow>
   \<exists>q. unpark_one c = Inr (notify_cell p (c\<lparr>i_parked_queue := q\<rparr>)) \<and> queue_rep q ps"
  using mq.pop_wait_data by (fastforce simp: unpark_one_def)

lemma notify_cell_parked:
  "notify_cell i (c\<lparr>i_parked_queue := q\<rparr>) = (notify_cell i c)\<lparr>i_parked_queue := q\<rparr>"
  by (simp add: notify_cell_def Let_def)

lemma fold_notify_parked:
  "fold notify_cell ps (c\<lparr>i_parked_queue := q\<rparr>) = (fold notify_cell ps c)\<lparr>i_parked_queue := q\<rparr>"
  by (induction ps arbitrary: c) (auto simp: notify_cell_parked)

lemma notify_keeps_unparked:
  "\<not> st_is_parked (ch_cells c i) \<Longrightarrow> \<not> st_is_parked (ch_cells (fold notify_cell ps c) i)"
proof (induction ps arbitrary: c)
  case (Cons p ps)
  then show ?case by (cases "p = i") auto
qed simp

lemma wake_all_fuel:
  "queue_rep (i_parked_queue c) ps \<Longrightarrow> length ps < k \<Longrightarrow>
   \<exists>q. wake_all k c = Inr ((fold notify_cell ps c)\<lparr>i_parked_queue := q\<rparr>) \<and> queue_rep q []"
proof (induction ps arbitrary: c k)
  case Nil
  then show ?case by (cases k) (auto simp: mq.pop_empty intro!: exI [of _ "i_parked_queue c"])
next
  case (Cons p ps)
  then obtain k' where k: "k = Suc k'" "length ps < k'" by (cases k) auto
  obtain q where q: "queue_pop (i_parked_queue c) = Inr (Data p, q)" "queue_rep q ps"
    using mq.pop_data [OF Cons.prems(1)] by blast
  let ?c = "notify_cell p (c\<lparr>i_parked_queue := q\<rparr>)"
  obtain q' where q': "wake_all k' ?c = Inr ((fold notify_cell ps ?c)\<lparr>i_parked_queue := q'\<rparr>)" "queue_rep q' []"
    using Cons.IH [of ?c k'] q k by auto
  show ?case using q q' k by (auto simp: notify_cell_parked fold_notify_parked)
qed

lemma fold_notify_fields [simp]:
  "i_buffer (fold notify_cell ps c) = i_buffer c" "i_state (fold notify_cell ps c) = i_state c"
  "i_message_queue (fold notify_cell ps c) = i_message_queue c"
  "i_num_senders (fold notify_cell ps c) = i_num_senders c"
  "i_recv_task (fold notify_cell ps c) = i_recv_task c"
  by (induction ps arbitrary: c) auto

lemma fold_notify_unparked:
  "i \<in> set ps \<Longrightarrow> \<not> st_is_parked (ch_cells (fold notify_cell ps c) i)"
proof (induction ps arbitrary: c)
  case (Cons p ps)
  show ?case
    using Cons notify_keeps_unparked [of "notify_cell p c" p ps] by auto
qed simp

lemma drain_fuel:
  "queue_rep (i_message_queue c) ms \<Longrightarrow> length ms < k \<Longrightarrow>
   \<exists>q. drain k c = Inr (c\<lparr>i_message_queue := q\<rparr>) \<and> queue_rep q []"
proof (induction ms arbitrary: c k)
  case Nil
  then show ?case
    by (cases k) (auto simp: next_message_empty intro!: exI [of _ "i_message_queue c"])
next
  case (Cons m ms)
  then obtain k' where k: "k = Suc k'" "length ms < k'" by (cases k) auto
  obtain q where q: "next_message c = Inr (Ready (Some m), c\<lparr>i_message_queue := q\<rparr>)" "queue_rep q ms"
    using next_message_data [OF Cons.prems(1)] by blast
  then obtain q' where "drain k' (c\<lparr>i_message_queue := q\<rparr>) = Inr (c\<lparr>i_message_queue := q'\<rparr>)" "queue_rep q' []"
    using Cons.IH [of "c\<lparr>i_message_queue := q\<rparr>" k'] k by auto
  then show ?case using q k by auto
qed

section \<open>The operations on a well-formed channel\<close>

definition recv_wakeup :: "'e Chan \<Rightarrow> task list" where
  "recv_wakeup c =
     (if rt_unparked (i_recv_task c) then []
      else case rt_task (i_recv_task c) of None \<Rightarrow> [] | Some t \<Rightarrow> [t])"

lemma chan_wf_push:
  assumes "chan_wf c ms ps" and "chan_open c" and "length ms + 1 < 2 ^ 63"
    and "chan_open (c\<lparr>i_state := st\<rparr>)"
    and "msg_count (c\<lparr>i_state := st\<rparr>) = msg_count c + 1"
  shows "\<exists>c'. queue_push_and_signal e (c\<lparr>i_state := st\<rparr>) = Inr c' \<and> chan_wf c' (ms @ [e]) ps \<and>
    chan_open c' \<and> i_buffer c' = i_buffer c \<and> rt_unparked (i_recv_task c') \<and> ch_cells c' = ch_cells c \<and>
    ch_woken c' = ch_woken c @ recv_wakeup c"
proof -
  obtain q where q: "queue_push_and_signal e (c\<lparr>i_state := st\<rparr>)
      = Inr (signal (c\<lparr>i_state := st, i_message_queue := q\<rparr>))" "queue_rep q (ms @ [e])"
    using queue_push_and_signal_ok [of "c\<lparr>i_state := st\<rparr>" ms e] chan_wfD(1) [OF assms(1)] by auto
  then show ?thesis
    using assms by (auto simp: chan_wf_def signal_woken recv_wakeup_def)
qed

lemma inc_wf:
  assumes "chan_wf c ms ps" and "chan_open c" and "\<not> chan_full c" and "length ms + 1 < 2 ^ 63"
  shows "\<exists>c1. inc_num_messages c = (Some False, c1) \<and>
    (\<exists>c'. queue_push_and_signal e c1 = Inr c' \<and> chan_wf c' (ms @ [e]) ps \<and>
      chan_open c' \<and> i_buffer c' = i_buffer c \<and> rt_unparked (i_recv_task c') \<and> ch_cells c' = ch_cells c \<and>
      ch_woken c' = ch_woken c @ recv_wakeup c)"
proof -
  have "msg_count c + 1 < 2 ^ 63" using chan_wfD(3) [OF assms(1,2)] assms by simp
  then obtain st where st: "inc_num_messages c = (Some False, c\<lparr>i_state := st\<rparr>)"
    "chan_open (c\<lparr>i_state := st\<rparr>)" "msg_count (c\<lparr>i_state := st\<rparr>) = msg_count c + 1"
    using inc_num_messages_room assms by blast
  then show ?thesis using chan_wf_push [OF assms(1,2,4) st(2,3)] by blast
qed

lemma inc_force_wf:
  assumes "chan_wf c ms ps" and "chan_open c" and "length ms + 1 < 2 ^ 63"
  shows "\<exists>b c1. inc_num_messages_force c = (Some b, c1) \<and>
    (\<exists>c'. queue_push_and_signal e c1 = Inr c' \<and> chan_wf c' (ms @ [e]) ps \<and>
      chan_open c' \<and> i_buffer c' = i_buffer c \<and> rt_unparked (i_recv_task c') \<and> ch_cells c' = ch_cells c \<and>
      ch_woken c' = ch_woken c @ recv_wakeup c)"
proof -
  have "msg_count c + 1 < 2 ^ 63" using chan_wfD(3) [OF assms(1,2)] assms by simp
  then obtain b st where st: "inc_num_messages_force c = (Some b, c\<lparr>i_state := st\<rparr>)"
    "chan_open (c\<lparr>i_state := st\<rparr>)" "msg_count (c\<lparr>i_state := st\<rparr>) = msg_count c + 1"
    using inc_num_messages_force_open assms by blast
  then show ?thesis using chan_wf_push [OF assms st(2,3)] by blast
qed

lemma park_wf:
  assumes "chan_wf c ms ps"
  shows "\<exists>c'. park cur b s c = Inr (s\<lparr>s_maybe_parked := chan_open c\<rparr>, c') \<and>
    chan_wf c' ms (ps @ [s_cell s]) \<and> (chan_open c' \<longleftrightarrow> chan_open c) \<and> i_buffer c' = i_buffer c \<and>
    ch_cells c' = (ch_cells c)(s_cell s := \<lparr>st_task = (if b then Some cur else None), st_is_parked = True\<rparr>) \<and>
    ch_woken c' = ch_woken c \<and> i_recv_task c' = i_recv_task c"
proof -
  obtain q where "park cur b s c = Inr (s\<lparr>s_maybe_parked := chan_open c\<rparr>,
      c\<lparr>ch_cells := (ch_cells c)(s_cell s := \<lparr>st_task = (if b then Some cur else None), st_is_parked = True\<rparr>),
        i_parked_queue := q\<rparr>)" "queue_rep q (ps @ [s_cell s])"
    using park_ok [OF chan_wfD(2) [OF assms]] by blast
  then show ?thesis using assms by (auto simp: chan_wf_def)
qed

text \<open>A sender that is still parked is turned away; its registered task is erased.\<close>

lemma sync_send_blocked:
  "sender_blocked s c \<Longrightarrow> sync_send pack cur ch msg s c = Inr (Inl (Full msg), s,
     c\<lparr>ch_cells := (ch_cells c)(s_cell s := (ch_cells c (s_cell s))\<lparr>st_task := None\<rparr>)\<rparr>)"
  by (simp add: sync_send_def poll_unparked_blocked)

lemma sync_send_closed:
  "\<not> sender_blocked s c \<Longrightarrow> \<not> chan_open c \<Longrightarrow>
   sync_send pack cur ch msg s c = Inr (Inl (Closed msg), s\<lparr>s_maybe_parked := False\<rparr>, c)"
  by (simp add: sync_send_def poll_unparked_free inc_num_messages_closed)

lemma sync_send_full:
  assumes "chan_wf c ms ps" and "\<not> sender_blocked s c" and "chan_open c" and "chan_full c"
  shows "\<exists>c'. sync_send pack cur ch msg s c = Inr (Inl (Full msg), s\<lparr>s_maybe_parked := True\<rparr>, c') \<and>
    chan_wf c' ms (ps @ [s_cell s]) \<and> chan_open c' \<and> i_buffer c' = i_buffer c \<and>
    ch_cells c' = (ch_cells c)(s_cell s := \<lparr>st_task = Some cur, st_is_parked = True\<rparr>) \<and>
    ch_woken c' = ch_woken c \<and> i_recv_task c' = i_recv_task c"
  using park_wf [OF assms(1), of cur True "s\<lparr>s_maybe_parked := False\<rparr>"] assms(2-)
  by (auto simp: sync_send_def poll_unparked_free inc_num_messages_full)

lemma sync_send_room:
  assumes "chan_wf c ms ps" and "\<not> sender_blocked s c" and "chan_open c" and "\<not> chan_full c"
    and "length ms + 1 < 2 ^ 63"
  shows "\<exists>c'. sync_send pack cur (tx, rx) msg s c = Inr (Inr rx, s\<lparr>s_maybe_parked := False\<rparr>, c') \<and>
    chan_wf c' (ms @ [pack msg (Some tx)]) ps \<and> chan_open c' \<and> i_buffer c' = i_buffer c \<and>
    rt_unparked (i_recv_task c') \<and> ch_cells c' = ch_cells c \<and> ch_woken c' = ch_woken c @ recv_wakeup c"
  using inc_wf [OF assms(1,3,4,5), of "pack msg (Some tx)"] assms(2)
  by (auto simp: sync_send_def poll_unparked_free)

lemma sync_try_send_room:
  assumes "chan_wf c ms ps" and "\<not> sender_blocked s c" and "chan_open c" and "\<not> chan_full c"
    and "length ms + 1 < 2 ^ 63"
  shows "\<exists>c'. sync_try_send pack cur msg b s c = Inr (Inr (), s\<lparr>s_maybe_parked := False\<rparr>, c') \<and>
    chan_wf c' (ms @ [pack msg None]) ps \<and> chan_open c' \<and> i_buffer c' = i_buffer c \<and>
    rt_unparked (i_recv_task c') \<and> ch_cells c' = ch_cells c \<and> ch_woken c' = ch_woken c @ recv_wakeup c"
  using inc_wf [OF assms(1,3,4,5), of "pack msg None"] assms(2)
  by (auto simp: sync_try_send_def poll_unparked_free)

lemma sync_try_send_full_nopark:
  assumes "\<not> sender_blocked s c" and "chan_open c" and "chan_full c"
  shows "sync_try_send pack cur msg False s c = Inr (Inl (Full msg), s\<lparr>s_maybe_parked := False\<rparr>, c)"
  using assms by (auto simp: sync_try_send_def poll_unparked_free inc_num_messages_full)

lemma sync_do_send_open:
  assumes "chan_wf c ms ps" and "chan_open c" and "length ms + 1 < 2 ^ 63"
  shows "\<exists>c'. sync_do_send pack msg c = Inr (Inr (), c') \<and>
    chan_wf c' (ms @ [pack msg None]) ps \<and> chan_open c' \<and> i_buffer c' = i_buffer c \<and>
    rt_unparked (i_recv_task c') \<and> ch_cells c' = ch_cells c \<and> ch_woken c' = ch_woken c @ recv_wakeup c"
  using inc_force_wf [OF assms, of "pack msg None"] by (auto simp: sync_do_send_def)

lemma sync_do_send_closed: "\<not> chan_open c \<Longrightarrow> sync_do_send pack msg c = Inr (Inl (Closed msg), c)"
  by (simp add: sync_do_send_def inc_num_messages_force_closed)

text \<open>Receiving.\<close>

lemma notify_cell_woken:
  "ch_woken (notify_cell i c) =
     ch_woken c @ (case st_task (ch_cells c i) of None \<Rightarrow> [] | Some t \<Rightarrow> [t])"
  by (simp add: notify_cell_def Let_def)

lemma sync_poll_empty:
  assumes "chan_wf c [] ps"
  shows "sync_poll cur c = Inr (PNotReady,
    c\<lparr>i_recv_task := \<lparr>rt_unparked = False, rt_task = Some cur\<rparr>\<rparr>)"
proof -
  have nm: "next_message c = Inr (NotReady, c)"
    by (rule next_message_empty) (simp add: chan_wfD(1) [OF assms])
  have nm': "next_message (c\<lparr>i_recv_task := r\<rparr>) = Inr (NotReady, c\<lparr>i_recv_task := r\<rparr>)" for r
    by (rule next_message_empty) (simp add: chan_wfD(1) [OF assms])
  show ?thesis
    by (cases "i_recv_task c")
      (auto simp: sync_poll_def eval_nat_numeral nm nm' try_park_def)
qed

lemma sync_poll_data:
  assumes wf: "chan_wf c (m # ms) ps" and op: "chan_open c"
  shows "\<exists>c'. sync_poll cur c = Inr (PReady (Some m), c') \<and> chan_wf c' ms (tl ps) \<and> chan_open c' \<and>
    i_buffer c' = i_buffer c \<and> i_recv_task c' = i_recv_task c \<and>
    (ps \<noteq> [] \<longrightarrow> \<not> st_is_parked (ch_cells c' (hd ps))) \<and>
    ch_woken c' = ch_woken c @
      (case ps of [] \<Rightarrow> [] | p # _ \<Rightarrow> (case st_task (ch_cells c p) of None \<Rightarrow> [] | Some t \<Rightarrow> [t]))"
proof -
  obtain q where q: "next_message c = Inr (Ready (Some m), c\<lparr>i_message_queue := q\<rparr>)" "queue_rep q ms"
    using next_message_data [OF chan_wfD(1) [OF wf]] by blast
  let ?c1 = "c\<lparr>i_message_queue := q\<rparr>"
  obtain c2 where c2: "unpark_one ?c1 = Inr c2" "queue_rep (i_parked_queue c2) (tl ps)"
    "chan_open c2" "msg_count c2 = msg_count c" "i_buffer c2 = i_buffer c" "i_recv_task c2 = i_recv_task c"
    "i_message_queue c2 = q" "ps \<noteq> [] \<longrightarrow> \<not> st_is_parked (ch_cells c2 (hd ps))"
    "ch_woken c2 = ch_woken c @
      (case ps of [] \<Rightarrow> [] | p # _ \<Rightarrow> (case st_task (ch_cells c p) of None \<Rightarrow> [] | Some t \<Rightarrow> [t]))"
  proof (cases ps)
    case Nil
    then show ?thesis using that [of ?c1] chan_wfD(2) [OF wf] q(2) op unpark_one_empty [of ?c1] by auto
  next
    case (Cons p ps')
    then obtain q' where "unpark_one ?c1 = Inr (notify_cell p (?c1\<lparr>i_parked_queue := q'\<rparr>))" "queue_rep q' ps'"
      using unpark_one_data [of ?c1 p ps'] chan_wfD(2) [OF wf] by auto
    then show ?thesis
      using that [of "notify_cell p (?c1\<lparr>i_parked_queue := q'\<rparr>)"] Cons op
      by (auto simp: notify_cell_woken)
  qed
  have "0 < msg_count c2" using chan_wfD(3) [OF wf op] c2 by simp
  then obtain st where st: "dec_num_messages c2 = Inr (c2\<lparr>i_state := st\<rparr>)"
    "chan_open (c2\<lparr>i_state := st\<rparr>) \<longleftrightarrow> chan_open c2" "msg_count (c2\<lparr>i_state := st\<rparr>) = msg_count c2 - 1"
    using dec_num_messages_ok by blast
  have "sync_poll cur c = Inr (PReady (Some m), c2\<lparr>i_state := st\<rparr>)"
    using q c2 st by (simp add: sync_poll_def eval_nat_numeral)
  then show ?thesis
    using c2 st q wf op by (auto simp: chan_wf_def)
qed

lemma sync_set_capacity_grow:
  assumes "chan_wf c ms ps" and "i_buffer c < cap"
  shows "\<exists>c'. sync_set_capacity cap c = Inr c' \<and> chan_wf c' ms [] \<and> i_buffer c' = cap \<and>
    (chan_open c' \<longleftrightarrow> chan_open c) \<and> (\<forall>i \<in> set ps. \<not> st_is_parked (ch_cells c' i))"
proof -
  let ?c1 = "c\<lparr>i_buffer := cap\<rparr>"
  obtain q where q: "wake_all (q_brk (i_parked_queue ?c1)) ?c1
      = Inr ((fold notify_cell ps ?c1)\<lparr>i_parked_queue := q\<rparr>)" "queue_rep q []"
    using wake_all_fuel [of ?c1 ps] mq.rep_bound [OF chan_wfD(2) [OF assms(1)]] chan_wfD(2) [OF assms(1)] by auto
  have st: "i_state (fold notify_cell ps ?c1) = i_state c" by simp
  show ?thesis
    using q assms fold_notify_unparked [of _ ps ?c1] st
    by (auto simp: sync_set_capacity_def chan_wf_def chan_open_def msg_count_def)
qed

lemma close_decode:
  "\<not> is_open (decode_state (close_loop w w []))"
proof (cases "is_open (decode_state w)")
  case True
  have "decode_state (encode_state ((decode_state w)\<lparr>is_open := False\<rparr>)) = (decode_state w)\<lparr>is_open := False\<rparr>"
    by (rule decode_encode) (simp add: num_messages_bound)
  then show ?thesis using True by (simp add: close_loop.simps [of w w] Let_def)
next
  case False
  then show ?thesis by (simp add: close_loop.simps [of w w])
qed

lemma sync_rx_drop_ok:
  assumes "chan_wf c ms ps"
  shows "\<exists>c'. sync_rx_drop c = Inr c' \<and> \<not> chan_open c' \<and> chan_wf c' [] [] \<and>
    (\<forall>i \<in> set ps. \<not> st_is_parked (ch_cells c' i))"
proof -
  let ?c1 = "c\<lparr>i_state := close_loop (i_state c) (i_state c) []\<rparr>"
  obtain q where q: "wake_all (q_brk (i_parked_queue ?c1)) ?c1
      = Inr ((fold notify_cell ps ?c1)\<lparr>i_parked_queue := q\<rparr>)" "queue_rep q []"
    using wake_all_fuel [of ?c1 ps] mq.rep_bound [OF chan_wfD(2) [OF assms(1)]] chan_wfD(2) [OF assms(1)] by auto
  let ?c2 = "(fold notify_cell ps ?c1)\<lparr>i_parked_queue := q\<rparr>"
  obtain q' where q': "drain (q_brk (i_message_queue ?c2)) ?c2 = Inr (?c2\<lparr>i_message_queue := q'\<rparr>)" "queue_rep q' []"
    using drain_fuel [of ?c2 ms] mq.rep_bound [OF chan_wfD(1) [OF assms(1)]] chan_wfD(1) [OF assms(1)] by auto
  show ?thesis
    using q q' close_decode fold_notify_unparked [of _ ps ?c1]
    by (auto simp: sync_rx_drop_def chan_wf_def chan_open_def)
qed

section \<open>Read-modify-write loops under interference\<close>

text \<open>The effect of the increment as one atomic step on the value \<open>v\<close>.\<close>

definition inc_atomic :: "usize \<Rightarrow> usize \<Rightarrow> bool option \<times> usize" where
  "inc_atomic buffer v =
     (let st = decode_state v in
      if \<not> is_open st then (None, v)
      else if buffer \<noteq> 0 \<and> num_messages st \<ge> buffer then (Some True, v)
      else (Some False, encode_state (st\<lparr>num_messages := num_messages st + 1\<rparr>)))"

lemma next_mem_in: "next_mem mem env \<in> set (mem # env)"
  by (auto simp: next_mem_def split: list.splits)

lemma inc_loop_linearizable:
  "\<exists>v \<in> set (seen # mem # env). fst (inc_loop buffer seen mem env) = fst (inc_atomic buffer v) \<and>
     (fst (inc_loop buffer seen mem env) = Some False \<longrightarrow>
        v \<in> set (mem # env) \<and> snd (inc_loop buffer seen mem env) = snd (inc_atomic buffer v)) \<and>
     (fst (inc_loop buffer seen mem env) \<noteq> Some False \<longrightarrow> snd (inc_loop buffer seen mem env) \<in> set (mem # env))"
proof (induction buffer seen mem env rule: inc_loop.induct)
  case (1 buffer seen mem env)
  show ?case
  proof (cases "fst (inc_atomic buffer seen) = Some False \<and> mem \<noteq> seen")
    case False
    then show ?thesis
      by (intro bexI [of _ seen])
        (auto simp: inc_loop.simps [of buffer seen mem env] inc_atomic_def Let_def)
  next
    case True
    let ?r = "inc_loop buffer mem (next_mem mem env) (tl env)"
    have eq: "inc_loop buffer seen mem env = ?r"
      using True by (auto simp: inc_loop.simps [of buffer seen mem env] inc_atomic_def Let_def split: if_splits)
    have sub: "set (next_mem mem env # tl env) \<subseteq> set (mem # env)"
      using next_mem_in [of mem env] by (cases env) auto
    have "\<exists>v \<in> set (mem # next_mem mem env # tl env). fst ?r = fst (inc_atomic buffer v) \<and>
      (fst ?r = Some False \<longrightarrow> v \<in> set (next_mem mem env # tl env) \<and> snd ?r = snd (inc_atomic buffer v)) \<and>
      (fst ?r \<noteq> Some False \<longrightarrow> snd ?r \<in> set (next_mem mem env # tl env))"
      by (rule "1.IH" [OF refl _ _ refl])
        (use True in \<open>auto simp: inc_atomic_def Let_def split: if_splits\<close>)
    then obtain v where v: "v \<in> set (mem # next_mem mem env # tl env)" "fst ?r = fst (inc_atomic buffer v)"
      "fst ?r = Some False \<longrightarrow> v \<in> set (next_mem mem env # tl env) \<and> snd ?r = snd (inc_atomic buffer v)"
      "fst ?r \<noteq> Some False \<longrightarrow> snd ?r \<in> set (next_mem mem env # tl env)"
      by blast
    have "v \<in> set (seen # mem # env)" using v(1) sub by auto
    then show ?thesis unfolding eq using v sub by (intro bexI [of _ v]) auto
  qed
qed

lemma inc_atomic_bounded:
  assumes "inc_atomic buffer v = (Some False, w)" and "buffer \<noteq> 0" and "buffer \<le> MAX_CAPACITY"
  shows "num_messages (decode_state w) \<le> buffer"
proof -
  let ?n = "num_messages (decode_state v)"
  have lt: "?n < buffer" and w: "w = encode_state ((decode_state v)\<lparr>num_messages := ?n + 1\<rparr>)"
    using assms by (auto simp: inc_atomic_def Let_def not_le split: if_splits)
  have le: "?n + 1 \<le> buffer" using lt by (metis inc_le)
  then have "decode_state w = (decode_state v)\<lparr>num_messages := ?n + 1\<rparr>"
    unfolding w by (intro decode_encode) (use assms(3) in auto)
  then show ?thesis using le by simp
qed

section \<open>The channel satisfies the channel contract\<close>

text \<open>
  One sender that never parks and the receiver: conditional send is \<^verbatim>\<open>try_send\<close>
  without parking, as \<^verbatim>\<open>Addr::try_send\<close> uses it, unconditional send is \<^verbatim>\<open>do_send\<close>.
\<close>

definition sync_offer :: "'e \<Rightarrow> SyncAddressSender \<times> 'e Chan \<Rightarrow> bool \<times> SyncAddressSender \<times> 'e Chan" where
  "sync_offer e sc =
     (case sync_try_send (\<lambda>m (_ :: unit option). m) 0 e False (fst sc) (snd sc) of
        Inr (Inr _, s', c') \<Rightarrow> (True, s', c')
      | Inr (Inl _, s', c') \<Rightarrow> (False, s', c')
      | Inl _ \<Rightarrow> (False, sc))"

definition sync_force :: "'e \<Rightarrow> SyncAddressSender \<times> 'e Chan \<Rightarrow> SyncAddressSender \<times> 'e Chan" where
  "sync_force e sc =
     (case sync_do_send (\<lambda>m (_ :: unit option). m) e (snd sc) of
        Inr (_, c') \<Rightarrow> (fst sc, c') | Inl _ \<Rightarrow> sc)"

definition sync_recv :: "SyncAddressSender \<times> 'e Chan \<Rightarrow> 'e option \<times> SyncAddressSender \<times> 'e Chan" where
  "sync_recv sc =
     (case sync_poll 0 (snd sc) of
        Inr (Inr (Ready r), c') \<Rightarrow> (r, fst sc, c')
      | Inr (_, c') \<Rightarrow> (None, fst sc, c')
      | Inl _ \<Rightarrow> (None, sc))"

definition sync_chan_rep :: "SyncAddressSender \<times> 'e Chan \<Rightarrow> 'e list \<Rightarrow> bool" where
  "sync_chan_rep sc ms \<longleftrightarrow>
     chan_wf (snd sc) ms [] \<and> chan_open (snd sc) \<and> \<not> s_maybe_parked (fst sc)"

lemma sync_chan_full_iff:
  "sync_chan_rep sc ms \<Longrightarrow>
   chan_full (snd sc) \<longleftrightarrow> unat (i_buffer (snd sc)) \<noteq> 0 \<and> unat (i_buffer (snd sc)) \<le> length ms"
  by (auto simp: sync_chan_rep_def chan_full_def unat_gt_0 dest: chan_wfD(3))

interpretation sc: bounded_channel sync_chan_rep "\<lambda>sc. unat (i_buffer (snd sc))" sync_offer sync_force
  sync_recv "2 ^ 63"
proof unfold_locales
  fix sc :: "SyncAddressSender \<times> 'e Chan" and ms :: "'e list" and e
  assume rep: "sync_chan_rep sc ms" and lim: "length ms + 1 < 2 ^ 63"
  have wf: "chan_wf (snd sc) ms []" "chan_open (snd sc)" "\<not> sender_blocked (fst sc) (snd sc)"
    using rep by (auto simp: sync_chan_rep_def sender_blocked_def)
  show "\<exists>c'. sync_offer e sc = (True, c') \<and> sync_chan_rep c' (ms @ [e]) \<and>
      unat (i_buffer (snd c')) = unat (i_buffer (snd sc))"
    if "unat (i_buffer (snd sc)) = 0 \<or> length ms < unat (i_buffer (snd sc))"
    using sync_try_send_room [OF wf(1,3,2) _ lim, of "\<lambda>m (_ :: unit option). m" 0 e False]
      sync_chan_full_iff [OF rep] that
    by (fastforce simp: sync_offer_def sync_chan_rep_def)
  show "sync_chan_rep (sync_force e sc) (ms @ [e]) \<and>
      unat (i_buffer (snd (sync_force e sc))) = unat (i_buffer (snd sc))"
    using sync_do_send_open [OF wf(1,2) lim, of "\<lambda>m (_ :: unit option). m" e] rep
    by (auto simp: sync_force_def sync_chan_rep_def)
next
  fix sc :: "SyncAddressSender \<times> 'e Chan" and ms :: "'e list" and e
  assume rep: "sync_chan_rep sc ms" and "unat (i_buffer (snd sc)) \<noteq> 0" "unat (i_buffer (snd sc)) \<le> length ms"
  then have "chan_full (snd sc)" "\<not> sender_blocked (fst sc) (snd sc)"
    by (simp_all add: sync_chan_full_iff [OF rep]) (use rep in \<open>simp add: sync_chan_rep_def sender_blocked_def\<close>)
  then show "\<exists>c'. sync_offer e sc = (False, c') \<and> sync_chan_rep c' ms \<and>
      unat (i_buffer (snd c')) = unat (i_buffer (snd sc))"
    using sync_try_send_full_nopark [of "fst sc" "snd sc" "\<lambda>m (_ :: unit option). m" 0 e] rep
    by (auto simp: sync_offer_def sync_chan_rep_def)
next
  fix sc :: "SyncAddressSender \<times> 'e Chan"
  assume "sync_chan_rep sc []"
  then show "\<exists>c'. sync_recv sc = (None, c') \<and> sync_chan_rep c' [] \<and>
      unat (i_buffer (snd c')) = unat (i_buffer (snd sc))"
    using sync_poll_empty [of "snd sc" "[]" 0]
    by (auto simp: sync_recv_def sync_chan_rep_def chan_wf_def)
next
  fix sc :: "SyncAddressSender \<times> 'e Chan" and m ms
  assume "sync_chan_rep sc (m # ms)"
  then show "\<exists>c'. sync_recv sc = (Some m, c') \<and> sync_chan_rep c' ms \<and>
      unat (i_buffer (snd c')) = unat (i_buffer (snd sc))"
    using sync_poll_data [of "snd sc" m ms "[]" 0]
    by (fastforce simp: sync_recv_def sync_chan_rep_def)
qed

lemma channel_rep:
  "channel buffer = Inr (s, c) \<Longrightarrow> sync_chan_rep (s, c) [] \<and> i_buffer c = buffer"
  using queue_new_rep
  by (auto simp: channel_def sync_chan_rep_def chan_wf_def chan_open_def msg_count_def
      INIT_STATE_decode mq.rep_new split: if_splits)

section \<open>Senders that come and go\<close>

text \<open>The receiver does not change the number of senders.\<close>

lemma sync_steps_senders:
  "next_message c = Inr (m, c') \<Longrightarrow> i_num_senders c' = i_num_senders c"
  "unpark_one c = Inr c' \<Longrightarrow> i_num_senders c' = i_num_senders c"
  "dec_num_messages c = Inr c' \<Longrightarrow> i_num_senders c' = i_num_senders c"
  "try_park cur c = (tp, c') \<Longrightarrow> i_num_senders c' = i_num_senders c"
  by (auto simp: next_message_def unpark_one_def dec_num_messages_def try_park_def bind_exec_eq_Inr Let_def
      split: option.splits if_splits prod.splits)

lemma sync_poll_loop_senders: "sync_poll_loop k cur c = Inr (r, c') \<Longrightarrow> i_num_senders c' = i_num_senders c"
proof (induction k arbitrary: c)
  case (Suc k)
  obtain m c1 where 1: "next_message c = Inr (m, c1)" using Suc.prems by (auto simp: bind_exec_eq_Inr)
  show ?case
  proof (cases m)
    case (Ready msg)
    then obtain c2 where "unpark_one c1 = Inr c2" "dec_num_messages c2 = Inr c'"
      using Suc.prems 1 by (auto simp: bind_exec_eq_Inr)
    then show ?thesis using sync_steps_senders 1 by metis
  next
    case NotReady
    obtain tp c2 where 2: "try_park cur c1 = (tp, c2)" by force
    then show ?thesis using Suc NotReady 1 sync_steps_senders(1) [OF 1] sync_steps_senders(4) [OF 2] by (cases tp) auto
  qed
qed simp

lemma sync_poll_senders: "sync_poll cur c = Inr (r, c') \<Longrightarrow> i_num_senders c' = i_num_senders c"
  by (simp add: sync_poll_def sync_poll_loop_senders)

lemma send_senders:
  "sync_do_send pack m c = Inr (r, c') \<Longrightarrow> i_num_senders c' = i_num_senders c"
  "sync_send pack cur ch m s c = Inr (r2, s', c') \<Longrightarrow> i_num_senders c' = i_num_senders c"
  by (auto simp: sync_do_send_def sync_send_def inc_num_messages_def inc_num_messages_force_def queue_push_and_signal_def signal_def
      poll_unparked_def park_def bind_exec_eq_Inr Let_def split: option.splits prod.splits if_splits)

lemma sync_clone_counts:
  assumes "i_buffer c \<le> MAX_CAPACITY" and "i_num_senders c < MAX_CAPACITY - i_buffer c"
  shows "\<exists>s c'. sync_clone c = Inr (s, c') \<and> i_num_senders c' = i_num_senders c + 1 \<and>
    \<not> s_maybe_parked s \<and> s_cell s = ch_next_cell c \<and> ch_cells c' (s_cell s) = sender_task_new"
  using assms
  by (auto simp: sync_clone_def clone_loop.simps [of _ "i_num_senders c" "i_num_senders c"]
      max_senders_def new_sender_def)

lemma sync_tx_drop_last:
  assumes "i_num_senders c = 1"
  shows "\<not> sync_rx_connected (sync_tx_drop c)" "rt_unparked (i_recv_task (sync_tx_drop c))"
    "ch_woken (sync_tx_drop c) = ch_woken c @ recv_wakeup c"
  using assms by (auto simp: sync_tx_drop_def sync_rx_connected_def signal_woken recv_wakeup_def)

lemma sync_tx_drop_other:
  assumes "i_num_senders c \<noteq> 1"
  shows "sync_tx_drop c = c\<lparr>i_num_senders := i_num_senders c - 1\<rparr>"
  using assms by (simp add: sync_tx_drop_def Let_def)

section \<open>Properties\<close>

text \<open>The packed state word is a faithful encoding: decoding an encoded state whose message
  count is at most \<^verbatim>\<open>MAX_CAPACITY\<close> gives the state back, and encoding a decoded word gives
  the word back.\<close>

theorem state_word_roundtrip:
  assumes "num_messages st \<le> MAX_CAPACITY"
  shows "decode_state (encode_state st) = st \<and> encode_state (decode_state w) = w"
  using assms by (simp add: decode_encode encode_decode)

theorem state_word_roundtrip_witness:
  "decode_state (encode_state \<lparr>is_open = True, num_messages = 5\<rparr>) = \<lparr>is_open = True, num_messages = 5\<rparr>
   \<and> encode_state (decode_state 7) = 7"
proof -
  have "num_messages \<lparr>is_open = True, num_messages = 5\<rparr> \<le> MAX_CAPACITY"
    by (simp add: MAX_CAPACITY_def OPEN_MASK_eq)
  then show ?thesis by (rule state_word_roundtrip)
qed

text \<open>\<^verbatim>\<open>send\<close> on a well-formed channel, every branch.  A sender still parked gets its message
  back as \<^verbatim>\<open>Full\<close>; on a closed channel it gets it back as \<^verbatim>\<open>Closed\<close> and nothing changes; at
  capacity it gets it back as \<^verbatim>\<open>Full\<close>, its cell records the current task and joins the parked
  queue; otherwise the packed message is appended, the count is bumped, and the receiver is
  flagged and woken if it was parked.\<close>

theorem sync_send_spec:
  assumes "chan_wf c ms ps" and "length ms + 1 < 2 ^ 63"
  shows "\<exists>r s' c'. sync_send pack cur (tx, rx) msg s c = Inr (r, s', c') \<and>
    (if sender_blocked s c then r = Inl (Full msg) \<and> chan_wf c' ms ps \<and> ch_woken c' = ch_woken c
     else if \<not> chan_open c then r = Inl (Closed msg) \<and> c' = c
     else if chan_full c then
       r = Inl (Full msg) \<and> chan_wf c' ms (ps @ [s_cell s]) \<and> s_maybe_parked s' \<and>
       ch_cells c' (s_cell s) = \<lparr>st_task = Some cur, st_is_parked = True\<rparr> \<and> ch_woken c' = ch_woken c
     else
       r = Inr rx \<and> chan_wf c' (ms @ [pack msg (Some tx)]) ps \<and> rt_unparked (i_recv_task c') \<and>
       ch_woken c' = ch_woken c @ recv_wakeup c)"
proof -
  consider "sender_blocked s c" | "\<not> sender_blocked s c" "\<not> chan_open c"
    | "\<not> sender_blocked s c" "chan_open c" "chan_full c"
    | "\<not> sender_blocked s c" "chan_open c" "\<not> chan_full c" by blast
  then show ?thesis
  proof cases
    case 1
    then show ?thesis using assms by (simp add: sync_send_blocked chan_wf_def)
  next
    case 2
    then show ?thesis by (simp add: sync_send_closed)
  next
    case 3
    then show ?thesis using sync_send_full [OF assms(1) 3] by fastforce
  next
    case 4
    then show ?thesis using sync_send_room [OF assms(1) 4 assms(2)] by fastforce
  qed
qed

definition example_chan :: "nat Chan" where
  "example_chan =
     \<lparr>i_buffer = 1, i_state = INIT_STATE, i_message_queue = queue_new, i_parked_queue = queue_new,
      i_num_senders = 1, i_recv_task = \<lparr>rt_unparked = False, rt_task = Some 9\<rparr>,
      ch_cells = (\<lambda>_. sender_task_new), ch_next_cell = 1, ch_woken = []\<rparr>"

lemma example_chan_wf: "chan_wf example_chan [] []" "chan_open example_chan"
  "\<not> chan_full example_chan" "recv_wakeup example_chan = [9]" "ch_woken example_chan = []"
  by (auto simp: example_chan_def chan_wf_def chan_open_def msg_count_def INIT_STATE_decode chan_full_def
      recv_wakeup_def mq.rep_new)

theorem sync_send_spec_witness:
  "\<exists>s' c'. sync_send (\<lambda>m tx. m) 3 ((), ()) 42 \<lparr>s_cell = 0, s_maybe_parked = False\<rparr> example_chan
     = Inr (Inr (), s', c') \<and> chan_wf c' [42] [] \<and> ch_woken c' = [9]"
proof -
  have "\<not> sender_blocked \<lparr>s_cell = 0, s_maybe_parked = False\<rparr> example_chan"
    by (simp add: sender_blocked_def)
  then show ?thesis
    using sync_send_spec [OF example_chan_wf(1), of "\<lambda>m tx. m" 3 "()" "()" 42
      "\<lparr>s_cell = 0, s_maybe_parked = False\<rparr>"] example_chan_wf by auto
qed

text \<open>C5: Backpressure and delivery.  Starting from a new channel of any capacity, any
  interleaving of \<^verbatim>\<open>try_send\<close>, \<^verbatim>\<open>do_send\<close> and \<^verbatim>\<open>poll\<close> delivers the accepted messages in
  order with none lost or duplicated, and if \<^verbatim>\<open>do_send\<close> is not used a channel of nonzero
  capacity never holds more messages than its capacity.\<close>

theorem sync_channel_fifo_bounded:
  assumes "channel buffer = Inr (s, c)" and "length ops < 2 ^ 63"
    and "run_chan sync_offer sync_force sync_recv ops (s, c) = (os, s', c')"
  shows "\<exists>ms. chan_wf c' ms [] \<and> accepted os = received os @ ms \<and>
    (buffer \<noteq> 0 \<and> (\<forall>e. Force e \<notin> set ops) \<longrightarrow> length ms \<le> unat buffer)"
proof -
  have rep: "sync_chan_rep (s, c) []" and b: "i_buffer c = buffer"
    using channel_rep [OF assms(1)] by auto
  obtain ms where ms: "sync_chan_rep (s', c') ms" "accepted os = received os @ ms"
    using sc.run_fifo [OF rep _ assms(3)] assms(2) by auto
  have "length ms \<le> unat buffer" if nz: "buffer \<noteq> 0" and nf: "\<forall>e. Force e \<notin> set ops"
  proof -
    obtain ms' where "sync_chan_rep (s', c') ms'" "length ms' \<le> unat buffer"
      using sc.run_bounded [OF rep _ nf _ _ assms(3)] assms(2) nz b by (auto simp: unat_eq_zero)
    moreover have "ms' = ms" if "sync_chan_rep (s', c') ms'"
      using that ms(1) by (auto simp: sync_chan_rep_def dest!: chan_wfD(1) intro: mq.rep_unique)
    ultimately show ?thesis by auto
  qed
  then show ?thesis using ms by (auto simp: sync_chan_rep_def)
qed

theorem sync_channel_fifo_bounded_witness:
  "\<exists>s c os s' c' ms. channel 2 = Inr (s, c) \<and>
     run_chan sync_offer sync_force sync_recv [Offer (1::nat), Offer 2, Offer 3, Take] (s, c) = (os, s', c')
     \<and> accepted os = received os @ ms \<and> length ms \<le> 2"
proof -
  have small: "(2 :: usize) < MAX_BUFFER" by (simp add: MAX_BUFFER_def MAX_CAPACITY_def OPEN_MASK_eq)
  obtain s and c :: "nat Chan" where c: "channel 2 = Inr (s, c)"
    using small by (simp add: channel_def)
  obtain os s' c' where r: "run_chan sync_offer sync_force sync_recv
      [Offer (1::nat), Offer 2, Offer 3, Take] (s, c) = (os, s', c')"
    by (metis prod_cases3)
  show ?thesis using c r sync_channel_fifo_bounded [OF c _ r] by fastforce
qed

text \<open>\<^verbatim>\<open>poll\<close> always returns within two turns of its loop.  With messages it returns the oldest
  one, decrements the count, and unparks and wakes the sender parked longest; without, it
  returns \<^verbatim>\<open>NotReady\<close> with the receiver's task registered.  It never reports the end of the
  stream.\<close>

theorem sync_poll_spec:
  assumes "chan_wf c ms ps" and "chan_open c"
  shows "\<exists>c'. (case ms of
      [] \<Rightarrow> sync_poll cur c = Inr (PNotReady, c') \<and> chan_wf c' [] ps \<and>
        i_recv_task c' = \<lparr>rt_unparked = False, rt_task = Some cur\<rparr>
    | m # ms' \<Rightarrow> sync_poll cur c = Inr (PReady (Some m), c') \<and> chan_wf c' ms' (tl ps) \<and>
        (ps \<noteq> [] \<longrightarrow> \<not> st_is_parked (ch_cells c' (hd ps))) \<and>
        ch_woken c' = ch_woken c @ (case ps of [] \<Rightarrow> [] | p # _ \<Rightarrow>
          (case st_task (ch_cells c p) of None \<Rightarrow> [] | Some t \<Rightarrow> [t])))"
proof (cases ms)
  case Nil
  then show ?thesis using sync_poll_empty [of c ps cur] assms by (auto simp: chan_wf_def)
next
  case (Cons m ms')
  then show ?thesis using sync_poll_data [of c m ms' ps cur] assms by auto
qed

theorem sync_poll_spec_witness:
  "\<exists>c'. sync_poll 4 example_chan = Inr (PNotReady, c') \<and> chan_wf c' [] [] \<and>
     i_recv_task c' = \<lparr>rt_unparked = False, rt_task = Some 4\<rparr>"
  using sync_poll_spec [OF example_chan_wf(1,2), of 4] by simp





text \<open>A sender that is polled again while it is parked loses its wake-up.  The retry of
  \<^verbatim>\<open>send\<close> erases the task registered in the sender's cell; when the receiver next takes a message
  and unparks that sender, it notifies no task at all, although a slot has become free.\<close>

theorem parked_sender_repoll_loses_wakeup:
  assumes "chan_wf c (m # ms) (s_cell s # ps)" and "chan_open c" and "sender_blocked s c"
  shows "\<exists>c1 c2. sync_send pack cur ch msg s c = Inr (Inl (Full msg), s, c1) \<and>
    sync_poll rcv c1 = Inr (PReady (Some m), c2) \<and> \<not> sender_blocked s c2 \<and> ch_woken c2 = ch_woken c"
proof -
  let ?c1 = "c\<lparr>ch_cells := (ch_cells c)(s_cell s := (ch_cells c (s_cell s))\<lparr>st_task := None\<rparr>)\<rparr>"
  have wf: "chan_wf ?c1 (m # ms) (s_cell s # ps)" "chan_open ?c1"
    using assms by (auto simp: chan_wf_def)
  show ?thesis
    using sync_poll_data [OF wf, of rcv] sync_send_blocked [OF assms(3), of pack cur ch msg]
    by (auto simp: sender_blocked_def)
qed

text \<open>A full channel of capacity one whose only sender is parked with task 3.\<close>

definition parked_chan :: "nat Chan exec" where
  "parked_chan =
     bind_exec (sync_do_send (\<lambda>m (tx :: unit option). m) 1 example_chan) (\<lambda>(_, c).
       bind_exec (sync_send (\<lambda>m (tx :: unit option). m) 3 ((), ()) 2 \<lparr>s_cell = 0, s_maybe_parked = False\<rparr> c)
         (\<lambda>(_, _, c'). Inr c'))"

lemma parked_chan_ok:
  "\<exists>c. parked_chan = Inr c \<and> chan_wf c [1] [0] \<and> chan_open c \<and>
     sender_blocked \<lparr>s_cell = 0, s_maybe_parked = True\<rparr> c"
proof -
  let ?pk = "\<lambda>m (tx :: unit option). m :: nat"
  let ?s = "\<lparr>s_cell = 0, s_maybe_parked = False\<rparr>"
  obtain c1 where c1: "sync_do_send ?pk 1 example_chan = Inr (Inr (), c1)" "chan_wf c1 [1] []" "chan_open c1"
    "i_buffer c1 = i_buffer example_chan" "ch_cells c1 = ch_cells example_chan"
    using sync_do_send_open [OF example_chan_wf(1,2), of ?pk 1] by auto
  have full: "chan_full c1" "\<not> sender_blocked ?s c1"
    using c1 by (auto simp: chan_full_def chan_wfD(3) example_chan_def sender_blocked_def)
  obtain c2 where "sync_send ?pk 3 ((), ()) 2 ?s c1 = Inr (Inl (Full 2), ?s\<lparr>s_maybe_parked := True\<rparr>, c2)"
    "chan_wf c2 [1] [0]" "chan_open c2"
    "ch_cells c2 = (ch_cells c1)(0 := \<lparr>st_task = Some 3, st_is_parked = True\<rparr>)"
    using sync_send_full [OF c1(2) full(2) c1(3) full(1), of ?pk 3 "((), ())" 2] by auto
  then show ?thesis using c1 by (auto simp: parked_chan_def sender_blocked_def)
qed

theorem parked_sender_repoll_loses_wakeup_witness:
  "\<exists>c c1 c2. parked_chan = Inr c \<and>
     sync_send (\<lambda>m (tx :: unit option). m) 3 ((), ()) 2 \<lparr>s_cell = 0, s_maybe_parked = True\<rparr> c
       = Inr (Inl (Full 2), \<lparr>s_cell = 0, s_maybe_parked = True\<rparr>, c1) \<and>
     sync_poll 9 c1 = Inr (PReady (Some 1), c2) \<and> ch_woken c2 = ch_woken c"
proof -
  obtain c where c: "parked_chan = Inr c" "chan_wf c [1] [0]" "chan_open c"
    "sender_blocked \<lparr>s_cell = 0, s_maybe_parked = True\<rparr> c"
    using parked_chan_ok by blast
  have "chan_wf c [1] [s_cell \<lparr>s_cell = 0, s_maybe_parked = True\<rparr>]" using c(2) by simp
  from parked_sender_repoll_loses_wakeup [OF this c(3,4), of "\<lambda>m (tx :: unit option). m" 3 "((), ())" 2 9] c(1)
  show ?thesis by auto
qed

text \<open>Raising the capacity of a well-formed channel with \<^verbatim>\<open>set_capacity\<close> unparks every parked
  sender and keeps the messages; but switching a bounded channel to the unbounded capacity 0
  wakes nobody and leaves every parked sender parked, although the channel is no longer full.\<close>

theorem sync_set_capacity_wakes:
  assumes "chan_wf c ms ps"
  shows "(i_buffer c < cap \<longrightarrow> (\<exists>c'. sync_set_capacity cap c = Inr c' \<and> chan_wf c' ms [] \<and>
      i_buffer c' = cap \<and> (\<forall>i \<in> set ps. \<not> st_is_parked (ch_cells c' i)))) \<and>
    (\<exists>c'. sync_set_capacity 0 c = Inr c' \<and> chan_wf c' ms ps \<and> \<not> chan_full c' \<and>
      ch_cells c' = ch_cells c \<and> ch_woken c' = ch_woken c)"
  using sync_set_capacity_grow [OF assms] assms
  by (auto simp: sync_set_capacity_def chan_full_def chan_wf_def)

theorem sync_set_capacity_wakes_witness:
  "\<exists>c c'. parked_chan = Inr c \<and> sync_set_capacity 0 c = Inr c' \<and> chan_wf c' [1] [0] \<and> \<not> chan_full c' \<and>
     ch_woken c' = ch_woken c"
proof -
  obtain c where c: "parked_chan = Inr c" "chan_wf c [1] [0]"
    using parked_chan_ok by blast
  show ?thesis using sync_set_capacity_wakes [OF c(2), of 0] c by blast
qed

end
