(* ===== verification/Sync_Interleave.thy ===== *)
theory Sync_Interleave
  imports Sync_Channel
begin

text \<open>
  The thread-safe channel with its senders and its receiver running concurrently.  Each method
  is cut where another thread can get between: a send into the reservation of a slot
  (\<^verbatim>\<open>inc_num_messages\<close>), the push of the message and the \<^verbatim>\<open>signal\<close>, or, when the channel is full,
  into the reading of the state and the \<^verbatim>\<open>park\<close>; a poll into the pop, the
  attempt to park, the unpark of a sender and the decrement of the count.  Every step applies the
  operation of \<open>Sync_Channel\<close> to the shared state; the push and the pop are single steps
  here, their own interleavings are the subject of \<open>Mpsc_Queue\<close>.
\<close>

section \<open>Configurations and steps\<close>

text \<open>
  \<open>RxIdle\<close>: the last poll returned a message, or there was none yet; \<open>RxParked\<close>: the last poll returned
  \<^verbatim>\<open>NotReady\<close> and the executor polls again when the receiver's task has been notified;
  \<open>RxActive\<close>: at the head of the loop of a poll; \<open>RxSawEmpty\<close>: between the failed pop and
  \<^verbatim>\<open>try_park\<close>; \<open>RxGot\<close>: between the pop and \<^verbatim>\<open>unpark_one\<close>; \<open>RxUnparked\<close>: between \<^verbatim>\<open>unpark_one\<close> and
  \<^verbatim>\<open>dec_num_messages\<close>.  The drop of the receiver closes the channel, wakes the parked senders
  (\<open>RxClosing\<close>), drains the messages (\<open>RxDraining\<close>) and is over (\<open>RxGone\<close>).
\<close>

datatype rx_pc = RxIdle | RxParked | RxActive | RxSawEmpty | RxGot | RxUnparked | RxClosing | RxDraining | RxGone

definition rx_free :: "rx_pc \<Rightarrow> bool" where
  "rx_free pc \<longleftrightarrow> pc = RxIdle \<or> pc = RxParked"

definition rx_dropping :: "rx_pc \<Rightarrow> bool" where
  "rx_dropping pc \<longleftrightarrow> pc = RxClosing \<or> pc = RxDraining \<or> pc = RxGone"

record 'e csys =
  cs_chan :: "'e Chan"
  cs_reserved :: "'e list"
  cs_pushed :: nat
  cs_full :: nat
  cs_rx :: rx_pc
  cs_notified :: bool

text \<open>
  \<open>cs_reserved\<close> are the messages of the senders between the reservation and the push,
  \<open>cs_pushed\<close> counts the senders between the push and the signal, \<open>cs_full\<close> those that found the
  channel full and have not parked yet.
\<close>

definition note_signal :: "'e csys \<Rightarrow> bool" where
  "note_signal s \<longleftrightarrow> cs_notified s \<or> recv_wakeup (cs_chan s) \<noteq> []"

text \<open>
  The guard on the count in the two reservation steps says that fewer than \<open>2 ^ 63 - 1\<close> messages
  are in flight, the most the state word can count.
\<close>

inductive cstep :: "'e csys \<Rightarrow> 'e csys \<Rightarrow> bool" where
  reserve: "\<lbrakk>inc_num_messages (cs_chan s) = (Some False, c'); msg_count (cs_chan s) + 1 < 2 ^ 63\<rbrakk> \<Longrightarrow>
    cstep s (s\<lparr>cs_chan := c', cs_reserved := e # cs_reserved s\<rparr>)"
| reserve_force: "\<lbrakk>inc_num_messages_force (cs_chan s) = (Some b, c'); msg_count (cs_chan s) + 1 < 2 ^ 63\<rbrakk> \<Longrightarrow>
    cstep s (s\<lparr>cs_chan := c', cs_reserved := e # cs_reserved s\<rparr>)"
| saw_full: "inc_num_messages (cs_chan s) = (Some True, c') \<Longrightarrow>
    cstep s (s\<lparr>cs_chan := c', cs_full := Suc (cs_full s)\<rparr>)"
| sender_park: "\<lbrakk>cs_full s = Suc n; park cur can_park tx (cs_chan s) = Inr (tx', c')\<rbrakk> \<Longrightarrow>
    cstep s (s\<lparr>cs_chan := c', cs_full := n\<rparr>)"
| push: "\<lbrakk>cs_reserved s = xs @ e # ys; queue_push e (i_message_queue (cs_chan s)) = Inr q\<rbrakk> \<Longrightarrow>
    cstep s (s\<lparr>cs_chan := (cs_chan s)\<lparr>i_message_queue := q\<rparr>, cs_reserved := xs @ ys,
      cs_pushed := Suc (cs_pushed s)\<rparr>)"
| signalled: "cs_pushed s = Suc n \<Longrightarrow>
    cstep s (s\<lparr>cs_chan := signal (cs_chan s), cs_pushed := n, cs_notified := note_signal s\<rparr>)"
| sender_drop: "i_num_senders (cs_chan s) \<noteq> 0 \<Longrightarrow> cstep s (s\<lparr>cs_chan := sync_tx_drop (cs_chan s),
      cs_notified := (if i_num_senders (cs_chan s) = 1 then note_signal s else cs_notified s)\<rparr>)"
| sender_repoll: "poll_unparked cur do_park tx (cs_chan s) = (a, tx', c') \<Longrightarrow> cstep s (s\<lparr>cs_chan := c'\<rparr>)"
| sender_clone: "sync_clone (cs_chan s) = Inr (tx, c') \<Longrightarrow> cstep s (s\<lparr>cs_chan := c'\<rparr>)"
| rx_sender: "\<lbrakk>\<not> rx_dropping (cs_rx s); sync_sender (cs_chan s) = Inr (tx, c')\<rbrakk> \<Longrightarrow> cstep s (s\<lparr>cs_chan := c'\<rparr>)"
| rx_capacity: "\<lbrakk>rx_free (cs_rx s); sync_set_capacity cap (cs_chan s) = Inr c'\<rbrakk> \<Longrightarrow> cstep s (s\<lparr>cs_chan := c'\<rparr>)"
| rx_poll: "rx_free (cs_rx s) \<Longrightarrow> cstep s (s\<lparr>cs_rx := RxActive, cs_notified := False\<rparr>)"
| rx_data: "\<lbrakk>cs_rx s = RxActive; next_message (cs_chan s) = Inr (Ready (Some m), c')\<rbrakk> \<Longrightarrow>
    cstep s (s\<lparr>cs_chan := c', cs_rx := RxGot\<rparr>)"
| rx_empty: "\<lbrakk>cs_rx s = RxActive; next_message (cs_chan s) = Inr (NotReady, c')\<rbrakk> \<Longrightarrow>
    cstep s (s\<lparr>cs_chan := c', cs_rx := RxSawEmpty\<rparr>)"
| rx_parked: "\<lbrakk>cs_rx s = RxSawEmpty; try_park t (cs_chan s) = (Parked, c')\<rbrakk> \<Longrightarrow>
    cstep s (s\<lparr>cs_chan := c', cs_rx := RxParked\<rparr>)"
| rx_retry: "\<lbrakk>cs_rx s = RxSawEmpty; try_park t (cs_chan s) = (NotEmpty, c')\<rbrakk> \<Longrightarrow>
    cstep s (s\<lparr>cs_chan := c', cs_rx := RxActive\<rparr>)"
| rx_unpark: "\<lbrakk>cs_rx s = RxGot; unpark_one (cs_chan s) = Inr c'\<rbrakk> \<Longrightarrow>
    cstep s (s\<lparr>cs_chan := c', cs_rx := RxUnparked\<rparr>)"
| rx_dec: "\<lbrakk>cs_rx s = RxUnparked; dec_num_messages (cs_chan s) = Inr c'\<rbrakk> \<Longrightarrow>
    cstep s (s\<lparr>cs_chan := c', cs_rx := RxIdle\<rparr>)"
| rx_close: "rx_free (cs_rx s) \<Longrightarrow>
    cstep s (s\<lparr>cs_chan := (cs_chan s)\<lparr>i_state := close_loop (i_state (cs_chan s)) (i_state (cs_chan s)) []\<rparr>,
      cs_rx := RxClosing\<rparr>)"
| rx_wake: "\<lbrakk>cs_rx s = RxClosing; queue_pop (i_parked_queue (cs_chan s)) = Inr (Data i, q)\<rbrakk> \<Longrightarrow>
    cstep s (s\<lparr>cs_chan := notify_cell i ((cs_chan s)\<lparr>i_parked_queue := q\<rparr>)\<rparr>)"
| rx_woken: "\<lbrakk>cs_rx s = RxClosing; queue_pop (i_parked_queue (cs_chan s)) = Inr (Empty, q)\<rbrakk> \<Longrightarrow>
    cstep s (s\<lparr>cs_chan := (cs_chan s)\<lparr>i_parked_queue := q\<rparr>, cs_rx := RxDraining\<rparr>)"
| rx_drain: "\<lbrakk>cs_rx s = RxDraining; next_message (cs_chan s) = Inr (Ready m, c')\<rbrakk> \<Longrightarrow>
    cstep s (s\<lparr>cs_chan := c'\<rparr>)"
| rx_drained: "\<lbrakk>cs_rx s = RxDraining; next_message (cs_chan s) = Inr (NotReady, c')\<rbrakk> \<Longrightarrow>
    cstep s (s\<lparr>cs_chan := c', cs_rx := RxGone\<rparr>)"

definition csys_init :: "'e Chan \<Rightarrow> 'e csys" where
  "csys_init c = \<lparr>cs_chan = c, cs_reserved = [], cs_pushed = 0, cs_full = 0, cs_rx = RxIdle, cs_notified = False\<rparr>"

inductive creach :: "'e csys \<Rightarrow> bool" where
  start: "channel buffer = Inr (tx, c) \<Longrightarrow> creach (csys_init c)"
| step: "\<lbrakk>creach s; cstep s s'\<rbrakk> \<Longrightarrow> creach s'"

section \<open>Invariant\<close>

definition in_hand :: "'e csys \<Rightarrow> nat" where
  "in_hand s = (if cs_rx s = RxGot \<or> cs_rx s = RxUnparked then 1 else 0)"

definition wakeup_ok :: "'e csys \<Rightarrow> 'e list \<Rightarrow> bool" where
  "wakeup_ok s ms \<longleftrightarrow>
     (cs_rx s = RxSawEmpty \<longrightarrow>
        ms = [] \<or> 0 < cs_pushed s \<or> rt_unparked (i_recv_task (cs_chan s))) \<and>
     (cs_rx s = RxParked \<longrightarrow>
        cs_notified s \<or>
        (\<not> rt_unparked (i_recv_task (cs_chan s)) \<and> rt_task (i_recv_task (cs_chan s)) \<noteq> None \<and>
         (ms = [] \<or> 0 < cs_pushed s)))"

definition csys_rep :: "'e csys \<Rightarrow> 'e list \<Rightarrow> nat list \<Rightarrow> bool" where
  "csys_rep s ms ps \<longleftrightarrow>
     queue_rep (i_message_queue (cs_chan s)) ms \<and> queue_rep (i_parked_queue (cs_chan s)) ps \<and>
     chan_open (cs_chan s) = (\<not> rx_dropping (cs_rx s)) \<and>
     (\<not> rx_dropping (cs_rx s) \<longrightarrow> msg_count (cs_chan s) = length ms + length (cs_reserved s) + in_hand s) \<and>
     wakeup_ok s ms"

definition csys_inv :: "'e csys \<Rightarrow> bool" where
  "csys_inv s \<longleftrightarrow> (\<exists>ms ps. csys_rep s ms ps)"

lemma csys_invI: "csys_rep s ms ps \<Longrightarrow> csys_inv s"
  unfolding csys_inv_def by blast

lemma csys_invE:
  assumes "csys_inv s"
  obtains ms ps where "csys_rep s ms ps"
  using assms unfolding csys_inv_def by blast

lemma csys_repD:
  assumes "csys_rep s ms ps"
  shows "queue_rep (i_message_queue (cs_chan s)) ms" "queue_rep (i_parked_queue (cs_chan s)) ps"
    "chan_open (cs_chan s) = (\<not> rx_dropping (cs_rx s))"
    "\<not> rx_dropping (cs_rx s) \<Longrightarrow> msg_count (cs_chan s) = length ms + length (cs_reserved s) + in_hand s"
    "wakeup_ok s ms"
  using assms unfolding csys_rep_def by blast+

lemmas csys_defs = csys_rep_def in_hand_def wakeup_ok_def rx_dropping_def rx_free_def

lemma csys_inv_start: "channel buffer = Inr (tx, c) \<Longrightarrow> csys_inv (csys_init c)"
  using channel_rep [of buffer tx c]
  by (intro csys_invI [of _ "[]" "[]"]) (auto simp: csys_init_def sync_chan_rep_def chan_wf_def csys_defs)

text \<open>Steps that leave the messages, the count and the receiver's task alone.\<close>

lemma csys_inv_frame:
  assumes "csys_inv s" and "queue_rep (i_parked_queue c') ps" and "i_message_queue c' = i_message_queue (cs_chan s)"
    and "i_state c' = i_state (cs_chan s)" and "i_recv_task c' = i_recv_task (cs_chan s)"
  shows "csys_inv (s\<lparr>cs_chan := c'\<rparr>)"
proof -
  from assms(1) obtain ms ps0 where r: "csys_rep s ms ps0" by (rule csys_invE)
  note 1 = csys_repD [OF r]
  then show ?thesis using assms(2-5)
    by (intro csys_invI [of _ ms ps]) (auto simp: csys_rep_def in_hand_def wakeup_ok_def chan_open_def msg_count_def)
qed

lemma csys_inv_parked_rep: "csys_inv s \<Longrightarrow> \<exists>ps. queue_rep (i_parked_queue (cs_chan s)) ps"
  by (auto simp: csys_inv_def csys_rep_def)

lemma csys_inv_frame_parked:
  assumes "csys_inv s" and "i_parked_queue c' = i_parked_queue (cs_chan s)" and "i_message_queue c' = i_message_queue (cs_chan s)"
    and "i_state c' = i_state (cs_chan s)" and "i_recv_task c' = i_recv_task (cs_chan s)"
  shows "csys_inv (s\<lparr>cs_chan := c'\<rparr>)"
  using csys_inv_parked_rep [OF assms(1)] assms csys_inv_frame by metis

lemma csys_inv_full [simp]: "csys_inv (s\<lparr>cs_full := n\<rparr>) = csys_inv s"
  by (simp add: csys_inv_def csys_rep_def in_hand_def wakeup_ok_def)

lemma csys_inv_reserve:
  assumes inv: "csys_inv s" and st: "c' = (cs_chan s)\<lparr>i_state := st\<rparr>" and o: "chan_open (cs_chan s)"
    and op: "chan_open c'" and n: "msg_count c' = msg_count (cs_chan s) + 1"
  shows "csys_inv (s\<lparr>cs_chan := c', cs_reserved := e # cs_reserved s\<rparr>)"
  using inv o op n unfolding csys_inv_def csys_rep_def st by (auto simp: csys_rep_def in_hand_def wakeup_ok_def)

lemma csys_inv_signal:
  assumes "csys_inv s"
  shows "csys_inv (s\<lparr>cs_chan := signal (cs_chan s), cs_pushed := n, cs_notified := note_signal s\<rparr>)"
proof -
  from assms obtain ms ps where r: "csys_rep s ms ps" by (rule csys_invE)
  note 1 = csys_repD [OF r]
  show ?thesis
    by (rule csys_invI [of _ ms ps])
      (use 1 in \<open>auto simp: csys_rep_def in_hand_def wakeup_ok_def note_signal_def recv_wakeup_def\<close>)
qed

text \<open>Finding the channel full changes nothing.\<close>

lemma inc_num_messages_state: "inc_num_messages c = (Some True, c') \<Longrightarrow> c' = c"
  by (auto simp: inc_num_messages_def inc_loop.simps [of _ "i_state c" "i_state c"] Let_def split: if_splits)

text \<open>What the other operations change.\<close>

lemma poll_unparked_frame:
  assumes "poll_unparked cur b tx c = (a, tx', c')"
  shows "\<exists>f. c' = c\<lparr>ch_cells := f\<rparr> \<and> (\<forall>i. st_is_parked (f i) = st_is_parked (ch_cells c i))"
proof (cases "sender_blocked tx c")
  case True
  then show ?thesis using assms by (intro exI [of _ "ch_cells c'"]) (auto simp: poll_unparked_blocked split: if_splits)
next
  case False
  then have "c' = c\<lparr>ch_cells := ch_cells c\<rparr>" using assms by (simp add: poll_unparked_free)
  then show ?thesis by blast
qed

lemma new_sender_frame:
  assumes "new_sender (c\<lparr>i_num_senders := n\<rparr>) = (tx, c')"
  shows "c' = c\<lparr>i_num_senders := n, ch_cells := (ch_cells c)(ch_next_cell c := sender_task_new),
    ch_next_cell := Suc (ch_next_cell c)\<rparr>"
  using assms by (auto simp: new_sender_def)

lemma clone_frame:
  assumes "sync_clone c = Inr (tx, c') \<or> sync_sender c = Inr (tx, c')"
  shows "\<exists>n. c' = c\<lparr>i_num_senders := n, ch_cells := (ch_cells c)(ch_next_cell c := sender_task_new),
    ch_next_cell := Suc (ch_next_cell c)\<rparr>"
  using assms by (auto simp: sync_clone_def sync_sender_def bind_exec_eq_Inr dest: new_sender_frame)

lemma set_capacity_frame:
  assumes "sync_set_capacity cap c = Inr c'" and "queue_rep (i_parked_queue c) ps"
  shows "(\<exists>ps'. queue_rep (i_parked_queue c') ps') \<and> i_message_queue c' = i_message_queue c \<and> i_buffer c' = cap \<and>
    i_state c' = i_state c \<and> i_recv_task c' = i_recv_task c \<and> (cap = i_buffer c \<longrightarrow> c' = c)"
proof (cases "cap > i_buffer c")
  case True
  obtain q where "wake_all (q_brk (i_parked_queue c)) (c\<lparr>i_buffer := cap\<rparr>)
      = Inr ((fold notify_cell ps (c\<lparr>i_buffer := cap\<rparr>))\<lparr>i_parked_queue := q\<rparr>)" "queue_rep q []"
    using wake_all_fuel [of "c\<lparr>i_buffer := cap\<rparr>" ps "q_brk (i_parked_queue c)"] mq.rep_bound [OF assms(2)] assms(2) by auto
  then show ?thesis using assms True by (auto simp: sync_set_capacity_def)
next
  case False
  then show ?thesis using assms by (auto simp: sync_set_capacity_def)
qed

lemma unpark_one_frame:
  assumes "unpark_one c = Inr c'" and "queue_rep (i_parked_queue c) ps"
  shows "queue_rep (i_parked_queue c') (List.tl ps) \<and> i_message_queue c' = i_message_queue c \<and>
    i_state c' = i_state c \<and> i_recv_task c' = i_recv_task c"
proof (cases ps)
  case Nil
  then show ?thesis using assms unpark_one_empty [of c] by auto
next
  case (Cons p ps')
  then show ?thesis using assms unpark_one_data [of c p ps'] by auto
qed

lemma next_message_inv:
  assumes "next_message c = Inr (r, c')" and "queue_rep (i_message_queue c) ms"
  shows "\<exists>q. c' = c\<lparr>i_message_queue := q\<rparr> \<and> queue_rep q (List.tl ms) \<and>
    r = (case ms of [] \<Rightarrow> NotReady | m # _ \<Rightarrow> Ready (Some m))"
proof (cases ms)
  case Nil
  then show ?thesis using assms next_message_empty [of c] by (intro exI [of _ "i_message_queue c"]) auto
next
  case (Cons m ms')
  then show ?thesis using assms next_message_data [of c m ms'] by auto
qed

text \<open>Every step keeps the invariant.\<close>

lemma csys_inv_reserve_step:
  assumes a: "inc_num_messages (cs_chan s) = (Some False, c')" "msg_count (cs_chan s) + 1 < 2 ^ 63" "csys_inv s"
  shows "csys_inv (s\<lparr>cs_chan := c', cs_reserved := e # cs_reserved s\<rparr>)"
proof -
  have op: "chan_open (cs_chan s)" using a(1) inc_num_messages_closed by fastforce
  then have "\<not> chan_full (cs_chan s)" using a inc_num_messages_full by fastforce
  then obtain st where "inc_num_messages (cs_chan s) = (Some False, (cs_chan s)\<lparr>i_state := st\<rparr>)"
    "chan_open ((cs_chan s)\<lparr>i_state := st\<rparr>)" "msg_count ((cs_chan s)\<lparr>i_state := st\<rparr>) = msg_count (cs_chan s) + 1"
    using inc_num_messages_room op a by blast
  then show ?thesis using a op by (auto intro: csys_inv_reserve)
qed

lemma csys_inv_reserve_force_step:
  assumes a: "inc_num_messages_force (cs_chan s) = (Some b, c')" "msg_count (cs_chan s) + 1 < 2 ^ 63" "csys_inv s"
  shows "csys_inv (s\<lparr>cs_chan := c', cs_reserved := e # cs_reserved s\<rparr>)"
proof -
  have op: "chan_open (cs_chan s)" using a(1) inc_num_messages_force_closed by fastforce
  obtain b' st where "inc_num_messages_force (cs_chan s) = (Some b', (cs_chan s)\<lparr>i_state := st\<rparr>)"
    "chan_open ((cs_chan s)\<lparr>i_state := st\<rparr>)" "msg_count ((cs_chan s)\<lparr>i_state := st\<rparr>) = msg_count (cs_chan s) + 1"
    using inc_num_messages_force_open [OF op] a by blast
  then show ?thesis using a op by (auto intro: csys_inv_reserve)
qed

lemma csys_inv_saw_full_step:
  assumes a: "inc_num_messages (cs_chan s) = (Some True, c')" "csys_inv s"
  shows "csys_inv (s\<lparr>cs_chan := c', cs_full := Suc (cs_full s)\<rparr>)"
proof -
  from a have "c' = cs_chan s" using inc_num_messages_state by blast
  then show ?thesis using a by simp
qed

lemma csys_inv_sender_park_step:
  assumes a: "cs_full s = Suc n" "park cur can_park tx (cs_chan s) = Inr (tx', c')" "csys_inv s"
  shows "csys_inv (s\<lparr>cs_chan := c', cs_full := n\<rparr>)"
proof -
  from a obtain ps where ps: "queue_rep (i_parked_queue (cs_chan s)) ps" using csys_inv_parked_rep by blast
  from park_ok [OF this, of cur can_park tx] a(2) a(3)
  have "csys_inv (s\<lparr>cs_chan := c'\<rparr>)" by (auto intro: csys_inv_frame)
  then have "csys_inv (s\<lparr>cs_chan := c'\<rparr>\<lparr>cs_full := n\<rparr>)" by (simp only: csys_inv_full)
  then show ?thesis by simp
qed

lemma csys_inv_push_step:
  assumes a: "cs_reserved s = xs @ e # ys" "queue_push e (i_message_queue (cs_chan s)) = Inr q" "csys_inv s"
  shows "csys_inv (s\<lparr>cs_chan := (cs_chan s)\<lparr>i_message_queue := q\<rparr>, cs_reserved := xs @ ys, cs_pushed := Suc (cs_pushed s)\<rparr>)"
proof -
  from a(3) obtain ms ps where r: "csys_rep s ms ps" by (rule csys_invE)
  note 1 = csys_repD [OF r]
  moreover have "queue_rep q (ms @ [e])"
    using mq.push_rep [OF 1(1), of e] a(2) by auto
  ultimately show ?thesis
    by (intro csys_invI [of _ "ms @ [e]" ps]) (use a in \<open>auto simp: csys_rep_def in_hand_def wakeup_ok_def\<close>)
qed

lemma csys_inv_signalled_step:
  assumes a: "cs_pushed s = Suc n" "csys_inv s"
  shows "csys_inv (s\<lparr>cs_chan := signal (cs_chan s), cs_pushed := n, cs_notified := note_signal s\<rparr>)"
  using a by (intro csys_inv_signal)

lemma csys_inv_sender_drop_step:
  assumes a: "i_num_senders (cs_chan s) \<noteq> 0" "csys_inv s"
  shows "csys_inv (s\<lparr>cs_chan := sync_tx_drop (cs_chan s), cs_notified := (if i_num_senders (cs_chan s) = 1 then note_signal s else cs_notified s)\<rparr>)"
proof -
  show ?thesis
  proof (cases "i_num_senders (cs_chan s) = 1")
    case True
    let ?s = "s\<lparr>cs_chan := (cs_chan s)\<lparr>i_num_senders := 0\<rparr>\<rparr>"
    have "csys_inv ?s" using a by (auto intro: csys_inv_frame_parked)
    moreover have "note_signal ?s = note_signal s"
      by (simp add: note_signal_def recv_wakeup_def)
    ultimately show ?thesis
      using csys_inv_signal [of ?s "cs_pushed s"] True by (simp add: sync_tx_drop_def Let_def)
  next
    case False
    then show ?thesis using a
      by (auto simp: sync_tx_drop_other intro: csys_inv_frame_parked)
  qed
qed

lemma csys_inv_sender_repoll_step:
  assumes a: "poll_unparked cur do_park tx (cs_chan s) = (a, tx', c')" "csys_inv s"
  shows "csys_inv (s\<lparr>cs_chan := c'\<rparr>)"
  using a by (auto dest!: poll_unparked_frame intro: csys_inv_frame_parked)

lemma csys_inv_sender_clone_step:
  assumes a: "sync_clone (cs_chan s) = Inr (tx, c')" "csys_inv s"
  shows "csys_inv (s\<lparr>cs_chan := c'\<rparr>)"
  using a clone_frame [of "cs_chan s" tx c']
  by (auto intro: csys_inv_frame_parked)

lemma csys_inv_rx_sender_step:
  assumes a: "\<not> rx_dropping (cs_rx s)" "sync_sender (cs_chan s) = Inr (tx, c')" "csys_inv s"
  shows "csys_inv (s\<lparr>cs_chan := c'\<rparr>)"
  using a clone_frame [of "cs_chan s" tx c']
  by (auto intro: csys_inv_frame_parked)

lemma csys_inv_rx_capacity_step:
  assumes a: "rx_free (cs_rx s)" "sync_set_capacity cap (cs_chan s) = Inr c'" "csys_inv s"
  shows "csys_inv (s\<lparr>cs_chan := c'\<rparr>)"
proof -
  from a obtain ps where "queue_rep (i_parked_queue (cs_chan s)) ps" using csys_inv_parked_rep by blast
  from set_capacity_frame [OF a(2) this] show ?thesis
    using a(3) by (auto intro: csys_inv_frame)
qed

lemma csys_inv_rx_poll_step:
  assumes a: "rx_free (cs_rx s)" "csys_inv s"
  shows "csys_inv (s\<lparr>cs_rx := RxActive, cs_notified := False\<rparr>)"
proof -
  from a(2) obtain ms ps where r: "csys_rep s ms ps" by (rule csys_invE)
  have "\<not> rx_dropping (cs_rx s) \<and> in_hand s = 0" using a(1) by (auto simp: rx_dropping_def rx_free_def in_hand_def)
  with r have "csys_rep (s\<lparr>cs_rx := RxActive, cs_notified := False\<rparr>) ms ps" by (simp add: csys_defs)
  then show ?thesis by (rule csys_invI)
qed

lemma csys_inv_rx_data_step:
  assumes a: "cs_rx s = RxActive" "next_message (cs_chan s) = Inr (Ready (Some m), c')" "csys_inv s"
  shows "csys_inv (s\<lparr>cs_chan := c', cs_rx := RxGot\<rparr>)"
proof -
  from a(3) obtain ms ps where r: "csys_rep s ms ps" by (rule csys_invE)
  note 1 = csys_repD [OF r]
  with next_message_inv [OF a(2) 1(1)] show ?thesis using a(1-2)
    by (intro csys_invI [of _ "List.tl ms" ps]) (auto simp: csys_defs split: list.splits)
qed

lemma csys_inv_rx_empty_step:
  assumes a: "cs_rx s = RxActive" "next_message (cs_chan s) = Inr (NotReady, c')" "csys_inv s"
  shows "csys_inv (s\<lparr>cs_chan := c', cs_rx := RxSawEmpty\<rparr>)"
proof -
  from a(3) obtain ms ps where r: "csys_rep s ms ps" by (rule csys_invE)
  note 1 = csys_repD [OF r]
  with next_message_inv [OF a(2) 1(1)] show ?thesis using a(1-2)
    by (intro csys_invI [of _ "[]" ps]) (auto simp: csys_defs split: list.splits)
qed

lemma csys_inv_rx_parked_step:
  assumes a: "cs_rx s = RxSawEmpty" "try_park t (cs_chan s) = (Parked, c')" "csys_inv s"
  shows "csys_inv (s\<lparr>cs_chan := c', cs_rx := RxParked\<rparr>)"
proof -
  from a(3) obtain ms ps where r: "csys_rep s ms ps" by (rule csys_invE)
  note 1 = csys_repD [OF r]
  then show ?thesis
    by (intro csys_invI [of _ ms ps])
      (use a in \<open>auto simp: try_park_def csys_defs split: if_splits\<close>)
qed

lemma csys_inv_rx_retry_step:
  assumes a: "cs_rx s = RxSawEmpty" "try_park t (cs_chan s) = (NotEmpty, c')" "csys_inv s"
  shows "csys_inv (s\<lparr>cs_chan := c', cs_rx := RxActive\<rparr>)"
proof -
  from a(3) obtain ms ps where r: "csys_rep s ms ps" by (rule csys_invE)
  note 1 = csys_repD [OF r]
  then show ?thesis
    by (intro csys_invI [of _ ms ps])
      (use a in \<open>auto simp: try_park_def csys_defs split: if_splits\<close>)
qed

lemma csys_inv_rx_unpark_step:
  assumes a: "cs_rx s = RxGot" "unpark_one (cs_chan s) = Inr c'" "csys_inv s"
  shows "csys_inv (s\<lparr>cs_chan := c', cs_rx := RxUnparked\<rparr>)"
proof -
  from a(3) obtain ms ps where r: "csys_rep s ms ps" by (rule csys_invE)
  note 1 = csys_repD [OF r]
  with unpark_one_frame [OF a(2) 1(2)] show ?thesis using a(1-2)
    by (intro csys_invI [of _ ms "List.tl ps"]) (auto simp: csys_defs chan_open_def msg_count_def)
qed

lemma csys_inv_rx_dec_step:
  assumes a: "cs_rx s = RxUnparked" "dec_num_messages (cs_chan s) = Inr c'" "csys_inv s"
  shows "csys_inv (s\<lparr>cs_chan := c', cs_rx := RxIdle\<rparr>)"
proof -
  from a(3) obtain ms ps where r: "csys_rep s ms ps" by (rule csys_invE)
  note 1 = csys_repD [OF r]
  then have op: "chan_open (cs_chan s)" using a by (simp add: rx_dropping_def)
  then have "0 < msg_count (cs_chan s)" using 1 a by (auto simp: in_hand_def)
  then obtain st where "c' = (cs_chan s)\<lparr>i_state := st\<rparr>" "chan_open c'" "msg_count c' = msg_count (cs_chan s) - 1"
    using dec_num_messages_ok [of "cs_chan s"] a op by auto
  then show ?thesis
    by (intro csys_invI [of _ ms ps]) (use 1 op a in \<open>auto simp: csys_defs\<close>)
qed

lemma csys_inv_rx_close_step:
  assumes a: "rx_free (cs_rx s)" "csys_inv s"
  shows "csys_inv (s\<lparr>cs_chan := (cs_chan s)\<lparr>i_state := close_loop (i_state (cs_chan s)) (i_state (cs_chan s)) []\<rparr>, cs_rx := RxClosing\<rparr>)"
proof -
  from a(2) obtain ms ps where r: "csys_rep s ms ps" by (rule csys_invE)
  then show ?thesis using close_decode by (intro csys_invI [of _ ms ps]) (simp add: csys_defs chan_open_def)
qed

lemma csys_inv_rx_wake_step:
  assumes a: "cs_rx s = RxClosing" "queue_pop (i_parked_queue (cs_chan s)) = Inr (Data i, q)" "csys_inv s"
  shows "csys_inv (s\<lparr>cs_chan := notify_cell i ((cs_chan s)\<lparr>i_parked_queue := q\<rparr>)\<rparr>)"
proof -
  from a obtain ps where ps: "queue_rep (i_parked_queue (cs_chan s)) ps" using csys_inv_parked_rep by blast
  have "queue_rep q (List.tl ps)" 
    using a(2) mq.pop_empty [of "i_parked_queue (cs_chan s)"] mq.pop_data [of "i_parked_queue (cs_chan s)"] ps
    by (cases ps) fastforce+
  then show ?thesis using a(3) by (auto intro: csys_inv_frame)
qed

lemma csys_inv_rx_woken_step:
  assumes a: "cs_rx s = RxClosing" "queue_pop (i_parked_queue (cs_chan s)) = Inr (Empty, q)" "csys_inv s"
  shows "csys_inv (s\<lparr>cs_chan := (cs_chan s)\<lparr>i_parked_queue := q\<rparr>, cs_rx := RxDraining\<rparr>)"
proof -
  from a(3) obtain ms ps where r: "csys_rep s ms ps" by (rule csys_invE)
  note 1 = csys_repD [OF r]
  have "ps = []" using a(2) mq.pop_data [of "i_parked_queue (cs_chan s)"] 1(2) by (cases ps) fastforce+
  then have "q = i_parked_queue (cs_chan s)" using a(2) mq.pop_empty [of "i_parked_queue (cs_chan s)"] 1(2) by auto
  then show ?thesis using 1 a(1-2)
    by (intro csys_invI [of _ ms ps]) (auto simp: csys_defs)
qed

lemma csys_inv_rx_drain_step:
  assumes a: "cs_rx s = RxDraining" "next_message (cs_chan s) = Inr (Ready m, c')" "csys_inv s"
  shows "csys_inv (s\<lparr>cs_chan := c'\<rparr>)"
proof -
  from a(3) obtain ms ps where r: "csys_rep s ms ps" by (rule csys_invE)
  note 1 = csys_repD [OF r]
  with next_message_inv [OF a(2) 1(1)] show ?thesis using a(1-2)
    by (intro csys_invI [of _ "List.tl ms" ps]) (auto simp: csys_defs)
qed

lemma csys_inv_rx_drained_step:
  assumes a: "cs_rx s = RxDraining" "next_message (cs_chan s) = Inr (NotReady, c')" "csys_inv s"
  shows "csys_inv (s\<lparr>cs_chan := c', cs_rx := RxGone\<rparr>)"
proof -
  from a(3) obtain ms ps where r: "csys_rep s ms ps" by (rule csys_invE)
  note 1 = csys_repD [OF r]
  with next_message_inv [OF a(2) 1(1)] show ?thesis using a(1-2)
    by (intro csys_invI [of _ "List.tl ms" ps]) (auto simp: csys_defs)
qed

lemmas csys_inv_steps =
  csys_inv_reserve_step csys_inv_reserve_force_step csys_inv_saw_full_step csys_inv_sender_park_step
  csys_inv_push_step csys_inv_signalled_step csys_inv_sender_drop_step csys_inv_sender_repoll_step
  csys_inv_sender_clone_step csys_inv_rx_sender_step csys_inv_rx_capacity_step csys_inv_rx_poll_step
  csys_inv_rx_data_step csys_inv_rx_empty_step csys_inv_rx_parked_step csys_inv_rx_retry_step
  csys_inv_rx_unpark_step csys_inv_rx_dec_step csys_inv_rx_close_step csys_inv_rx_wake_step
  csys_inv_rx_woken_step csys_inv_rx_drain_step csys_inv_rx_drained_step

lemma cstep_inv: "cstep s s' \<Longrightarrow> csys_inv s \<Longrightarrow> csys_inv s'"
  by (induction rule: cstep.induct) (rule csys_inv_steps; assumption)+

lemma creach_inv: "creach s \<Longrightarrow> csys_inv s"
  by (induction rule: creach.induct) (auto intro: csys_inv_start cstep_inv)

section \<open>Runs\<close>

text \<open>
  What matters of a reachable state, so that runs can be written down: the reserved messages, the
  queued ones, the parked cells, the senders about to signal and about to park, where the receiver
  is, its flag, whether it has been notified, and the number of sender cells.
\<close>

record 'e view =
  v_rs :: "'e list"
  v_ms :: "'e list"
  v_ps :: "nat list"
  v_pushed :: nat
  v_full :: nat
  v_rx :: rx_pc
  v_unparked :: bool
  v_notified :: bool

definition shows_view :: "usize \<Rightarrow> 'e csys \<Rightarrow> 'e view \<Rightarrow> bool" where
  "shows_view buf s v \<longleftrightarrow> creach s \<and> i_buffer (cs_chan s) = buf \<and> cs_reserved s = v_rs v \<and>
     queue_rep (i_message_queue (cs_chan s)) (v_ms v) \<and> queue_rep (i_parked_queue (cs_chan s)) (v_ps v) \<and>
     cs_pushed s = v_pushed v \<and> cs_full s = v_full v \<and> cs_rx s = v_rx v \<and>
     rt_unparked (i_recv_task (cs_chan s)) = v_unparked v \<and> cs_notified s = v_notified v \<and>
     ch_next_cell (cs_chan s) = 1"

definition visible :: "usize \<Rightarrow> 'e view \<Rightarrow> bool" where
  "visible buf v \<longleftrightarrow> (\<exists>s. shows_view buf s v)"

lemma visibleI: "cstep s s' \<Longrightarrow> creach s \<Longrightarrow> (creach s' \<Longrightarrow> shows_view buf s' v) \<Longrightarrow> visible buf v"
  unfolding visible_def using creach.step by blast

lemma shows_count:
  assumes "shows_view buf s v" and "\<not> rx_dropping (v_rx v)"
  shows "chan_open (cs_chan s)" "msg_count (cs_chan s) = length (v_ms v) + length (v_rs v) + in_hand s"
proof -
  from assms(1) have "csys_inv s" by (auto simp: shows_view_def intro: creach_inv)
  then obtain ms ps where r: "csys_rep s ms ps" by (rule csys_invE)
  have "ms = v_ms v" using csys_repD(1) [OF r] assms(1) mq.rep_unique unfolding shows_view_def by blast
  with csys_repD(3,4) [OF r] assms show "chan_open (cs_chan s)"
    "msg_count (cs_chan s) = length (v_ms v) + length (v_rs v) + in_hand s" by (auto simp: shows_view_def)
qed

lemma visible_start:
  assumes "buf < MAX_BUFFER"
  shows "visible buf (\<lparr>v_rs = [], v_ms = [], v_ps = [], v_pushed = 0, v_full = 0, v_rx = RxIdle, v_unparked = False,
     v_notified = False\<rparr> :: 'e view)"
proof -
  obtain tx and c :: "'e Chan" where ch: "channel buf = Inr (tx, c)" using assms by (simp add: channel_def)
  then have c: "\<not> rt_unparked (i_recv_task c)" "ch_next_cell c = 1" by (auto simp: channel_def split: if_splits)
  have "shows_view buf (csys_init c) (\<lparr>v_rs = [], v_ms = [], v_ps = [], v_pushed = 0, v_full = 0, v_rx = RxIdle,
      v_unparked = False, v_notified = False\<rparr> :: 'e view)"
    using channel_rep [OF ch] creach.start [OF ch] c
    by (auto simp: shows_view_def csys_init_def sync_chan_rep_def chan_wf_def)
  then show ?thesis unfolding visible_def by blast
qed

lemma visible_reserve:
  assumes "visible buf v" and "v_rx v = RxIdle \<or> v_rx v = RxParked" and "length (v_ms v) + length (v_rs v) < unat buf" and "buf < MAX_BUFFER"
  shows "visible buf (v\<lparr>v_rs := e # v_rs v\<rparr>)"
proof -
  obtain s where s: "shows_view buf s v" using assms(1) visible_def by blast
  have nd: "\<not> rx_dropping (v_rx v)" "in_hand s = 0" using assms(2) s by (auto simp: rx_dropping_def in_hand_def shows_view_def)
  note c = shows_count [OF s nd(1)]
  have "\<not> chan_full (cs_chan s)" using c(2) nd s assms(3) by (auto simp: chan_full_def shows_view_def)
  moreover have "msg_count (cs_chan s) + 1 < 2 ^ 63"
  proof -
    have "unat buf < unat MAX_BUFFER" using assms(4) by (simp add: word_less_nat_alt)
    then show ?thesis using c(2) nd assms(3) by (simp add: MAX_BUFFER_def MAX_CAPACITY_def OPEN_MASK_eq)
  qed
  ultimately obtain st where "inc_num_messages (cs_chan s) = (Some False, (cs_chan s)\<lparr>i_state := st\<rparr>)"
    using inc_num_messages_room c(1) by blast
  from cstep.reserve [OF this \<open>msg_count (cs_chan s) + 1 < 2 ^ 63\<close>, of e] show ?thesis
    by (rule visibleI) (use s in \<open>auto simp: shows_view_def\<close>)
qed

lemma visible_saw_full:
  assumes "visible buf v" and "v_rx v = RxIdle \<or> v_rx v = RxParked" and "unat buf \<le> length (v_ms v) + length (v_rs v)" and "buf \<noteq> 0"
  shows "visible buf (v\<lparr>v_full := Suc (v_full v)\<rparr>)"
proof -
  obtain s where s: "shows_view buf s v" using assms(1) visible_def by blast
  have nd: "\<not> rx_dropping (v_rx v)" "in_hand s = 0" using assms(2) s by (auto simp: rx_dropping_def in_hand_def shows_view_def)
  note c = shows_count [OF s nd(1)]
  have "chan_full (cs_chan s)" using c(2) nd s assms(3,4) by (auto simp: chan_full_def shows_view_def)
  from cstep.saw_full [OF inc_num_messages_full [OF c(1) this]] show ?thesis
    by (rule visibleI) (use s in \<open>auto simp: shows_view_def\<close>)
qed

lemma visible_push:
  assumes "visible buf v" and "v_rs v = [e]"
  shows "visible buf (v\<lparr>v_rs := [], v_ms := v_ms v @ [e], v_pushed := Suc (v_pushed v)\<rparr>)"
proof -
  obtain s where s: "shows_view buf s v" using assms(1) visible_def by blast
  then obtain q where q: "queue_push e (i_message_queue (cs_chan s)) = Inr q" "queue_rep q (v_ms v @ [e])"
    using mq.push_rep [of "i_message_queue (cs_chan s)" "v_ms v" e] by (auto simp: shows_view_def)
  have "cs_reserved s = [] @ e # []" using s assms(2) by (simp add: shows_view_def)
  from cstep.push [OF this q(1)] show ?thesis by (rule visibleI) (use s q in \<open>auto simp: shows_view_def\<close>)
qed

lemma visible_signal:
  assumes "visible buf v" and "v_pushed v = Suc n"
  shows "\<exists>nt. visible buf (v\<lparr>v_pushed := n, v_unparked := True, v_notified := nt\<rparr>)"
proof -
  obtain s where s: "shows_view buf s v" using assms(1) visible_def by blast
  have "cs_pushed s = Suc n" using s assms(2) by (simp add: shows_view_def)
  from cstep.signalled [OF this] have "visible buf (v\<lparr>v_pushed := n, v_unparked := True, v_notified := note_signal s\<rparr>)"
    by (rule visibleI) (use s in \<open>auto simp: shows_view_def signal_def Let_def\<close>)
  then show ?thesis by blast
qed

lemma visible_poll:
  assumes "visible buf v" and "rx_free (v_rx v)"
  shows "visible buf (v\<lparr>v_rx := RxActive, v_notified := False\<rparr>)"
proof -
  obtain s where s: "shows_view buf s v" using assms(1) visible_def by blast
  then have "rx_free (cs_rx s)" using assms(2) by (simp add: shows_view_def)
  from cstep.rx_poll [OF this] show ?thesis by (rule visibleI) (use s in \<open>auto simp: shows_view_def\<close>)
qed

text \<open>A poll that takes a message while no sender is parked.\<close>

lemma visible_take:
  assumes "visible buf v" and "v_rx v = RxActive" and "v_ms v = m # ms" and "v_ps v = []"
  shows "visible buf (v\<lparr>v_ms := ms, v_rx := RxIdle\<rparr>)"
proof -
  obtain s where s: "shows_view buf s v" using assms(1) visible_def by blast
  obtain q where q: "next_message (cs_chan s) = Inr (Ready (Some m), (cs_chan s)\<lparr>i_message_queue := q\<rparr>)" "queue_rep q ms"
    using next_message_data [of "cs_chan s" m ms] s assms(3) by (auto simp: shows_view_def)
  have "cs_rx s = RxActive" using s assms(2) by (simp add: shows_view_def)
  from cstep.rx_data [OF this q(1)] have "visible buf (v\<lparr>v_ms := ms, v_rx := RxGot\<rparr>)"
    by (rule visibleI) (use s q in \<open>auto simp: shows_view_def\<close>)
  then obtain s1 where s1: "shows_view buf s1 (v\<lparr>v_ms := ms, v_rx := RxGot\<rparr>)" using visible_def by blast
  then have "cs_rx s1 = RxGot" "unpark_one (cs_chan s1) = Inr (cs_chan s1)"
    using unpark_one_empty [of "cs_chan s1"] assms(4) by (auto simp: shows_view_def)
  from cstep.rx_unpark [OF this] have "visible buf (v\<lparr>v_ms := ms, v_rx := RxUnparked\<rparr>)"
    by (rule visibleI) (use s1 in \<open>auto simp: shows_view_def\<close>)
  then obtain s2 where s2: "shows_view buf s2 (v\<lparr>v_ms := ms, v_rx := RxUnparked\<rparr>)" using visible_def by blast
  have rx: "cs_rx s2 = RxUnparked" using s2 by (simp add: shows_view_def)
  then have "0 < msg_count (cs_chan s2)" using shows_count [OF s2] by (simp add: rx_dropping_def in_hand_def)
  then obtain st where "dec_num_messages (cs_chan s2) = Inr ((cs_chan s2)\<lparr>i_state := st\<rparr>)"
    using dec_num_messages_ok by blast
  from cstep.rx_dec [OF rx this] show ?thesis by (rule visibleI) (use s2 in \<open>auto simp: shows_view_def\<close>)
qed

text \<open>A turn of the loop of a poll on an empty queue.\<close>

lemma visible_turn:
  assumes "visible buf v" and "v_rx v = RxActive" and "v_ms v = []"
  shows "visible buf (v\<lparr>v_rx := (if v_unparked v then RxActive else RxParked), v_unparked := False\<rparr>)"
proof -
  obtain s where s: "shows_view buf s v" using assms(1) visible_def by blast
  have n: "next_message (cs_chan s) = Inr (NotReady, cs_chan s)" "cs_rx s = RxActive"
    using next_message_empty [of "cs_chan s"] s assms(2,3) by (auto simp: shows_view_def)
  from cstep.rx_empty [OF n(2,1)] have "visible buf (v\<lparr>v_rx := RxSawEmpty\<rparr>)"
    by (rule visibleI) (use s in \<open>auto simp: shows_view_def\<close>)
  then obtain s1 where s1: "shows_view buf s1 (v\<lparr>v_rx := RxSawEmpty\<rparr>)" using visible_def by blast
  then have rx: "cs_rx s1 = RxSawEmpty" by (simp add: shows_view_def)
  show ?thesis
  proof (cases "v_unparked v")
    case True
    then have "try_park 5 (cs_chan s1) = (NotEmpty, (cs_chan s1)\<lparr>i_recv_task := (i_recv_task (cs_chan s1))\<lparr>rt_unparked := False\<rparr>\<rparr>)"
      using s1 by (simp add: try_park_def shows_view_def)
    from cstep.rx_retry [OF rx this] show ?thesis by (rule visibleI) (use s1 True in \<open>auto simp: shows_view_def\<close>)
  next
    case False
    then have "try_park 5 (cs_chan s1) = (Parked, (cs_chan s1)\<lparr>i_recv_task := (i_recv_task (cs_chan s1))\<lparr>rt_task := Some 5\<rparr>\<rparr>)"
      using s1 by (simp add: try_park_def shows_view_def)
    from cstep.rx_parked [OF rx this] show ?thesis by (rule visibleI) (use s1 False in \<open>auto simp: shows_view_def\<close>)
  qed
qed

text \<open>The receiver of an empty channel is dropped while no sender is parked.\<close>

lemma visible_drop:
  assumes "visible buf v" and "rx_free (v_rx v)" and "v_ms v = []" and "v_ps v = []"
  shows "visible buf (v\<lparr>v_rx := RxGone\<rparr>)"
proof -
  obtain s where s: "shows_view buf s v" using assms(1) visible_def by blast
  then have "rx_free (cs_rx s)" using assms(2) by (simp add: shows_view_def)
  from cstep.rx_close [OF this] have "visible buf (v\<lparr>v_rx := RxClosing\<rparr>)"
    by (rule visibleI) (use s in \<open>auto simp: shows_view_def\<close>)
  then obtain s1 where s1: "shows_view buf s1 (v\<lparr>v_rx := RxClosing\<rparr>)" using visible_def by blast
  then have "cs_rx s1 = RxClosing" "queue_pop (i_parked_queue (cs_chan s1)) = Inr (Empty, i_parked_queue (cs_chan s1))"
    using mq.pop_empty [of "i_parked_queue (cs_chan s1)"] assms(4) by (auto simp: shows_view_def)
  from cstep.rx_woken [OF this] have "visible buf (v\<lparr>v_rx := RxDraining\<rparr>)"
    by (rule visibleI) (use s1 in \<open>auto simp: shows_view_def\<close>)
  then obtain s2 where s2: "shows_view buf s2 (v\<lparr>v_rx := RxDraining\<rparr>)" using visible_def by blast
  then have "cs_rx s2 = RxDraining" "next_message (cs_chan s2) = Inr (NotReady, cs_chan s2)"
    using next_message_empty [of "cs_chan s2"] assms(3) by (auto simp: shows_view_def)
  from cstep.rx_drained [OF this] show ?thesis by (rule visibleI) (use s2 in \<open>auto simp: shows_view_def\<close>)
qed

text \<open>The first sender parks, with task \<open>t\<close>.\<close>

lemma visible_park:
  assumes "visible buf v" and "v_full v = Suc n"
  shows "\<exists>s. shows_view buf s (v\<lparr>v_full := n, v_ps := v_ps v @ [0]\<rparr>) \<and>
    ch_cells (cs_chan s) 0 = \<lparr>st_task = Some t, st_is_parked = True\<rparr>"
proof -
  obtain s where s: "shows_view buf s v" using assms(1) visible_def by blast
  let ?tx = "\<lparr>s_cell = 0, s_maybe_parked = False\<rparr>"
  obtain q where q: "park t True ?tx (cs_chan s) = Inr (?tx\<lparr>s_maybe_parked := chan_open (cs_chan s)\<rparr>,
      (cs_chan s)\<lparr>ch_cells := (ch_cells (cs_chan s))(0 := \<lparr>st_task = Some t, st_is_parked = True\<rparr>), i_parked_queue := q\<rparr>)"
    "queue_rep q (v_ps v @ [0])"
    using park_ok [of "cs_chan s" "v_ps v" t True ?tx] s by (auto simp: shows_view_def)
  have "cs_full s = Suc n" using s assms(2) by (simp add: shows_view_def)
  from cstep.sender_park [OF this q(1)] creach.step s q(2) show ?thesis
    by (fastforce simp: shows_view_def)
qed

text \<open>A receiver that parked and was then sent a message.\<close>

lemma creach_example:
  "\<exists>s :: nat csys. creach s \<and> cs_rx s = RxParked \<and> cs_pushed s = 0 \<and> cs_reserved s = [] \<and>
     queue_rep (i_message_queue (cs_chan s)) [7]"
proof -
  have b: "(16 :: usize) < MAX_BUFFER" by (simp add: MAX_BUFFER_def MAX_CAPACITY_def OPEN_MASK_eq word_less_nat_alt)
  note v0 = visible_start [OF b, where 'e = nat]
  have v1: "visible 16 \<lparr>v_rs = [], v_ms = [] :: nat list, v_ps = [], v_pushed = 0, v_full = 0, v_rx = RxActive, v_unparked = False, v_notified = False\<rparr>"
    using visible_poll [OF v0] by (simp add: rx_free_def)
  have v2: "visible 16 \<lparr>v_rs = [], v_ms = [] :: nat list, v_ps = [], v_pushed = 0, v_full = 0, v_rx = RxParked, v_unparked = False, v_notified = False\<rparr>"
    using visible_turn [OF v1] by simp
  have v3: "visible 16 \<lparr>v_rs = [7], v_ms = [] :: nat list, v_ps = [], v_pushed = 0, v_full = 0, v_rx = RxParked, v_unparked = False, v_notified = False\<rparr>"
    using visible_reserve [OF v2 _ _ b, of 7] by simp
  have v4: "visible 16 \<lparr>v_rs = [], v_ms = [7] :: nat list, v_ps = [], v_pushed = 1, v_full = 0, v_rx = RxParked, v_unparked = False, v_notified = False\<rparr>"
    using visible_push [OF v3, of 7] by simp
  show ?thesis using visible_signal [OF v4, of 0] by (auto simp: visible_def shows_view_def)
qed

section \<open>Properties\<close>


text \<open>C13: The message count of the state word is exact under concurrency: until the receiver is dropped it is the number of messages
  in the queue, plus the slots reserved by senders that have not pushed yet, plus the message the
  receiver has popped and not yet accounted for.  So the receiver's next pop and its decrement of
  the count neither panic nor underflow.\<close>

theorem concurrent_count_exact:
  assumes "creach s"
  shows "\<exists>ms. queue_rep (i_message_queue (cs_chan s)) ms \<and>
    (\<not> rx_dropping (cs_rx s) \<longrightarrow> msg_count (cs_chan s) = length ms + length (cs_reserved s) + in_hand s) \<and>
    (cs_rx s = RxActive \<longrightarrow> (\<exists>r c'. next_message (cs_chan s) = Inr (r, c'))) \<and>
    (cs_rx s = RxGot \<longrightarrow> (\<exists>c'. unpark_one (cs_chan s) = Inr c')) \<and>
    (cs_rx s = RxUnparked \<longrightarrow> (\<exists>c'. dec_num_messages (cs_chan s) = Inr c'))"
proof -
  from creach_inv [OF assms] obtain ms ps where r: "csys_rep s ms ps" by (rule csys_invE)
  note 1 = csys_repD [OF r]
  have "\<exists>r c'. next_message (cs_chan s) = Inr (r, c')"
    using 1(1) next_message_empty [of "cs_chan s"] next_message_data [of "cs_chan s"] by (cases ms) blast+
  moreover have "\<exists>c'. unpark_one (cs_chan s) = Inr c'"
    using 1(2) unpark_one_empty [of "cs_chan s"] unpark_one_data [of "cs_chan s"] by (cases ps) blast+
  moreover have "\<exists>c'. dec_num_messages (cs_chan s) = Inr c'" if "cs_rx s = RxUnparked"
  proof -
    have "0 < msg_count (cs_chan s)" using that 1(4) by (simp add: in_hand_def rx_dropping_def)
    then show ?thesis using dec_num_messages_ok [of "cs_chan s"] by blast
  qed
  ultimately show ?thesis using 1(1,4) by blast
qed


theorem concurrent_count_exact_witness:
  "\<exists>s :: nat csys. creach s \<and> msg_count (cs_chan s) = 1"
proof -
  obtain s :: "nat csys" where s: "creach s" "cs_rx s = RxParked" "cs_reserved s = []"
    "queue_rep (i_message_queue (cs_chan s)) [7]" using creach_example by blast
  obtain ms where "queue_rep (i_message_queue (cs_chan s)) ms"
    "msg_count (cs_chan s) = length ms + length (cs_reserved s) + in_hand s"
    using concurrent_count_exact [OF s(1)] s(2) by (auto simp: rx_dropping_def)
  moreover then have "ms = [7]" using s(4) mq.rep_unique by blast
  ultimately show ?thesis using s by (auto simp: in_hand_def)
qed

end
