(* ===== verification/Sync_Atomic.thy ===== *)
theory Sync_Atomic
  imports Sync_Interleave "HOL-Library.Multiset"
begin

text \<open>
  The two models of the thread-safe channel agree.  The operations of \<open>Sync_Channel\<close>, which run alone
  from start to end, are runs of the interleaved system of \<open>Sync_Interleave\<close>; and whatever the interleaving, that
  system is a first-in-first-out queue of the messages that were accepted.
\<close>

section \<open>Operations as runs\<close>

text \<open>A message whose slot is reserved is pushed and signalled.\<close>

lemma recv_wakeup_frame: "recv_wakeup (c\<lparr>i_state := st\<rparr>) = recv_wakeup c" "recv_wakeup (c\<lparr>i_message_queue := q\<rparr>) = recv_wakeup c"
  by (simp_all add: recv_wakeup_def)

lemma push_signal_run:
  assumes "cs_reserved s = e # rs" and "queue_push_and_signal e (cs_chan s) = Inr c'"
  shows "cstep\<^sup>*\<^sup>* s (s\<lparr>cs_chan := c', cs_reserved := rs, cs_notified := note_signal s\<rparr>)"
proof -
  obtain q where q: "queue_push e (i_message_queue (cs_chan s)) = Inr q" "c' = signal ((cs_chan s)\<lparr>i_message_queue := q\<rparr>)"
    using assms(2) by (auto simp: queue_push_and_signal_def bind_exec_eq_Inr)
  let ?s1 = "s\<lparr>cs_chan := (cs_chan s)\<lparr>i_message_queue := q\<rparr>, cs_reserved := rs, cs_pushed := Suc (cs_pushed s)\<rparr>"
  have "cstep s ?s1" using cstep.push [of s "[]" e rs q] assms(1) q(1) by simp
  moreover have "cstep ?s1 (?s1\<lparr>cs_chan := signal (cs_chan ?s1), cs_pushed := cs_pushed s, cs_notified := note_signal ?s1\<rparr>)"
    by (rule cstep.signalled) simp
  moreover have "?s1\<lparr>cs_chan := signal (cs_chan ?s1), cs_pushed := cs_pushed s, cs_notified := note_signal ?s1\<rparr> =
      s\<lparr>cs_chan := c', cs_reserved := rs, cs_notified := note_signal s\<rparr>"
    using q(2) by (cases s) (simp add: note_signal_def recv_wakeup_frame)
  ultimately show ?thesis by (simp add: converse_rtranclp_into_rtranclp r_into_rtranclp)
qed

text \<open>The common end of the three ways to send: reserve a slot, push and signal.\<close>

lemma reserved_run:
  assumes "cstep s (s\<lparr>cs_chan := c1, cs_reserved := e # cs_reserved s\<rparr>)" and "c1 = (cs_chan s)\<lparr>i_state := st\<rparr>"
    and "queue_push_and_signal e c1 = Inr c'"
  shows "cstep\<^sup>*\<^sup>* s (s\<lparr>cs_chan := c', cs_notified := note_signal s\<rparr>)"
proof -
  let ?s1 = "s\<lparr>cs_chan := c1, cs_reserved := e # cs_reserved s\<rparr>"
  have "?s1\<lparr>cs_chan := c', cs_reserved := cs_reserved s, cs_notified := note_signal ?s1\<rparr> = s\<lparr>cs_chan := c', cs_notified := note_signal s\<rparr>"
    using assms(2) by (cases s) (simp add: note_signal_def recv_wakeup_frame)
  then show ?thesis using push_signal_run [of ?s1 e "cs_reserved s" c'] assms(1,3)
    by (simp add: converse_rtranclp_into_rtranclp)
qed

lemma do_send_run:
  assumes "sync_do_send pack m (cs_chan s) = Inr (r, c')" and "msg_count (cs_chan s) + 1 < 2 ^ 63"
  shows "\<exists>nt. cstep\<^sup>*\<^sup>* s (s\<lparr>cs_chan := c', cs_notified := nt\<rparr>)"
proof (cases "chan_open (cs_chan s)")
  case True
  obtain b st where i: "inc_num_messages_force (cs_chan s) = (Some b, (cs_chan s)\<lparr>i_state := st\<rparr>)"
    using inc_num_messages_force_open [OF True assms(2)] by blast
  then have "queue_push_and_signal (pack m None) ((cs_chan s)\<lparr>i_state := st\<rparr>) = Inr c'"
    using assms(1) by (auto simp: sync_do_send_def bind_exec_eq_Inr)
  from reserved_run [OF cstep.reserve_force [OF i assms(2)] refl this] show ?thesis ..
next
  case False
  then have "s\<lparr>cs_chan := c', cs_notified := cs_notified s\<rparr> = s" using assms(1) by (simp add: sync_do_send_closed)
  then show ?thesis by (metis rtranclp.rtrancl_refl)
qed

text \<open>What \<^verbatim>\<open>try_send\<close> and \<^verbatim>\<open>send\<close> share: the poll of the sender's own cell, the reservation, then a push, a park or nothing.\<close>

definition send_steps ::
  "task \<Rightarrow> 'e \<Rightarrow> bool \<Rightarrow> SyncAddressSender \<Rightarrow> 'e Chan \<Rightarrow> 'e Chan exec" where
  "send_steps cur e do_park tx c =
     (let (a, tx1, c1) = poll_unparked cur False tx c in
      if \<not> is_ready a then Inr c1
      else let (r, c2) = inc_num_messages c1 in
        case r of
          None \<Rightarrow> Inr c2
        | Some True \<Rightarrow> if do_park then bind_exec (park cur True tx1 c2) (\<lambda>(_, c3). Inr c3) else Inr c2
        | Some False \<Rightarrow> queue_push_and_signal e c2)"

lemma send_steps_try: "sync_try_send pack cur m do_park tx c = Inr (r, tx', c') \<Longrightarrow> send_steps cur (pack m None) do_park tx c = Inr c'"
  by (auto simp: sync_try_send_def send_steps_def bind_exec_eq_Inr Let_def split: prod.splits if_splits option.splits bool.splits)

lemma send_steps_send: "sync_send pack cur (otx, rx) m tx c = Inr (r, tx', c') \<Longrightarrow> send_steps cur (pack m (Some otx)) True tx c = Inr c'"
  by (auto simp: sync_send_def send_steps_def bind_exec_eq_Inr Let_def split: prod.splits if_splits option.splits bool.splits)

lemma inc_num_messages_unchanged: "inc_num_messages c = (r, c') \<Longrightarrow> r \<noteq> Some False \<Longrightarrow> c' = c"
  by (auto simp: inc_num_messages_def inc_loop.simps [of _ "i_state c" "i_state c"] Let_def split: if_splits)

lemma saw_full_park_run:
  assumes "inc_num_messages (cs_chan s) = (Some True, c2)" and "park cur True tx c2 = Inr (tx', c')"
  shows "cstep\<^sup>*\<^sup>* s (s\<lparr>cs_chan := c'\<rparr>)"
proof -
  let ?s1 = "s\<lparr>cs_chan := c2, cs_full := Suc (cs_full s)\<rparr>"
  have "cstep s ?s1" by (rule cstep.saw_full [OF assms(1)])
  moreover have "cstep ?s1 (?s1\<lparr>cs_chan := c', cs_full := cs_full s\<rparr>)" using assms(2) by (intro cstep.sender_park) auto
  ultimately show ?thesis by (auto intro: converse_rtranclp_into_rtranclp)
qed

lemma inc_run:
  assumes "inc_num_messages (cs_chan s) = (r, c2)" and "msg_count (cs_chan s) + 1 < 2 ^ 63"
    and "(case r of None \<Rightarrow> Inr c2
        | Some True \<Rightarrow> if do_park then bind_exec (park cur True tx c2) (\<lambda>(_, c3). Inr c3) else Inr c2
        | Some False \<Rightarrow> queue_push_and_signal e c2) = Inr c'"
  shows "\<exists>nt. cstep\<^sup>*\<^sup>* s (s\<lparr>cs_chan := c', cs_notified := nt\<rparr>)"
proof -
  have same: "\<exists>nt. cstep\<^sup>*\<^sup>* s (s\<lparr>cs_chan := cs_chan s, cs_notified := nt\<rparr>)" by (rule exI [of _ "cs_notified s"]) simp
  consider "r = Some False" | "r = Some True" "do_park" | "r \<noteq> Some False" "c' = c2"
    using assms(3) by (auto split: option.splits bool.splits if_splits)
  then show ?thesis
  proof cases
    case 1
    have c2: "c2 = (cs_chan s)\<lparr>i_state := i_state c2\<rparr>" using assms(1) by (auto simp: inc_num_messages_def split: prod.splits)
    have "cstep s (s\<lparr>cs_chan := c2, cs_reserved := e # cs_reserved s\<rparr>)" using assms(1,2) 1 by (intro cstep.reserve) auto
    from reserved_run [OF this c2, of c'] show ?thesis using assms(3) 1 by auto
  next
    case 2
    then obtain tx' where "park cur True tx c2 = Inr (tx', c')" using assms(3) by (auto simp: bind_exec_eq_Inr)
    from saw_full_park_run [OF _ this] have "cstep\<^sup>*\<^sup>* s (s\<lparr>cs_chan := c', cs_notified := cs_notified s\<rparr>)" using assms(1) 2 by simp
    then show ?thesis ..
  next
    case 3
    then show ?thesis using inc_num_messages_unchanged [OF assms(1)] same by simp
  qed
qed

lemma send_steps_run:
  assumes "send_steps cur e do_park tx (cs_chan s) = Inr c'" and "msg_count (cs_chan s) + 1 < 2 ^ 63"
  shows "\<exists>nt. cstep\<^sup>*\<^sup>* s (s\<lparr>cs_chan := c', cs_notified := nt\<rparr>)"
proof -
  obtain a tx1 c1 where p: "poll_unparked cur False tx (cs_chan s) = (a, tx1, c1)" by (metis prod_cases3)
  let ?s1 = "s\<lparr>cs_chan := c1\<rparr>"
  have s1: "cstep s ?s1" by (rule cstep.sender_repoll [OF p])
  have n: "msg_count c1 + 1 < 2 ^ 63" using poll_unparked_frame [OF p] assms(2) by (auto simp: msg_count_def)
  have "\<exists>nt. cstep\<^sup>*\<^sup>* ?s1 (?s1\<lparr>cs_chan := c', cs_notified := nt\<rparr>)"
  proof (cases "is_ready a")
    case False
    then show ?thesis using assms(1) p by (intro exI [of _ "cs_notified s"]) (simp add: send_steps_def)
  next
    case True
    then show ?thesis using inc_run [of ?s1] n assms(1) p by (auto simp: send_steps_def Let_def split: prod.splits)
  qed
  then show ?thesis using s1 by (auto intro: converse_rtranclp_into_rtranclp)
qed

text \<open>A poll, from the head of the loop.\<close>

definition poll_pc :: "('e option, unit) Poll \<Rightarrow> rx_pc" where
  "poll_pc r = (if r = PNotReady then RxParked else RxIdle)"

lemma poll_loop_run:
  "\<lbrakk>sync_poll_loop k cur (cs_chan s) = Inr (r, c'); cs_rx s = RxActive\<rbrakk> \<Longrightarrow>
   cstep\<^sup>*\<^sup>* s (s\<lparr>cs_chan := c', cs_rx := poll_pc r\<rparr>)"
proof (induction k arbitrary: s)
  case (Suc k)
  obtain m c1 where 1: "next_message (cs_chan s) = Inr (m, c1)" using Suc.prems by (auto simp: bind_exec_eq_Inr)
  show ?case
  proof (cases m)
    case (Ready msg)
    then obtain e where m: "m = Ready (Some e)" using 1 by (auto simp: next_message_def bind_exec_eq_Inr Let_def split: option.splits)
    obtain c2 where 2: "unpark_one c1 = Inr c2" "dec_num_messages c2 = Inr c'" "r = PReady (Some e)"
      using Suc.prems 1 m by (auto simp: bind_exec_eq_Inr)
    let ?s1 = "s\<lparr>cs_chan := c1, cs_rx := RxGot\<rparr>" and ?s2 = "s\<lparr>cs_chan := c2, cs_rx := RxUnparked\<rparr>"
    have "cstep s ?s1" using 1 m Suc.prems(2) by (intro cstep.rx_data) auto
    moreover have "cstep ?s1 ?s2" using cstep.rx_unpark [of ?s1 c2] 2(1) by simp
    moreover have "cstep ?s2 (s\<lparr>cs_chan := c', cs_rx := RxIdle\<rparr>)" using cstep.rx_dec [of ?s2 c'] 2(2) by simp
    ultimately show ?thesis using 2(3) by (auto simp: poll_pc_def intro: converse_rtranclp_into_rtranclp)
  next
    case NotReady
    let ?s1 = "s\<lparr>cs_chan := c1, cs_rx := RxSawEmpty\<rparr>"
    have s1: "cstep s ?s1" using 1 NotReady Suc.prems(2) by (intro cstep.rx_empty) auto
    obtain tp c2 where t: "try_park cur c1 = (tp, c2)" by force
    show ?thesis
    proof (cases tp)
      case Parked
      then have "cstep ?s1 (s\<lparr>cs_chan := c', cs_rx := poll_pc r\<rparr>)"
        using Suc.prems(1) 1 NotReady t cstep.rx_parked [of ?s1 cur c2] by (auto simp: poll_pc_def)
      then show ?thesis using s1 by (auto intro: converse_rtranclp_into_rtranclp)
    next
      case NotEmpty
      let ?s2 = "s\<lparr>cs_chan := c2, cs_rx := RxActive\<rparr>"
      have "cstep ?s1 ?s2" using t NotEmpty cstep.rx_retry [of ?s1 cur c2] by simp
      moreover have "cstep\<^sup>*\<^sup>* ?s2 (s\<lparr>cs_chan := c', cs_rx := poll_pc r\<rparr>)"
        using Suc.IH [of ?s2] Suc.prems(1) 1 NotReady t NotEmpty by simp
      ultimately show ?thesis using s1 by (auto intro: converse_rtranclp_into_rtranclp)
    qed
  qed
qed simp

lemma poll_run:
  assumes "sync_poll cur (cs_chan s) = Inr (r, c')" and "rx_free (cs_rx s)"
  shows "cstep\<^sup>*\<^sup>* s (s\<lparr>cs_chan := c', cs_rx := poll_pc r, cs_notified := False\<rparr>)"
proof -
  let ?s1 = "s\<lparr>cs_rx := RxActive, cs_notified := False\<rparr>"
  have "cstep\<^sup>*\<^sup>* ?s1 (?s1\<lparr>cs_chan := c', cs_rx := poll_pc r\<rparr>)" using assms(1) by (intro poll_loop_run [of 2 cur]) (simp_all add: sync_poll_def)
  moreover have "?s1\<lparr>cs_chan := c', cs_rx := poll_pc r\<rparr> = s\<lparr>cs_chan := c', cs_rx := poll_pc r, cs_notified := False\<rparr>" by (cases s) simp
  ultimately show ?thesis using cstep.rx_poll [OF assms(2)] by (simp add: converse_rtranclp_into_rtranclp)
qed

text \<open>The drop of the receiver; its two loops.\<close>

lemma wake_run:
  "\<lbrakk>wake_all k (cs_chan s) = Inr c'; cs_rx s = RxClosing; queue_rep (i_parked_queue (cs_chan s)) ps\<rbrakk> \<Longrightarrow>
   cstep\<^sup>*\<^sup>* s (s\<lparr>cs_chan := c', cs_rx := RxDraining\<rparr>)"
proof (induction k arbitrary: s ps)
  case (Suc k)
  show ?case
  proof (cases ps)
    case Nil
    then have e: "queue_pop (i_parked_queue (cs_chan s)) = Inr (Empty, i_parked_queue (cs_chan s))" using Suc.prems mq.pop_empty by blast
    then have "c' = (cs_chan s)\<lparr>i_parked_queue := i_parked_queue (cs_chan s)\<rparr>" using Suc.prems(1) by simp
    then show ?thesis using cstep.rx_woken [OF Suc.prems(2) e] by (simp only: r_into_rtranclp)
  next
    case (Cons p ps')
    then obtain q where q: "queue_pop (i_parked_queue (cs_chan s)) = Inr (Data p, q)" "queue_rep q ps'"
      using Suc.prems(3) mq.pop_data [of "i_parked_queue (cs_chan s)" p ps'] by auto
    let ?s1 = "s\<lparr>cs_chan := notify_cell p ((cs_chan s)\<lparr>i_parked_queue := q\<rparr>)\<rparr>"
    have "cstep s ?s1" by (rule cstep.rx_wake [OF Suc.prems(2) q(1)])
    moreover have "cstep\<^sup>*\<^sup>* ?s1 (?s1\<lparr>cs_chan := c', cs_rx := RxDraining\<rparr>)"
      using Suc.prems q by (intro Suc.IH [where ps = ps']) auto
    ultimately show ?thesis by (auto intro: converse_rtranclp_into_rtranclp)
  qed
qed simp

lemma drain_run:
  "\<lbrakk>drain k (cs_chan s) = Inr c'; cs_rx s = RxDraining\<rbrakk> \<Longrightarrow> cstep\<^sup>*\<^sup>* s (s\<lparr>cs_chan := c', cs_rx := RxGone\<rparr>)"
proof (induction k arbitrary: s)
  case (Suc k)
  obtain m c1 where 1: "next_message (cs_chan s) = Inr (m, c1)" using Suc.prems by (auto simp: bind_exec_eq_Inr)
  show ?case
  proof (cases m)
    case (Ready msg)
    then have "cstep s (s\<lparr>cs_chan := c1\<rparr>)" using cstep.rx_drain Suc.prems 1 by blast
    moreover have "cstep\<^sup>*\<^sup>* (s\<lparr>cs_chan := c1\<rparr>) (s\<lparr>cs_chan := c', cs_rx := RxGone\<rparr>)"
      using Suc.IH [of "s\<lparr>cs_chan := c1\<rparr>"] Suc.prems 1 Ready by simp
    ultimately show ?thesis by (rule converse_rtranclp_into_rtranclp)
  next
    case NotReady
    then show ?thesis using cstep.rx_drained [of s c1] Suc.prems 1 by auto
  qed
qed simp

lemma rx_drop_run:
  assumes "sync_rx_drop (cs_chan s) = Inr c'" and "rx_free (cs_rx s)" and "queue_rep (i_parked_queue (cs_chan s)) ps"
  shows "cstep\<^sup>*\<^sup>* s (s\<lparr>cs_chan := c', cs_rx := RxGone\<rparr>)"
proof -
  let ?c1 = "(cs_chan s)\<lparr>i_state := close_loop (i_state (cs_chan s)) (i_state (cs_chan s)) []\<rparr>"
  obtain c2 where 2: "wake_all (q_brk (i_parked_queue ?c1)) ?c1 = Inr c2" "drain (q_brk (i_message_queue c2)) c2 = Inr c'"
    using assms(1) by (auto simp: sync_rx_drop_def Let_def bind_exec_eq_Inr)
  have "cstep s (s\<lparr>cs_chan := ?c1, cs_rx := RxClosing\<rparr>)" by (rule cstep.rx_close [OF assms(2)])
  also have "cstep\<^sup>*\<^sup>* \<dots> (s\<lparr>cs_chan := c2, cs_rx := RxDraining\<rparr>)"
    using wake_run [of _ "s\<lparr>cs_chan := ?c1, cs_rx := RxClosing\<rparr>" c2 ps] 2(1) assms(3) by simp
  also have "cstep\<^sup>*\<^sup>* \<dots> (s\<lparr>cs_chan := c', cs_rx := RxGone\<rparr>)"
    using drain_run [of _ "s\<lparr>cs_chan := c2, cs_rx := RxDraining\<rparr>" c'] 2(2) by simp
  finally show ?thesis .
qed

section \<open>Operations return\<close>

lemma push_signal_returns: "queue_rep (i_message_queue c) ms \<Longrightarrow> \<exists>c'. queue_push_and_signal e c = Inr c'"
  using mq.push_rep [of "i_message_queue c" ms e] by (auto simp: queue_push_and_signal_def)

lemma sends_return:
  assumes "queue_rep (i_message_queue c) ms" and "queue_rep (i_parked_queue c) ps"
  shows "\<exists>r c'. sync_do_send pack m c = Inr (r, c')" "\<exists>r tx' c'. sync_try_send pack cur m do_park tx c = Inr (r, tx', c')"
    "\<exists>r tx' c'. sync_send pack cur (otx, rx) m tx c = Inr (r, tx', c')"
proof -
  have i: "i_message_queue c2 = i_message_queue c1 \<and> i_parked_queue c2 = i_parked_queue c1"
    if "inc_num_messages c1 = (r, c2) \<or> inc_num_messages_force c1 = (r, c2)" for c1 c2 :: "'a Chan" and r
    using that by (auto simp: inc_num_messages_def inc_num_messages_force_def split: prod.splits)
  have pu: "\<exists>c3. queue_push_and_signal e c2 = Inr c3" if "i_message_queue c2 = i_message_queue c" for c2 e
    using push_signal_returns [of c2 ms e] assms(1) that by simp
  have pa: "\<exists>tx' c3. park cur True tx c2 = Inr (tx', c3)" if "i_parked_queue c2 = i_parked_queue c" for c2 tx
    using park_ok [of c2 ps cur True tx] assms(2) that by auto
  show "\<exists>r c'. sync_do_send pack m c = Inr (r, c')"
  proof -
    obtain r c2 where f: "inc_num_messages_force c = (r, c2)" by force
    then obtain c3 where "queue_push_and_signal (pack m None) c2 = Inr c3" using pu i by metis
    then show ?thesis using f by (simp add: sync_do_send_def split: option.splits)
  qed
  obtain a tx1 c1 where p: "poll_unparked cur False tx c = (a, tx1, c1)" by (metis prod_cases3)
  then have c1: "i_message_queue c1 = i_message_queue c" "i_parked_queue c1 = i_parked_queue c" using poll_unparked_frame by fastforce+
  obtain r c2 where n: "inc_num_messages c1 = (r, c2)" by force
  obtain c3 where 3: "queue_push_and_signal (pack m None) c2 = Inr c3" using pu i n c1 by metis
  obtain c4 where 4: "queue_push_and_signal (pack m (Some otx)) c2 = Inr c4" using pu i n c1 by metis
  obtain tx5 c5 where 5: "park cur True tx1 c2 = Inr (tx5, c5)" using pa i n c1 by metis
  show "\<exists>r tx' c'. sync_try_send pack cur m do_park tx c = Inr (r, tx', c')"
    using p n 3 5 by (simp add: sync_try_send_def split: option.splits)
  show "\<exists>r tx' c'. sync_send pack cur (otx, rx) m tx c = Inr (r, tx', c')"
    using p n 4 5 by (simp add: sync_send_def split: option.splits)
qed

lemma poll_returns:
  assumes "csys_rep s ms ps" and "rx_free (cs_rx s)"
  shows "\<exists>r c'. sync_poll cur (cs_chan s) = Inr (r, c')"
proof (cases ms)
  case Nil
  then have "next_message c = Inr (NotReady, c)" if "i_message_queue c = i_message_queue (cs_chan s)" for c
    using that csys_repD(1) [OF assms(1)] next_message_empty [of c] by simp
  then show ?thesis by (simp add: sync_poll_def numeral_2_eq_2 try_park_def)
next
  case (Cons m ms')
  then obtain q where q: "next_message (cs_chan s) = Inr (Ready (Some m), (cs_chan s)\<lparr>i_message_queue := q\<rparr>)"
    using csys_repD(1) [OF assms(1)] next_message_data [of "cs_chan s" m ms'] by auto
  obtain c2 where 2: "unpark_one ((cs_chan s)\<lparr>i_message_queue := q\<rparr>) = Inr c2"
    using csys_repD(2) [OF assms(1)] unpark_one_empty [of "(cs_chan s)\<lparr>i_message_queue := q\<rparr>"]
      unpark_one_data [of "(cs_chan s)\<lparr>i_message_queue := q\<rparr>"] by (cases ps) fastforce+
  have "\<not> rx_dropping (cs_rx s)" using assms(2) by (auto simp: rx_free_def rx_dropping_def)
  then have "0 < msg_count (cs_chan s)" using csys_repD(4) [OF assms(1)] Cons by simp
  then have "0 < msg_count c2" using unpark_one_frame [OF 2] csys_repD(2) [OF assms(1)] by (simp add: msg_count_def)
  then obtain c3 where "dec_num_messages c2 = Inr c3" using dec_num_messages_ok by blast
  then show ?thesis using q 2 by (simp add: sync_poll_def numeral_2_eq_2)
qed

lemma rx_drop_returns:
  assumes "queue_rep (i_message_queue c) ms" and "queue_rep (i_parked_queue c) ps"
  shows "\<exists>c'. sync_rx_drop c = Inr c'"
proof -
  let ?c1 = "c\<lparr>i_state := close_loop (i_state c) (i_state c) []\<rparr>"
  obtain q where q: "wake_all (q_brk (i_parked_queue ?c1)) ?c1 = Inr ((fold notify_cell ps ?c1)\<lparr>i_parked_queue := q\<rparr>)"
    using wake_all_fuel [of ?c1 ps] mq.rep_bound [OF assms(2)] assms(2) by auto
  let ?c2 = "(fold notify_cell ps ?c1)\<lparr>i_parked_queue := q\<rparr>"
  have "queue_rep (i_message_queue ?c2) ms" using assms(1) by simp
  from drain_fuel [OF this mq.rep_bound [OF this]] show ?thesis using q by (auto simp: sync_rx_drop_def Let_def)
qed

text \<open>C15: Running alone is a special case of running interleaved.  From every reachable state of the interleaved system whose
  receiver is not being dropped, each operation of the sequential model returns, without a panic, and is a run of atomic steps
  that ends with the channel the operation computes; a poll ends with the receiver parked if it was \<^verbatim>\<open>NotReady\<close> and
  idle otherwise, the drop with the receiver gone.  So what is proved of all interleavings holds for the operations, and the
  two models describe one channel.\<close>

theorem operations_are_interleavings:
  assumes "creach s" and "rx_free (cs_rx s)" and "msg_count (cs_chan s) + 1 < 2 ^ 63"
  shows "(\<exists>r c' nt. sync_do_send pack m (cs_chan s) = Inr (r, c') \<and> cstep\<^sup>*\<^sup>* s (s\<lparr>cs_chan := c', cs_notified := nt\<rparr>)) \<and>
    (\<exists>r tx' c' nt. sync_try_send pack cur m do_park tx (cs_chan s) = Inr (r, tx', c') \<and> cstep\<^sup>*\<^sup>* s (s\<lparr>cs_chan := c', cs_notified := nt\<rparr>)) \<and>
    (\<exists>r tx' c' nt. sync_send pack cur (otx, rx) m tx (cs_chan s) = Inr (r, tx', c') \<and> cstep\<^sup>*\<^sup>* s (s\<lparr>cs_chan := c', cs_notified := nt\<rparr>)) \<and>
    (\<exists>r c'. sync_poll cur (cs_chan s) = Inr (r, c') \<and>
      cstep\<^sup>*\<^sup>* s (s\<lparr>cs_chan := c', cs_rx := (if r = PNotReady then RxParked else RxIdle), cs_notified := False\<rparr>)) \<and>
    (\<exists>c'. sync_rx_drop (cs_chan s) = Inr c' \<and> cstep\<^sup>*\<^sup>* s (s\<lparr>cs_chan := c', cs_rx := RxGone\<rparr>))"
proof -
  from creach_inv [OF assms(1)] obtain ms ps where rep: "csys_rep s ms ps" by (rule csys_invE)
  note q = csys_repD(1,2) [OF rep]
  note ret = sends_return [OF q] poll_returns [OF rep assms(2), of cur] rx_drop_returns [OF q]
  have "\<exists>r c' nt. sync_do_send pack m (cs_chan s) = Inr (r, c') \<and> cstep\<^sup>*\<^sup>* s (s\<lparr>cs_chan := c', cs_notified := nt\<rparr>)"
    using ret(1) [of pack m] do_send_run [OF _ assms(3), of pack m] by blast
  moreover have "\<exists>r tx' c' nt. sync_try_send pack cur m do_park tx (cs_chan s) = Inr (r, tx', c') \<and> cstep\<^sup>*\<^sup>* s (s\<lparr>cs_chan := c', cs_notified := nt\<rparr>)"
    using ret(2) [of pack cur m do_park tx] send_steps_run [OF send_steps_try assms(3), of pack cur m do_park tx] by blast
  moreover have "\<exists>r tx' c' nt. sync_send pack cur (otx, rx) m tx (cs_chan s) = Inr (r, tx', c') \<and> cstep\<^sup>*\<^sup>* s (s\<lparr>cs_chan := c', cs_notified := nt\<rparr>)"
    using ret(3) [of pack cur otx rx m tx] send_steps_run [OF send_steps_send assms(3), of pack cur otx rx m tx] by blast
  moreover have "\<exists>r c'. sync_poll cur (cs_chan s) = Inr (r, c') \<and>
      cstep\<^sup>*\<^sup>* s (s\<lparr>cs_chan := c', cs_rx := (if r = PNotReady then RxParked else RxIdle), cs_notified := False\<rparr>)"
    using ret(4) poll_run [OF _ assms(2), of cur] unfolding poll_pc_def by blast
  moreover have "\<exists>c'. sync_rx_drop (cs_chan s) = Inr c' \<and> cstep\<^sup>*\<^sup>* s (s\<lparr>cs_chan := c', cs_rx := RxGone\<rparr>)"
    using ret(5) rx_drop_run [OF _ assms(2) q(2)] by blast
  ultimately show ?thesis by blast
qed

text \<open>The interleaved system of a new channel.\<close>

theorem operations_are_interleavings_witness:
  "\<exists>(s :: nat csys) r c'. creach s \<and> sync_poll 3 (cs_chan s) = Inr (r, c') \<and>
     cstep\<^sup>*\<^sup>* s (s\<lparr>cs_chan := c', cs_rx := (if r = PNotReady then RxParked else RxIdle), cs_notified := False\<rparr>)"
proof -
  obtain s :: "nat csys" where s: "creach s" "cs_rx s = RxParked" "cs_reserved s = []" "queue_rep (i_message_queue (cs_chan s)) [7]"
    using creach_example by blast
  from creach_inv [OF s(1)] obtain ms ps where rep: "csys_rep s ms ps" by (rule csys_invE)
  have "ms = [7]" using csys_repD(1) [OF rep] s(4) mq.rep_unique by blast
  then have "msg_count (cs_chan s) + 1 < 2 ^ 63" using csys_repD(4) [OF rep] s(2,3) by (simp add: rx_dropping_def in_hand_def)
  from operations_are_interleavings [OF s(1) _ this, where pack = "\<lambda>m _. m" and m = 0 and cur = 3 and do_park = True
      and tx = "\<lparr>s_cell = 0, s_maybe_parked = False\<rparr>" and otx = "()" and rx = "()"] s
  show ?thesis unfolding rx_free_def by blast
qed

section \<open>Histories\<close>

text \<open>
  A run with its history: the messages accepted (their slot was reserved), pushed and taken, in the order in
  which it happened.
\<close>

record 'e history =
  h_accepted :: "'e list"
  h_pushed :: "'e list"
  h_taken :: "'e list"

inductive crun :: "'e csys \<Rightarrow> 'e history \<Rightarrow> bool" where
  run_new: "channel buffer = Inr (tx, c) \<Longrightarrow> crun (csys_init c) \<lparr>h_accepted = [], h_pushed = [], h_taken = []\<rparr>"
| run_accept: "\<lbrakk>crun s h; cstep s s'; i_message_queue (cs_chan s') = i_message_queue (cs_chan s); cs_reserved s' = e # cs_reserved s\<rbrakk> \<Longrightarrow>
    crun s' (h\<lparr>h_accepted := h_accepted h @ [e]\<rparr>)"
| run_push: "\<lbrakk>crun s h; cstep s s'; cs_reserved s = xs @ e # ys; cs_reserved s' = xs @ ys;
      queue_push e (i_message_queue (cs_chan s)) = Inr (i_message_queue (cs_chan s'))\<rbrakk> \<Longrightarrow>
    crun s' (h\<lparr>h_pushed := h_pushed h @ [e]\<rparr>)"
| run_take: "\<lbrakk>crun s h; cstep s s'; cs_reserved s' = cs_reserved s;
      next_message (cs_chan s) = Inr (Ready (Some m), cs_chan s')\<rbrakk> \<Longrightarrow>
    crun s' (h\<lparr>h_taken := h_taken h @ [m]\<rparr>)"
| run_other: "\<lbrakk>crun s h; cstep s s'; cs_reserved s' = cs_reserved s; i_message_queue (cs_chan s') = i_message_queue (cs_chan s)\<rbrakk> \<Longrightarrow>
    crun s' h"

lemma crun_reach: "crun s h \<Longrightarrow> creach s"
  by (induction rule: crun.induct) (auto intro: creach.intros)

text \<open>What senders and receiver do beside pushing and taking leaves the messages alone.\<close>

lemma message_frames:
  "i_message_queue (signal c) = i_message_queue c" "i_message_queue (sync_tx_drop c) = i_message_queue c"
  "inc_num_messages c = (b, c') \<Longrightarrow> i_message_queue c' = i_message_queue c"
  "inc_num_messages_force c = (b', c') \<Longrightarrow> i_message_queue c' = i_message_queue c"
  "park cur do_park tx c = Inr (tx', c') \<Longrightarrow> i_message_queue c' = i_message_queue c"
  "poll_unparked cur do_park tx c = (a, tx', c') \<Longrightarrow> i_message_queue c' = i_message_queue c"
  "sync_clone c = Inr (tx', c') \<Longrightarrow> i_message_queue c' = i_message_queue c"
  "sync_sender c = Inr (tx', c') \<Longrightarrow> i_message_queue c' = i_message_queue c"
  "unpark_one c = Inr c' \<Longrightarrow> i_message_queue c' = i_message_queue c"
  "dec_num_messages c = Inr c' \<Longrightarrow> i_message_queue c' = i_message_queue c"
  "try_park cur c = (tp, c') \<Longrightarrow> i_message_queue c' = i_message_queue c"
  by (auto simp: signal_def sync_tx_drop_def inc_num_messages_def inc_num_messages_force_def park_def poll_unparked_def sync_clone_def
      sync_sender_def new_sender_def unpark_one_def dec_num_messages_def try_park_def bind_exec_eq_Inr Let_def
      split: if_splits prod.splits option.splits)

text \<open>Every step extends the history in one of these ways, so every reachable state has one.\<close>

lemma crun_step:
  assumes "crun s h" and "cstep s s'"
  shows "\<exists>h'. crun s' h'"
proof -
  from creach_inv [OF crun_reach [OF assms(1)]] obtain ms ps where rep: "csys_rep s ms ps" by (rule csys_invE)
  note q = csys_repD(1,2) [OF rep]
  have other: ?thesis if "cs_reserved s' = cs_reserved s" "i_message_queue (cs_chan s') = i_message_queue (cs_chan s)"
    using crun.run_other [OF assms that] by blast
  from assms(2) show ?thesis
  proof cases
    case (reserve c' e)
    then show ?thesis using crun.run_accept [OF assms, of e] message_frames(3) by auto
  next
    case (reserve_force b c' e)
    then show ?thesis using crun.run_accept [OF assms, of e] message_frames(4) by auto
  next
    case (push xs e ys q)
    then show ?thesis using crun.run_push [OF assms, of xs e ys] by auto
  next
    case (rx_data m c')
    then show ?thesis using crun.run_take [OF assms, of m] by auto
  next
    case (rx_drain m c')
    then obtain e where "m = Some e" using next_message_inv [OF _ q(1)] by (auto split: list.splits)
    then show ?thesis using rx_drain crun.run_take [OF assms, of e] by auto
  next
    case (rx_empty c')
    then show ?thesis using next_message_inv [OF _ q(1)] next_message_empty [of "cs_chan s"] q(1) other by (auto split: list.splits)
  next
    case (rx_drained c')
    then show ?thesis using next_message_inv [OF _ q(1)] next_message_empty [of "cs_chan s"] q(1) other by (auto split: list.splits)
  next
    case (rx_capacity cap c')
    then show ?thesis using set_capacity_frame [OF _ q(2)] other by auto
  qed (use other in \<open>auto simp: message_frames\<close>)
qed

lemma creach_crun: "creach s \<Longrightarrow> \<exists>h. crun s h"
  by (induction rule: creach.induct) (auto intro: crun.run_new dest: crun_step)

lemma crun_fifo:
  "crun s h \<Longrightarrow> \<exists>ms. queue_rep (i_message_queue (cs_chan s)) ms \<and> h_pushed h = h_taken h @ ms \<and>
     mset (h_accepted h) = mset (h_pushed h) + mset (cs_reserved s)"
proof (induction rule: crun.induct)
  case (run_new buffer tx c)
  then show ?case using channel_rep [of buffer tx c] by (auto simp: csys_init_def sync_chan_rep_def chan_wf_def)
next
  case (run_push s h s' xs e ys)
  then obtain ms where ms: "queue_rep (i_message_queue (cs_chan s)) ms" "h_pushed h = h_taken h @ ms"
    "mset (h_accepted h) = mset (h_pushed h) + mset (cs_reserved s)" by blast
  have "queue_rep (i_message_queue (cs_chan s')) (ms @ [e])" using mq.push_rep [OF ms(1), of e] run_push.hyps(5) by auto
  then show ?case using ms run_push.hyps(3,4) by auto
next
  case (run_take s h s' m)
  then obtain ms where ms: "queue_rep (i_message_queue (cs_chan s)) ms" "h_pushed h = h_taken h @ ms"
    "mset (h_accepted h) = mset (h_pushed h) + mset (cs_reserved s)" by blast
  from next_message_inv [OF run_take.hyps(4) ms(1)]
  obtain ms' where "ms = m # ms'" "queue_rep (i_message_queue (cs_chan s')) ms'" by (auto split: list.splits)
  then show ?case using ms run_take.hyps(3) by auto
qed auto

text \<open>C14: The channel is a first-in-first-out queue under every interleaving of senders and receiver.  The messages taken by the
  receiver, followed by those in the queue, are the messages pushed, in the order of the pushes; and the messages accepted are those
  pushed and those of senders between reservation and push, so none is lost, duplicated or made up.  Every
  step extends the history, so this holds of every reachable state.\<close>

theorem concurrent_channel_fifo:
  assumes "crun s h"
  shows "(\<exists>ms. queue_rep (i_message_queue (cs_chan s)) ms \<and> h_pushed h = h_taken h @ ms) \<and>
    mset (h_accepted h) = mset (h_pushed h) + mset (cs_reserved s) \<and>
    creach s \<and> (\<forall>s'. cstep s s' \<longrightarrow> (\<exists>h'. crun s' h'))"
  using crun_fifo [OF assms] crun_reach [OF assms] crun_step [OF assms] by blast

theorem concurrent_channel_fifo_witness:
  "\<exists>(s :: nat csys) h. crun s h \<and> h_pushed h = h_taken h @ [7] \<and> mset (h_accepted h) = mset (h_pushed h)"
proof -
  obtain s :: "nat csys" where s: "creach s" "cs_reserved s = []" "queue_rep (i_message_queue (cs_chan s)) [7]"
    using creach_example by blast
  obtain h where h: "crun s h" using creach_crun [OF s(1)] by blast
  from concurrent_channel_fifo [OF h] obtain ms where ms: "queue_rep (i_message_queue (cs_chan s)) ms" "h_pushed h = h_taken h @ ms"
    "mset (h_accepted h) = mset (h_pushed h) + mset (cs_reserved s)" by blast
  have "ms = [7]" by (rule mq.rep_unique [OF ms(1) s(3)])
  with h ms(2,3) s(2) show ?thesis by (intro exI [of _ s] exI [of _ h]) simp
qed

end
