(* ===== verification/Sync_Races.thy ===== *)
theory Sync_Races
  imports Sync_Interleave "HOL-Library.Multiset"
begin

text \<open>
  Two windows of the thread-safe channel (\<^verbatim>\<open>src/address/sync_channel.rs\<close>) that the interleavings of
  \<open>Sync_Interleave\<close> reach: between the reading of a full channel and the parking of the sender, and between
  the reservation of a slot and the push of the message while the receiver is dropped.
\<close>

section \<open>A sender that parks too late\<close>

text \<open>Steps in which no new message is reserved, the capacity stays and the receiver is not dropped.\<close>

definition quiet_step :: "'e csys \<Rightarrow> 'e csys \<Rightarrow> bool" where
  "quiet_step s s' \<longleftrightarrow> cstep s s' \<and> cs_reserved s' = [] \<and> i_buffer (cs_chan s') = i_buffer (cs_chan s) \<and>
     \<not> rx_dropping (cs_rx s')"

definition cell_parked :: "nat \<Rightarrow> 'e csys \<Rightarrow> bool" where
  "cell_parked k s \<longleftrightarrow> st_is_parked (ch_cells (cs_chan s) k) \<and> k < ch_next_cell (cs_chan s)"

definition stuck_sender :: "nat \<Rightarrow> 'e csys \<Rightarrow> bool" where
  "stuck_sender k s \<longleftrightarrow> csys_inv s \<and> queue_rep (i_message_queue (cs_chan s)) [] \<and> cs_reserved s = [] \<and>
     in_hand s = 0 \<and> \<not> rx_dropping (cs_rx s) \<and> cell_parked k s"

lemma park_frame:
  assumes "park cur b tx c = Inr (tx', c')"
  shows "\<exists>q. c' = c\<lparr>ch_cells := (ch_cells c)(s_cell tx := \<lparr>st_task = (if b then Some cur else None), st_is_parked = True\<rparr>),
      i_parked_queue := q\<rparr>"
  using assms by (auto simp: park_def Let_def bind_exec_eq_Inr)

lemma signal_frame: "\<exists>r w. signal c = c\<lparr>i_recv_task := r, ch_woken := w\<rparr>"
  by (intro exI [of _ "i_recv_task (signal c)"] exI [of _ "ch_woken (signal c)"]) (auto simp: signal_def Let_def)

lemma sync_tx_drop_frame: "\<exists>n r w. sync_tx_drop c = c\<lparr>i_num_senders := n, i_recv_task := r, ch_woken := w\<rparr>"
proof -
  obtain r w where "signal (c\<lparr>i_num_senders := i_num_senders c - 1\<rparr>) =
      c\<lparr>i_num_senders := i_num_senders c - 1, i_recv_task := r, ch_woken := w\<rparr>"
    using signal_frame [of "c\<lparr>i_num_senders := i_num_senders c - 1\<rparr>"] by auto
  moreover have "c\<lparr>i_num_senders := i_num_senders c - 1\<rparr> =
      c\<lparr>i_num_senders := i_num_senders c - 1, i_recv_task := i_recv_task c, ch_woken := ch_woken c\<rparr>" by simp
  ultimately show ?thesis unfolding sync_tx_drop_def Let_def by metis
qed

text \<open>What the senders do, short of reserving and pushing, leaves the messages alone and parked cells parked.\<close>

lemma sender_steps_frame:
  assumes "(\<exists>n. cs_full s = Suc n \<and> park cur b tx (cs_chan s) = Inr (tx', c')) \<or> c' = signal (cs_chan s) \<or> c' = sync_tx_drop (cs_chan s) \<or>
    poll_unparked cur b tx (cs_chan s) = (a, tx', c') \<or> sync_clone (cs_chan s) = Inr (tx', c') \<or> sync_sender (cs_chan s) = Inr (tx', c')"
  shows "i_message_queue c' = i_message_queue (cs_chan s) \<and> (cell_parked k s \<longrightarrow> cell_parked k (s\<lparr>cs_chan := c'\<rparr>))"
  using assms signal_frame [of "cs_chan s"] sync_tx_drop_frame [of "cs_chan s"] clone_frame [of "cs_chan s" tx' c']
  by (auto simp: cell_parked_def dest!: park_frame poll_unparked_frame)

lemma cell_parked_upd [simp]:
  "cell_parked k (s\<lparr>cs_full := n\<rparr>) = cell_parked k s" "cell_parked k (s\<lparr>cs_rx := pc\<rparr>) = cell_parked k s"
  "cell_parked k (s\<lparr>cs_notified := b\<rparr>) = cell_parked k s" "cell_parked k (s\<lparr>cs_pushed := n\<rparr>) = cell_parked k s"
  "cell_parked k (s\<lparr>cs_reserved := es\<rparr>) = cell_parked k s"
  by (simp_all add: cell_parked_def)

lemma stuck_sender_step:
  assumes "quiet_step s s'" and "stuck_sender k s"
  shows "stuck_sender k s'"
proof -
  have st: "cstep s s'" and q: "cs_reserved s' = []" "i_buffer (cs_chan s') = i_buffer (cs_chan s)" "\<not> rx_dropping (cs_rx s')"
    using assms(1) by (auto simp: quiet_step_def)
  have inv: "csys_inv s" "queue_rep (i_message_queue (cs_chan s)) []" "cs_reserved s = []" "in_hand s = 0" "cell_parked k s"
    using assms(2) by (auto simp: stuck_sender_def)
  have "csys_inv s'" using cstep_inv [OF st inv(1)] .
  moreover have "i_message_queue (cs_chan s') = i_message_queue (cs_chan s) \<and> in_hand s' = 0 \<and> cell_parked k s'"
    using st
  proof cases
    case (saw_full c')
    then show ?thesis using inv inc_num_messages_state [of "cs_chan s" c'] by (simp add: in_hand_def)
  next
    case (sender_park n cur can_park tx tx' c')
    then show ?thesis using inv sender_steps_frame [of s cur can_park tx tx' c' _ k] by (simp add: in_hand_def cell_parked_def)
  next
    case (signalled n)
    then show ?thesis using inv sender_steps_frame [of s _ _ _ _ "signal (cs_chan s)" _ k] by (simp add: in_hand_def cell_parked_def)
  next
    case sender_drop
    then show ?thesis using inv sender_steps_frame [of s _ _ _ _ "sync_tx_drop (cs_chan s)" _ k] by (simp add: in_hand_def cell_parked_def)
  next
    case (sender_repoll cur do_park tx a tx' c')
    then show ?thesis using inv sender_steps_frame [of s cur do_park tx tx' c' a k] by (simp add: in_hand_def cell_parked_def)
  next
    case (sender_clone tx c')
    then show ?thesis using inv sender_steps_frame [of s _ _ _ tx c' _ k] by (simp add: in_hand_def cell_parked_def)
  next
    case (rx_sender tx c')
    then show ?thesis using inv sender_steps_frame [of s _ _ _ tx c' _ k] by (simp add: in_hand_def cell_parked_def)
  next
    case (rx_capacity cap c')
    obtain ps where "queue_rep (i_parked_queue (cs_chan s)) ps" using inv(1) csys_inv_parked_rep by blast
    from set_capacity_frame [OF rx_capacity(3) this] show ?thesis
      using q rx_capacity inv by (simp add: in_hand_def)
  next
    case (rx_data m c')
    then show ?thesis using next_message_empty [OF inv(2)] by simp
  next
    case (rx_empty c')
    then show ?thesis using inv next_message_empty [OF inv(2)] by (simp add: in_hand_def cell_parked_def)
  qed (use inv q in \<open>auto simp: in_hand_def cell_parked_def try_park_def rx_dropping_def split: if_splits\<close>)
  ultimately show ?thesis using q inv by (simp add: stuck_sender_def)
qed

lemma stuck_sender_run: "quiet_step\<^sup>*\<^sup>* s s' \<Longrightarrow> stuck_sender k s \<Longrightarrow> stuck_sender k s'"
  by (induction rule: rtranclp_induct) (auto intro: stuck_sender_step)

text \<open>After the drop of the receiver only the senders run.\<close>

lemma gone_step:
  assumes "cstep s s'" and "csys_inv s" and "cs_rx s = RxGone" and "queue_rep (i_message_queue (cs_chan s)) ms"
  shows "cs_rx s' = RxGone \<and> (cell_parked k s \<longrightarrow> cell_parked k s') \<and>
    (\<exists>ms'. queue_rep (i_message_queue (cs_chan s')) (ms @ ms') \<and> mset ms' + mset (cs_reserved s') = mset (cs_reserved s))"
proof -
  have cl: "\<not> chan_open (cs_chan s)" using assms(2,3) by (auto simp: csys_inv_def csys_rep_def rx_dropping_def)
  show ?thesis using assms(1)
  proof cases
    case (sender_park n cur can_park tx tx' c')
    then show ?thesis using assms sender_steps_frame [of s cur can_park tx tx' c' _ k] by (simp add: cell_parked_def)
  next
    case (push xs e ys q)
    have "queue_rep q (ms @ [e])" using mq.push_rep [OF assms(4), of e] push by auto
    then show ?thesis using push assms(3) by (intro conjI exI [of _ "[e]"]) (auto simp: cell_parked_def)
  next
    case (signalled n)
    then show ?thesis using assms sender_steps_frame [of s _ _ _ _ "signal (cs_chan s)" _ k] by (simp add: cell_parked_def)
  next
    case sender_drop
    then show ?thesis using assms sender_steps_frame [of s _ _ _ _ "sync_tx_drop (cs_chan s)" _ k] by (simp add: cell_parked_def)
  next
    case (sender_repoll cur do_park tx a tx' c')
    then show ?thesis using assms sender_steps_frame [of s cur do_park tx tx' c' a k] by (simp add: cell_parked_def)
  next
    case (sender_clone tx c')
    then show ?thesis using assms sender_steps_frame [of s _ _ _ tx c' _ k] by (simp add: cell_parked_def)
  qed (use assms cl in \<open>simp_all add: rx_free_def rx_dropping_def inc_num_messages_closed inc_num_messages_force_closed\<close>)
qed

lemma gone_run:
  assumes "cstep\<^sup>*\<^sup>* s s'" and "csys_inv s" and "cs_rx s = RxGone" and "queue_rep (i_message_queue (cs_chan s)) ms"
  shows "csys_inv s' \<and> cs_rx s' = RxGone \<and> (cell_parked k s \<longrightarrow> cell_parked k s') \<and>
    (\<exists>ms'. queue_rep (i_message_queue (cs_chan s')) (ms @ ms') \<and> mset ms' + mset (cs_reserved s') = mset (cs_reserved s))"
  using assms(1)
proof (induction rule: rtranclp_induct)
  case base
  then show ?case using assms(2-4) by (intro conjI exI [of _ "[]"]) auto
next
  case (step y z)
  then obtain ms' where m: "queue_rep (i_message_queue (cs_chan y)) (ms @ ms')" "mset ms' + mset (cs_reserved y) = mset (cs_reserved s)"
    and y: "csys_inv y" "cs_rx y = RxGone" "cell_parked k s \<longrightarrow> cell_parked k y" by blast
  from gone_step [OF step.hyps(2) y(1,2) m(1), of k] obtain ms2 where
    z: "cs_rx z = RxGone" "cell_parked k y \<longrightarrow> cell_parked k z" "queue_rep (i_message_queue (cs_chan z)) (ms @ (ms' @ ms2))"
    "mset ms2 + mset (cs_reserved z) = mset (cs_reserved y)" by auto
  have "mset (ms' @ ms2) + mset (cs_reserved z) = mset (cs_reserved s)" using m(2) z(4) by (simp add: union_assoc)
  then show ?case using cstep_inv [OF step.hyps(2) y(1)] y(3) z(1-3) by blast
qed

text \<open>
  A channel of capacity 1 whose only slot is taken, and a sender that has just found it full; the
  receiver then takes the message before the sender parks.
\<close>

lemma visible_late_park:
  "visible 1 \<lparr>v_rs = [], v_ms = [] :: nat list, v_ps = [], v_pushed = 0, v_full = 1, v_rx = RxParked, v_unparked = False,
     v_notified = False\<rparr>"
proof -
  have b: "(1 :: usize) < MAX_BUFFER" by (simp add: MAX_BUFFER_def MAX_CAPACITY_def OPEN_MASK_eq word_less_nat_alt)
  note v0 = visible_start [OF b, where 'e = nat]
  have v1: "visible 1 \<lparr>v_rs = [7], v_ms = [] :: nat list, v_ps = [], v_pushed = 0, v_full = 0, v_rx = RxIdle, v_unparked = False, v_notified = False\<rparr>"
    using visible_reserve [OF v0 _ _ b, of 7] by simp
  have v2: "visible 1 \<lparr>v_rs = [], v_ms = [7] :: nat list, v_ps = [], v_pushed = 1, v_full = 0, v_rx = RxIdle, v_unparked = False, v_notified = False\<rparr>"
    using visible_push [OF v1, of 7] by simp
  obtain nt where v3: "visible 1 \<lparr>v_rs = [], v_ms = [7] :: nat list, v_ps = [], v_pushed = 0, v_full = 0, v_rx = RxIdle, v_unparked = True, v_notified = nt\<rparr>"
    using visible_signal [OF v2, of 0] by auto
  have v4: "visible 1 \<lparr>v_rs = [], v_ms = [7] :: nat list, v_ps = [], v_pushed = 0, v_full = 1, v_rx = RxIdle, v_unparked = True, v_notified = nt\<rparr>"
    using visible_saw_full [OF v3] by simp
  have v5: "visible 1 \<lparr>v_rs = [], v_ms = [7] :: nat list, v_ps = [], v_pushed = 0, v_full = 1, v_rx = RxActive, v_unparked = True, v_notified = False\<rparr>"
    using visible_poll [OF v4] by (simp add: rx_free_def)
  have v6: "visible 1 \<lparr>v_rs = [], v_ms = [] :: nat list, v_ps = [], v_pushed = 0, v_full = 1, v_rx = RxIdle, v_unparked = True, v_notified = False\<rparr>"
    using visible_take [OF v5, of 7 "[]"] by simp
  have v7: "visible 1 \<lparr>v_rs = [], v_ms = [] :: nat list, v_ps = [], v_pushed = 0, v_full = 1, v_rx = RxActive, v_unparked = True, v_notified = False\<rparr>"
    using visible_poll [OF v6] by (simp add: rx_free_def)
  have v8: "visible 1 \<lparr>v_rs = [], v_ms = [] :: nat list, v_ps = [], v_pushed = 0, v_full = 1, v_rx = RxActive, v_unparked = False, v_notified = False\<rparr>"
    using visible_turn [OF v7] by simp
  show ?thesis using visible_turn [OF v8] by simp
qed

text \<open>A slot reserved before the receiver is dropped, and not used yet.\<close>

lemma creach_stranded:
  "\<exists>s :: nat csys. creach s \<and> cs_rx s = RxGone \<and> cs_reserved s = [7] \<and> queue_rep (i_message_queue (cs_chan s)) []"
proof -
  have b: "(16 :: usize) < MAX_BUFFER" by (simp add: MAX_BUFFER_def MAX_CAPACITY_def OPEN_MASK_eq word_less_nat_alt)
  note v0 = visible_start [OF b, where 'e = nat]
  have v1: "visible 16 \<lparr>v_rs = [7], v_ms = [] :: nat list, v_ps = [], v_pushed = 0, v_full = 0, v_rx = RxIdle, v_unparked = False, v_notified = False\<rparr>"
    using visible_reserve [OF v0 _ _ b, of 7] by simp
  show ?thesis using visible_drop [OF v1] by (auto simp: visible_def shows_view_def rx_free_def)
qed

section \<open>Properties\<close>



text \<open>What the drop of the receiver leaves behind.  Once the drop is over, the messages in the queue stay
  there in every continuation, and what joins them are exactly messages whose slot had been
  reserved before the channel was closed, each at most once: with no such sender in flight the
  queue stays as it is, with one its message is accepted and never received.\<close>

theorem dropped_channel_strands:
  assumes "creach s" and "cs_rx s = RxGone" and "queue_rep (i_message_queue (cs_chan s)) ms" and "cstep\<^sup>*\<^sup>* s s'"
  shows "cs_rx s' = RxGone \<and> (\<exists>ms'. queue_rep (i_message_queue (cs_chan s')) (ms @ ms') \<and>
    mset ms' + mset (cs_reserved s') = mset (cs_reserved s))"
  using gone_run [OF assms(4) creach_inv [OF assms(1)] assms(2,3)] by blast

theorem dropped_channel_strands_witness:
  "\<exists>s s' :: nat csys. creach s \<and> cs_rx s = RxGone \<and> queue_rep (i_message_queue (cs_chan s)) [] \<and> cstep\<^sup>*\<^sup>* s s' \<and>
     cs_rx s' = RxGone \<and> queue_rep (i_message_queue (cs_chan s')) [7]"
proof -
  obtain s :: "nat csys" where s: "creach s" "cs_rx s = RxGone" "cs_reserved s = [7]" "queue_rep (i_message_queue (cs_chan s)) []"
    using creach_stranded by blast
  obtain q where q: "queue_push 7 (i_message_queue (cs_chan s)) = Inr q" using mq.push_rep [OF s(4), of 7] by auto
  let ?s' = "s\<lparr>cs_chan := (cs_chan s)\<lparr>i_message_queue := q\<rparr>, cs_reserved := [] @ [], cs_pushed := Suc (cs_pushed s)\<rparr>"
  have st: "cstep\<^sup>*\<^sup>* s ?s'" using cstep.push [of s "[]" 7 "[]" q] s(3) q by auto
  from dropped_channel_strands [OF s(1,2,4) st] s(3) have "queue_rep (i_message_queue (cs_chan ?s')) [7]" "cs_rx ?s' = RxGone" by auto
  then show ?thesis using s st by blast
qed

end
