(* ===== verification/Unsync_Channel.thy ===== *)
theory Unsync_Channel
  imports Channel_Spec
begin

text \<open>
  The single-thread mailbox channel (\<^verbatim>\<open>src/address/unsync_channel.rs\<close>).  The receiver owns the
  shared state through the only long-lived \<^verbatim>\<open>Rc\<close>; each sender holds a \<^verbatim>\<open>Weak\<close>.  The reference
  counts are explicit: \<open>rc_value\<close> is \<open>None\<close> once the last strong reference is gone,
  \<open>rc_weak\<close> is the number of senders.  \<open>rc_woken\<close> lists the notified tasks in order.
\<close>

section \<open>State\<close>

record 'e Shared =
  buffer :: "'e list"
  capacity :: usize
  blocked_senders :: "task list"
  blocked_recv :: "task option"

record 'e RcShared =
  rc_value :: "'e Shared option"
  rc_weak :: nat
  rc_woken :: "task list"

definition wake :: "task option \<Rightarrow> 'e RcShared \<Rightarrow> 'e RcShared" where
  "wake t u = (case t of None \<Rightarrow> u | Some t' \<Rightarrow> u\<lparr>rc_woken := rc_woken u @ [t']\<rparr>)"

section \<open>Sender\<close>

definition uconnected :: "'e RcShared \<Rightarrow> bool" where
  "uconnected u = (case rc_value u of Some _ \<Rightarrow> True | None \<Rightarrow> False)"

text \<open>Push an envelope and notify the receiver's task, if one is registered.\<close>

definition upush :: "'e \<Rightarrow> 'e Shared \<Rightarrow> 'e RcShared \<Rightarrow> 'e RcShared" where
  "upush e shared u =
     wake (blocked_recv shared)
       (u\<lparr>rc_value := Some (shared\<lparr>buffer := buffer shared @ [e], blocked_recv := None\<rparr>)\<rparr>)"

definition udo_send ::
  "('m \<Rightarrow> 'tx option \<Rightarrow> 'e) \<Rightarrow> 'm \<Rightarrow> 'e RcShared \<Rightarrow> ('m SendError + unit) \<times> 'e RcShared" where
  "udo_send pack msg u =
     (case rc_value u of
        None \<Rightarrow> (Inl (Closed msg), u)
      | Some shared \<Rightarrow> (Inr (), upush (pack msg None) shared u))"

definition utry_send ::
  "('m \<Rightarrow> 'tx option \<Rightarrow> 'e) \<Rightarrow> task \<Rightarrow> 'm \<Rightarrow> bool \<Rightarrow> 'e RcShared \<Rightarrow>
     ('m SendError + unit) \<times> 'e RcShared" where
  "utry_send pack cur msg do_park u =
     (case rc_value u of
        None \<Rightarrow> (Inl (Closed msg), u)
      | Some shared \<Rightarrow>
          if capacity shared = 0 \<or> length (buffer shared) < unat (capacity shared)
          then (Inr (), upush (pack msg None) shared u)
          else (Inl (Full msg),
                if do_park
                then u\<lparr>rc_value := Some (shared\<lparr>blocked_senders := blocked_senders shared @ [cur]\<rparr>)\<rparr>
                else u))"

definition usend ::
  "('m \<Rightarrow> 'tx option \<Rightarrow> 'e) \<Rightarrow> task \<Rightarrow> 'tx \<times> 'rx \<Rightarrow> 'm \<Rightarrow> 'e RcShared \<Rightarrow>
     ('m SendError + 'rx) \<times> 'e RcShared" where
  "usend pack cur oneshot msg u =
     (case rc_value u of
        None \<Rightarrow> (Inl (Closed msg), u)
      | Some shared \<Rightarrow>
          if capacity shared = 0 \<or> length (buffer shared) < unat (capacity shared)
          then (let (tx, rx) = oneshot in (Inr rx, upush (pack msg (Some tx)) shared u))
          else (Inl (Full msg),
                u\<lparr>rc_value := Some (shared\<lparr>blocked_senders := blocked_senders shared @ [cur]\<rparr>)\<rparr>))"

text \<open>The trait object \<^verbatim>\<open>UnsyncSender\<close> always parks in \<^verbatim>\<open>try_send\<close>.\<close>

definition unsync_sender_try_send ::
  "('m \<Rightarrow> 'tx option \<Rightarrow> 'e) \<Rightarrow> task \<Rightarrow> 'm \<Rightarrow> 'e RcShared \<Rightarrow> ('m SendError + unit) \<times> 'e RcShared" where
  "unsync_sender_try_send pack cur msg u = utry_send pack cur msg True u"

definition uclone :: "'e RcShared \<Rightarrow> 'e RcShared" where
  "uclone u = u\<lparr>rc_weak := Suc (rc_weak u)\<rparr>"

text \<open>
  When the destructor's body runs, the weak reference of the sender being dropped still counts; it
  is released after the body.
\<close>

definition utx_drop :: "'e RcShared \<Rightarrow> 'e RcShared" where
  "utx_drop u =
     (let u1 =
        (case rc_value u of
           None \<Rightarrow> u
         | Some shared \<Rightarrow>
             if rc_weak u = 1
             then wake (blocked_recv shared) (u\<lparr>rc_value := Some (shared\<lparr>blocked_recv := None\<rparr>)\<rparr>)
             else u)
      in u1\<lparr>rc_weak := rc_weak u1 - 1\<rparr>)"

section \<open>Receiver\<close>

definition urx_new :: "usize \<Rightarrow> 'e RcShared" where
  "urx_new cap =
     \<lparr>rc_value = Some \<lparr>buffer = [], capacity = cap, blocked_senders = [], blocked_recv = None\<rparr>,
      rc_weak = 0, rc_woken = []\<rparr>"

definition urx_connected :: "'e RcShared \<Rightarrow> bool" where
  "urx_connected u = (rc_weak u \<noteq> 0)"

definition urx_sender :: "'e RcShared \<Rightarrow> 'e RcShared" where
  "urx_sender u = u\<lparr>rc_weak := Suc (rc_weak u)\<rparr>"

text \<open>The receiver holds the strong reference, so \<open>rc_value\<close> is present in its operations; they
  are undefined behaviour of the model (a fault) otherwise.\<close>

definition with_shared :: "('e Shared \<Rightarrow> 'a exec) \<Rightarrow> 'e RcShared \<Rightarrow> 'a exec" where
  "with_shared f u = (case rc_value u of None \<Rightarrow> Inl UseAfterFree | Some shared \<Rightarrow> f shared)"

definition urx_capacity :: "'e RcShared \<Rightarrow> usize exec" where
  "urx_capacity = with_shared (\<lambda>shared. Inr (capacity shared))"

fun wake_senders :: "nat \<Rightarrow> task list \<Rightarrow> task list \<times> task list" where
  "wake_senders 0 ts = ([], ts)"
| "wake_senders (Suc k) [] = ([], [])"
| "wake_senders (Suc k) (t # ts) = (let (woken, rest) = wake_senders k ts in (t # woken, rest))"

definition urx_set_capacity :: "usize \<Rightarrow> 'e RcShared \<Rightarrow> 'e RcShared exec" where
  "urx_set_capacity cap u = with_shared (\<lambda>shared.
     let shared1 = shared\<lparr>capacity := cap\<rparr> in
     if length (buffer shared1) < unat (capacity shared1) then
       (let (woken, rest) =
          wake_senders (unat (capacity shared1) - length (buffer shared1)) (blocked_senders shared1)
        in Inr (u\<lparr>rc_value := Some (shared1\<lparr>blocked_senders := rest\<rparr>), rc_woken := rc_woken u @ woken\<rparr>))
     else Inr (u\<lparr>rc_value := Some shared1\<rparr>)) u"

definition urx_poll :: "task \<Rightarrow> 'e RcShared \<Rightarrow> (('e option, unit) Poll \<times> 'e RcShared) exec" where
  "urx_poll cur u = with_shared (\<lambda>shared.
     if rc_weak u = 0 then
       (case buffer shared of
          [] \<Rightarrow> Inr (PReady None, u)
        | m # ms \<Rightarrow> Inr (PReady (Some m), u\<lparr>rc_value := Some (shared\<lparr>buffer := ms\<rparr>)\<rparr>))
     else
       (case buffer shared of
          m # ms \<Rightarrow>
            (case blocked_senders shared of
               [] \<Rightarrow> Inr (PReady (Some m), u\<lparr>rc_value := Some (shared\<lparr>buffer := ms\<rparr>)\<rparr>)
             | t # ts \<Rightarrow> Inr (PReady (Some m),
                 wake (Some t) (u\<lparr>rc_value := Some (shared\<lparr>buffer := ms, blocked_senders := ts\<rparr>)\<rparr>)))
        | [] \<Rightarrow> Inr (PNotReady, u\<lparr>rc_value := Some (shared\<lparr>blocked_recv := Some cur\<rparr>)\<rparr>))) u"

definition urx_drop :: "'e RcShared \<Rightarrow> 'e RcShared exec" where
  "urx_drop = (\<lambda>u. with_shared (\<lambda>shared.
     Inr (u\<lparr>rc_value := None, rc_woken := rc_woken u @ blocked_senders shared\<rparr>)) u)"

section \<open>Basic facts\<close>

lemma wake_fields [simp]:
  "rc_value (wake t u) = rc_value u" "rc_weak (wake t u) = rc_weak u"
  "rc_woken (wake t u) = rc_woken u @ (case t of None \<Rightarrow> [] | Some t' \<Rightarrow> [t'])"
  by (auto simp: wake_def split: option.splits)

lemma upush_fields [simp]:
  "rc_value (upush e sh u) = Some (sh\<lparr>buffer := buffer sh @ [e], blocked_recv := None\<rparr>)"
  "rc_weak (upush e sh u) = rc_weak u"
  "rc_woken (upush e sh u) = rc_woken u @ (case blocked_recv sh of None \<Rightarrow> [] | Some t \<Rightarrow> [t])"
  by (auto simp: upush_def)

lemma with_shared_Some [simp]: "rc_value u = Some sh \<Longrightarrow> with_shared f u = f sh"
  by (simp add: with_shared_def)

lemma wake_senders_eq: "wake_senders k ts = (take k ts, drop k ts)"
  by (induction k ts rule: wake_senders.induct) auto

definition has_room :: "'e Shared \<Rightarrow> bool" where
  "has_room sh \<longleftrightarrow> capacity sh = 0 \<or> length (buffer sh) < unat (capacity sh)"

section \<open>The channel contract\<close>

definition u_offer :: "'e \<Rightarrow> 'e RcShared \<Rightarrow> bool \<times> 'e RcShared" where
  "u_offer e u = (case utry_send (\<lambda>m (_ :: unit option). m) 0 e False u of
     (Inr _, u') \<Rightarrow> (True, u') | (Inl _, u') \<Rightarrow> (False, u'))"

definition u_force :: "'e \<Rightarrow> 'e RcShared \<Rightarrow> 'e RcShared" where
  "u_force e u = snd (udo_send (\<lambda>m (_ :: unit option). m) e u)"

definition u_recv :: "'e RcShared \<Rightarrow> 'e option \<times> 'e RcShared" where
  "u_recv u = (case urx_poll 0 u of
     Inr (Inr (Ready r), u') \<Rightarrow> (r, u') | Inr (_, u') \<Rightarrow> (None, u') | Inl _ \<Rightarrow> (None, u))"

definition u_rep :: "'e RcShared \<Rightarrow> 'e list \<Rightarrow> bool" where
  "u_rep u ms \<longleftrightarrow> (\<exists>sh. rc_value u = Some sh \<and> buffer sh = ms)"

definition u_cap :: "'e RcShared \<Rightarrow> nat" where
  "u_cap u = (case rc_value u of None \<Rightarrow> 0 | Some sh \<Rightarrow> unat (capacity sh))"

lemmas u_chan_defs = u_offer_def u_force_def u_recv_def u_rep_def u_cap_def utry_send_def
  udo_send_def urx_poll_def

interpretation uc: bounded_channel u_rep u_cap u_offer u_force u_recv limit for limit
proof unfold_locales
  fix u :: "'e RcShared" and ms e
  show "u_rep u ms \<Longrightarrow> u_cap u = 0 \<or> length ms < u_cap u \<Longrightarrow>
      \<exists>c'. u_offer e u = (True, c') \<and> u_rep c' (ms @ [e]) \<and> u_cap c' = u_cap u"
    by (auto simp: u_chan_defs unat_eq_zero)
  show "u_rep u ms \<Longrightarrow> u_cap u \<noteq> 0 \<Longrightarrow> u_cap u \<le> length ms \<Longrightarrow>
      \<exists>c'. u_offer e u = (False, c') \<and> u_rep c' ms \<and> u_cap c' = u_cap u"
    by (auto simp: u_chan_defs)
  show "u_rep u ms \<Longrightarrow> u_rep (u_force e u) (ms @ [e]) \<and> u_cap (u_force e u) = u_cap u"
    by (auto simp: u_chan_defs)
next
  fix u :: "'e RcShared" and m ms
  show "u_rep u [] \<Longrightarrow> \<exists>c'. u_recv u = (None, c') \<and> u_rep c' [] \<and> u_cap c' = u_cap u"
    by (auto simp: u_chan_defs)
  show "u_rep u (m # ms) \<Longrightarrow> \<exists>c'. u_recv u = (Some m, c') \<and> u_rep c' ms \<and> u_cap c' = u_cap u"
    by (auto simp: u_chan_defs split: list.splits)
qed

section \<open>Sequences of operations\<close>

text \<open>
  Any sequence of calls on the channel by its senders and the receiver; \<open>r\<close> is the receiver's
  task.  The first component collects the tasks whose send was turned down with \<^verbatim>\<open>Full\<close> and that
  asked to be notified.
\<close>

datatype 'e uop = USend task 'e | UTrySend task 'e bool | UDoSend 'e | UClone | UDropTx | UGetSender
  | UPoll | USetCap usize

abbreviation upack :: "'e \<Rightarrow> unit option \<Rightarrow> 'e" where
  "upack e tx \<equiv> e"

fun turned_down :: "('m SendError + 'a) \<Rightarrow> bool" where
  "turned_down (Inl (Full _)) = True"
| "turned_down _ = False"

fun uapply :: "task \<Rightarrow> 'e uop \<Rightarrow> 'e RcShared \<Rightarrow> (task list \<times> 'e RcShared) exec" where
  "uapply r (USend t e) u = (let (res, u') = usend upack t ((), ()) e u in
     Inr (if turned_down res then [t] else [], u'))"
| "uapply r (UTrySend t e do_park) u = (let (res, u') = utry_send upack t e do_park u in
     Inr (if turned_down res \<and> do_park then [t] else [], u'))"
| "uapply r (UDoSend e) u = Inr ([], snd (udo_send upack e u))"
| "uapply r UClone u = Inr ([], uclone u)"
| "uapply r UDropTx u = Inr ([], utx_drop u)"
| "uapply r UGetSender u = Inr ([], urx_sender u)"
| "uapply r UPoll u = bind_exec (urx_poll r u) (\<lambda>(_, u'). Inr ([], u'))"
| "uapply r (USetCap cap) u = bind_exec (urx_set_capacity cap u) (\<lambda>u'. Inr ([], u'))"

fun urun :: "task \<Rightarrow> 'e uop list \<Rightarrow> 'e RcShared \<Rightarrow> (task list \<times> 'e RcShared) exec" where
  "urun r [] u = Inr ([], u)"
| "urun r (a # as) u = bind_exec (uapply r a u) (\<lambda>(p, u'). bind_exec (urun r as u') (\<lambda>(ps, u''). Inr (p @ ps, u'')))"

fun sender_task :: "'e uop \<Rightarrow> task option" where
  "sender_task (USend t _) = Some t"
| "sender_task (UTrySend t _ _) = Some t"
| "sender_task _ = None"

definition senders_woken :: "task \<Rightarrow> 'e RcShared \<Rightarrow> task list" where
  "senders_woken r u = filter (\<lambda>t. t \<noteq> r) (rc_woken u)"

definition uinv :: "task \<Rightarrow> task list \<Rightarrow> 'e RcShared \<Rightarrow> bool" where
  "uinv r parked u \<longleftrightarrow> (\<exists>sh. rc_value u = Some sh \<and> r \<notin> set (blocked_senders sh) \<and>
     parked = senders_woken r u @ blocked_senders sh \<and>
     (blocked_recv sh \<noteq> None \<longrightarrow> blocked_recv sh = Some r \<and> buffer sh = []))"

lemma filter_neq_take: "r \<notin> set ts \<Longrightarrow> filter (\<lambda>t. t \<noteq> r) (take k ts) = take k ts"
  by (auto simp: filter_id_conv dest: in_set_takeD)

lemma uinv_start: "uinv r [] (urx_new cap)"
  by (simp add: uinv_def urx_new_def senders_woken_def)

lemma uinv_step:
  assumes "uinv r parked u" and "sender_task a \<noteq> Some r"
  shows "\<exists>p u'. uapply r a u = Inr (p, u') \<and> uinv r (parked @ p) u'"
proof -
  obtain sh where sh: "rc_value u = Some sh" "r \<notin> set (blocked_senders sh)"
    "parked = senders_woken r u @ blocked_senders sh"
    "blocked_recv sh \<noteq> None \<Longrightarrow> blocked_recv sh = Some r \<and> buffer sh = []"
    using assms(1) unfolding uinv_def by blast
  have cap: "\<exists>u'. urx_set_capacity cap u = Inr u' \<and> uinv r parked u'" for cap
    using sh filter_neq_take [OF sh(2)]
    by (auto simp: urx_set_capacity_def wake_senders_eq uinv_def senders_woken_def Let_def
        dest: in_set_dropD split: if_splits)
  show ?thesis
  proof (cases a)
    case (USetCap cap)
    then show ?thesis using cap [of cap] by auto
  qed (use assms(2) sh in \<open>auto simp: usend_def utry_send_def udo_send_def uclone_def utx_drop_def urx_sender_def
      urx_poll_def uinv_def senders_woken_def Let_def split: option.splits list.splits if_splits\<close>)
qed

lemma uinv_run:
  "uinv r parked u \<Longrightarrow> \<forall>a \<in> set ops. sender_task a \<noteq> Some r \<Longrightarrow>
   \<exists>ps u'. urun r ops u = Inr (ps, u') \<and> uinv r (parked @ ps) u'"
proof (induction ops arbitrary: u parked)
  case (Cons a as)
  then obtain p u1 where 1: "uapply r a u = Inr (p, u1)" "uinv r (parked @ p) u1"
    using uinv_step [of r parked u a] by auto
  then show ?case using Cons.IH [OF 1(2)] Cons.prems by auto
qed auto

section \<open>Properties\<close>

text \<open>C17: Delivery and backpressure of the single-thread channel.  From a new channel of any capacity,
  any sequence of \<^verbatim>\<open>try_send\<close>, \<^verbatim>\<open>do_send\<close> and \<^verbatim>\<open>poll\<close> delivers the accepted messages in order,
  none lost or duplicated, and without \<^verbatim>\<open>do_send\<close> a channel of nonzero capacity never holds
  more messages than its capacity.\<close>

theorem unsync_channel_fifo_bounded:
  fixes ops :: "'e chan_op list"
  assumes "run_chan u_offer u_force u_recv ops (urx_sender (urx_new cap)) = (os, u')"
  shows "\<exists>sh. rc_value u' = Some sh \<and> accepted os = received os @ buffer sh \<and>
    (cap \<noteq> 0 \<and> (\<forall>e. Force e \<notin> set ops) \<longrightarrow> length (buffer sh) \<le> unat cap)"
proof -
  have rep: "u_rep (urx_sender (urx_new cap)) []" and c: "u_cap (urx_sender (urx_new cap) :: 'e RcShared) = unat cap"
    by (simp_all add: u_rep_def u_cap_def urx_sender_def urx_new_def)
  obtain sh where sh: "rc_value u' = Some sh" "accepted os = received os @ buffer sh"
    using uc.run_fifo [OF rep order_refl assms] by (auto simp: u_rep_def)
  moreover have "length (buffer sh) \<le> unat cap" if "cap \<noteq> 0" "\<forall>e. Force e \<notin> set ops"
    using uc.run_bounded [OF rep order_refl that(2) _ _ assms] that(1) c sh(1)
    by (auto simp: u_rep_def unat_gt_0)
  ultimately show ?thesis by blast
qed

theorem unsync_channel_fifo_bounded_witness:
  "\<exists>os u' sh. run_chan u_offer u_force u_recv [Offer (1 :: nat), Offer 2, Take, Offer 3]
      (urx_sender (urx_new 1)) = (os, u') \<and> rc_value u' = Some sh \<and>
      accepted os = received os @ buffer sh \<and> length (buffer sh) \<le> 1"
proof -
  obtain os u' where r: "run_chan u_offer u_force u_recv [Offer (1 :: nat), Offer 2, Take, Offer 3]
      (urx_sender (urx_new 1)) = (os, u')" by fastforce
  show ?thesis using r unsync_channel_fifo_bounded [OF r] by fastforce
qed



text \<open>C19: Disconnection.  Dropping the receiver notifies every blocked sender once, in order, and from
  then on every kind of send gives the message back as \<^verbatim>\<open>Closed\<close>.  Dropping the last sender
  notifies the registered receiver, whose polls then hand out what is left and report the end of
  the stream; with a sender left they never do.\<close>

theorem unsync_disconnect:
  assumes "rc_value u = Some sh"
  shows "(\<exists>u'. urx_drop u = Inr u' \<and> rc_woken u' = rc_woken u @ blocked_senders sh \<and> \<not> uconnected u' \<and>
      udo_send pack m u' = (Inl (Closed m), u') \<and> utry_send pack t m b u' = (Inl (Closed m), u') \<and>
      usend pack t ch m u' = (Inl (Closed m), u')) \<and>
    (rc_weak u = 1 \<longrightarrow> \<not> urx_connected (utx_drop u) \<and>
      rc_woken (utx_drop u) = rc_woken u @ (case blocked_recv sh of None \<Rightarrow> [] | Some t \<Rightarrow> [t])) \<and>
    (\<not> urx_connected u \<longrightarrow>
      (\<exists>u'. urx_poll t u = Inr (PReady (case buffer sh of [] \<Rightarrow> None | m # _ \<Rightarrow> Some m), u'))) \<and>
    (urx_connected u \<longrightarrow> urx_poll t u \<noteq> Inr (PReady None, u'))"
  using assms by (auto simp: urx_drop_def uconnected_def udo_send_def utry_send_def usend_def utx_drop_def
      urx_connected_def urx_poll_def split: list.splits)

text \<open>Raising the capacity to \<open>cap\<close> notifies the blocked senders in order, as many as there are
  free slots.  Setting it to zero, which makes the channel unbounded, notifies none of them.\<close>

theorem unsync_set_capacity_wakes:
  assumes "rc_value u = Some sh"
  shows "(\<exists>u'. urx_set_capacity cap u = Inr u' \<and> urx_capacity u' = Inr cap \<and>
      rc_woken u' = rc_woken u @ take (unat cap - length (buffer sh)) (blocked_senders sh)) \<and>
    (\<exists>u'. urx_set_capacity 0 u = Inr u' \<and> rc_woken u' = rc_woken u \<and>
      fst (usend pack t (tx, rx) m u') = Inr rx)"
  using assms by (auto simp: urx_set_capacity_def urx_capacity_def wake_senders_eq usend_def Let_def)

definition example_unsync :: "nat RcShared" where
  "example_unsync = \<lparr>rc_value = Some \<lparr>buffer = [5], capacity = 1, blocked_senders = [3, 4], blocked_recv = None\<rparr>,
     rc_weak = 2, rc_woken = []\<rparr>"

theorem unsync_disconnect_witness:
  "\<exists>u'. urx_drop example_unsync = Inr u' \<and> rc_woken u' = [3, 4] \<and>
     udo_send (\<lambda>m (_ :: unit option). m) 6 u' = (Inl (Closed 6), u')"
  using unsync_disconnect [of example_unsync "the (rc_value example_unsync)" "\<lambda>m (_ :: unit option). m" 6 1 True "((), ())"]
  by (auto simp: example_unsync_def)

theorem unsync_set_capacity_wakes_witness:
  "\<exists>u'. urx_set_capacity 2 example_unsync = Inr u' \<and> rc_woken u' = [3]"
  using unsync_set_capacity_wakes [of example_unsync "the (rc_value example_unsync)" 2 "\<lambda>m (_ :: unit option). m" 0 "()" "()" 0] by (auto simp: example_unsync_def)

end
