(* ===== verification/Repo_Tests.thy ===== *)
theory Repo_Tests
  imports Sync_Races Unsync_Channel
begin

text \<open>
  The unit tests of the two channels, \<^verbatim>\<open>test_cap\<close> in \<^verbatim>\<open>src/address/sync_channel.rs\<close> and in \<^verbatim>\<open>src/address/unsync_channel.rs\<close>, run on
  the models: each is a program over the operations that returns whether all its assertions hold.  The pauses of the first
  test, which let the other threads finish, make its operations run one after the other.  The tests run with any envelope,
  message, tasks and response channel.
\<close>

section \<open>The thread-safe channel\<close>

text \<open>The loop that looks for a parked sender.\<close>

definition test_parked :: "'e Chan \<Rightarrow> (nat option \<times> 'e Chan) exec" where
  "test_parked c =
     bind_exec (pop_wait queue_pop (q_brk (i_parked_queue c)) (i_parked_queue c)) (\<lambda>(p, q). Inr (p, c\<lparr>i_parked_queue := q\<rparr>))"

text \<open>The two closures own their sender, which is dropped when they end.\<close>

definition sync_test_cap :: "('m \<Rightarrow> 'tx option \<Rightarrow> 'e) \<Rightarrow> task \<Rightarrow> task \<Rightarrow> 'tx \<times> 'rx \<Rightarrow> 'm \<Rightarrow> bool exec" where
  "sync_test_cap pack t1 t2 oneshot ping =
     bind_exec (channel 1) (\<lambda>(s1, c0).
     bind_exec (sync_sender c0) (\<lambda>(s2, c1).
     bind_exec (sync_send pack t1 oneshot ping s1 c1) (\<lambda>(_, _, c2).
     bind_exec (sync_send pack t2 oneshot ping s2 (sync_tx_drop c2)) (\<lambda>(_, _, c3).
     let c4 = sync_tx_drop c3; a1 = (num_messages (decode_state (i_state c4)) = 1) in
     bind_exec (test_parked c4) (\<lambda>(p, c5).
     case p of
       None \<Rightarrow> Inr False
     | Some unparked \<Rightarrow>
         bind_exec (queue_push unparked (i_parked_queue c5)) (\<lambda>q.
         bind_exec (sync_set_capacity 10 (c5\<lparr>i_parked_queue := q\<rparr>)) (\<lambda>c6.
         let a2 = (num_messages (decode_state (i_state c6)) = 1) in
         bind_exec (test_parked c6) (\<lambda>(p2, _). Inr (a1 \<and> a2 \<and> p2 = None)))))))))"

lemma test_parked_empty: "queue_rep (i_parked_queue c) [] \<Longrightarrow> \<exists>c'. test_parked c = Inr (None, c')"
  by (simp add: test_parked_def mq.pop_wait_empty)

lemma test_parked_data:
  "queue_rep (i_parked_queue c) (i # ps) \<Longrightarrow> \<exists>q. test_parked c = Inr (Some i, c\<lparr>i_parked_queue := q\<rparr>) \<and> queue_rep q ps"
  using mq.pop_wait_data [of "i_parked_queue c" i ps] by (auto simp: test_parked_def)

lemma tx_drop_keeps:
  "chan_wf (sync_tx_drop c) ms ps = chan_wf c ms ps" "chan_open (sync_tx_drop c) = chan_open c"
  "i_buffer (sync_tx_drop c) = i_buffer c" "ch_cells (sync_tx_drop c) = ch_cells c"
  using sync_tx_drop_frame [of c] by (auto simp: chan_wf_def chan_open_def msg_count_def)

lemma one_message: "chan_wf c [m] ps \<Longrightarrow> chan_open c \<Longrightarrow> num_messages (decode_state (i_state c)) = 1"
  using chan_wfD(3) [of c "[m]" ps] by (simp add: msg_count_def word_unat_eq_iff)

text \<open>The second sender is as fresh as the first.\<close>

lemma test_senders:
  "\<exists>s1 (c0 :: 'e Chan) s2 c1. channel 1 = Inr (s1, c0) \<and> sync_sender c0 = Inr (s2, c1) \<and> chan_wf c1 [] [] \<and> chan_open c1 \<and> i_buffer c1 = 1 \<and>
     \<not> s_maybe_parked s1 \<and> \<not> s_maybe_parked s2"
proof -
  have lt: "(1 :: usize) < MAX_BUFFER" by (simp add: MAX_BUFFER_def MAX_CAPACITY_def OPEN_MASK_eq)
  then obtain s1 and c0 :: "'e Chan" where c0: "channel 1 = Inr (s1, c0)" "i_num_senders c0 = 1" "i_buffer c0 = 1" "\<not> s_maybe_parked s1"
    by (simp add: channel_def)
  have mx: "max_senders 1 = Inr (MAX_CAPACITY - 1)" "MAX_CAPACITY - 1 \<noteq> 1" 
    by (simp_all add: max_senders_def MAX_CAPACITY_def OPEN_MASK_eq word_le_nat_alt)
  have "sync_sender c0 = Inr (new_sender (c0\<lparr>i_num_senders := 2\<rparr>))"
    using c0 mx by (simp add: sync_sender_def sender_loop.simps)
  then show ?thesis
    using c0 channel_rep [OF c0(1)]
    by (auto simp: new_sender_def sync_chan_rep_def chan_wf_def chan_open_def msg_count_def)
qed

text \<open>Every assertion of the test of the thread-safe channel holds.\<close>

theorem sync_test_cap_passes: "sync_test_cap (pack :: 'm \<Rightarrow> 'tx option \<Rightarrow> 'e) t1 t2 oneshot ping = Inr True"
proof -
  obtain tx rx where ch: "oneshot = (tx, rx)" by force
  obtain s1 c0 s2 and c1 :: "'e Chan" where 1: "channel 1 = Inr (s1, c0)" "sync_sender c0 = Inr (s2, c1)" "chan_wf c1 [] []" "chan_open c1"
    "i_buffer c1 = 1" "\<not> s_maybe_parked s1" "\<not> s_maybe_parked s2" using test_senders by blast
  let ?e = "pack ping (Some tx)"
  have "\<not> chan_full c1" using 1 by (simp add: chan_full_def chan_wf_def)
  then obtain s c2 where 2: "sync_send pack t1 oneshot ping s1 c1 = Inr (Inr rx, s, c2)" "chan_wf c2 [?e] []" "chan_open c2" "i_buffer c2 = 1"
    using sync_send_room [of c1 "[]" "[]" s1 pack t1 tx rx ping] 1 ch by (auto simp: sender_blocked_def)
  let ?d = "sync_tx_drop c2"
  have "chan_full ?d" using 2 tx_drop_keeps [of c2] chan_wfD(3) [of ?d "[?e]" "[]"] by (simp add: chan_full_def)
  then obtain s' c3 where 3: "sync_send pack t2 oneshot ping s2 ?d = Inr (Inl (Full ping), s', c3)" "chan_wf c3 [?e] [s_cell s2]"
      "chan_open c3" "i_buffer c3 = 1"
    using sync_send_full [of ?d "[?e]" "[]" s2 pack t2 oneshot ping] 2 1 tx_drop_keeps [of c2] by (auto simp: sender_blocked_def)
  let ?c4 = "sync_tx_drop c3"
  have 4: "chan_wf ?c4 [?e] [s_cell s2]" "chan_open ?c4" "i_buffer ?c4 = 1" using 3 by (simp_all add: tx_drop_keeps)
  obtain q where 5: "test_parked ?c4 = Inr (Some (s_cell s2), ?c4\<lparr>i_parked_queue := q\<rparr>)" "queue_rep q []"
    using test_parked_data [OF chan_wfD(2) [OF 4(1)]] by blast
  obtain q' where q': "queue_push (s_cell s2) q = Inr q'" "queue_rep q' [s_cell s2]"
    using queue_push_rep [OF 5(2), of "s_cell s2"] by auto
  let ?c5 = "?c4\<lparr>i_parked_queue := q'\<rparr>"
  have "chan_wf ?c5 [?e] [s_cell s2]" "chan_open ?c5" "i_buffer ?c5 = 1"
    using 4 q' by (auto simp: chan_wf_def chan_open_def msg_count_def)
  then obtain c6 where 6: "sync_set_capacity 10 ?c5 = Inr c6" "chan_wf c6 [?e] []" "chan_open c6"
    using sync_set_capacity_grow [of ?c5 "[?e]" "[s_cell s2]" 10] by auto
  obtain c7 where "test_parked c6 = Inr (None, c7)" using test_parked_empty [OF chan_wfD(2) [OF 6(2)]] by blast
  then show ?thesis
    using 1(1,2) 2(1) 3(1) 5(1) q'(1) 6(1) one_message [OF 4(1,2)] one_message [OF 6(2,3)] by (simp add: sync_test_cap_def Let_def)
qed

section \<open>The single-thread channel\<close>

text \<open>The lengths of the two queues of the shared state.\<close>

definition test_lens :: "'e RcShared \<Rightarrow> (nat \<times> nat) exec" where
  "test_lens = with_shared (\<lambda>shared. Inr (length (buffer shared), length (blocked_senders shared)))"

definition unsync_test_cap :: "('m \<Rightarrow> 'tx option \<Rightarrow> 'e) \<Rightarrow> task \<Rightarrow> 'tx \<times> 'rx \<Rightarrow> 'm \<Rightarrow> bool exec" where
  "unsync_test_cap pack cur oneshot ping =
     (let u0 = urx_new 1 in
      bind_exec (urx_capacity u0) (\<lambda>cap.
      let u1 = urx_sender (urx_sender u0); u2 = snd (usend pack cur oneshot ping u1) in
      bind_exec (test_lens u2) (\<lambda>(b2, _).
      let u3 = snd (usend pack cur oneshot ping u2) in
      bind_exec (test_lens u3) (\<lambda>(b3, w3).
      bind_exec (urx_set_capacity 10 u3) (\<lambda>u4.
      bind_exec (test_lens u4) (\<lambda>(b4, w4).
      let u5 = snd (usend pack cur oneshot ping u4) in
      bind_exec (test_lens u5) (\<lambda>(b5, _).
      Inr (cap = 1 \<and> b2 = 1 \<and> b3 = 1 \<and> w3 = 1 \<and> b4 = 1 \<and> w4 = 0 \<and> b5 = 2))))))))"

text \<open>Every assertion of the test of the single-thread channel holds.\<close>

theorem unsync_test_cap_passes: "unsync_test_cap pack cur oneshot ping = Inr True"
  by (cases oneshot) (simp add: unsync_test_cap_def Let_def urx_new_def urx_capacity_def urx_sender_def test_lens_def usend_def
      urx_set_capacity_def wake_senders_eq)

end
