(* ===== verification/Mailbox.thy ===== *)
theory Mailbox
  imports Sync_Channel Unsync_Channel
begin

text \<open>
  An actor's mailbox (\<^verbatim>\<open>src/mailbox.rs\<close>): the receiver of the single-thread channel and, once a
  thread-safe address has been asked for, the receiver of the thread-safe channel.

  The mailbox lives inside the execution context that its message handlers may change, so the loop
  of \<^verbatim>\<open>Mailbox::poll\<close> is a function of the host state \<open>'c\<close> and of what it uses of it:
  \<open>waiting\<close> (\<^verbatim>\<open>ctx.waiting()\<close>), the mailbox inside the host (\<open>mb\<close>, \<open>put\<close>) and \<open>handle\<close>
  (\<^verbatim>\<open>msg.handle(act, ctx)\<close>).  The locales state what the loop needs of its host and what it
  promises; they are interpreted on the actor context in \<open>Actor_Context\<close>.
\<close>

section \<open>State and accessors\<close>

definition MAX_SYNC_POLLS :: nat where
  "MAX_SYNC_POLLS = 256"

definition DEFAULT_CAPACITY :: usize where
  "DEFAULT_CAPACITY = 16"

record 'e Mailbox =
  sync_msgs :: "'e Chan option"
  unsync_msgs :: "'e RcShared"

definition mailbox_default :: "'e Mailbox" where
  "mailbox_default = \<lparr>sync_msgs = None, unsync_msgs = urx_new DEFAULT_CAPACITY\<rparr>"

definition mailbox_new :: "'e Chan \<Rightarrow> 'e Mailbox" where
  "mailbox_new rx = \<lparr>sync_msgs = Some rx, unsync_msgs = urx_new 16\<rparr>"

definition mailbox_capacity :: "'e Mailbox \<Rightarrow> usize exec" where
  "mailbox_capacity m = urx_capacity (unsync_msgs m)"

definition mailbox_set_capacity :: "usize \<Rightarrow> 'e Mailbox \<Rightarrow> 'e Mailbox exec" where
  "mailbox_set_capacity cap m =
     bind_exec (urx_set_capacity cap (unsync_msgs m)) (\<lambda>u.
       let m1 = m\<lparr>unsync_msgs := u\<rparr> in
       case sync_msgs m1 of
         None \<Rightarrow> Inr m1
       | Some c \<Rightarrow> bind_exec (sync_set_capacity cap c) (\<lambda>c'. Inr (m1\<lparr>sync_msgs := Some c'\<rparr>)))"

definition mailbox_connected :: "'e Mailbox \<Rightarrow> bool" where
  "mailbox_connected m \<longleftrightarrow>
     urx_connected (unsync_msgs m) \<or>
     (case sync_msgs m of None \<Rightarrow> False | Some c \<Rightarrow> sync_rx_connected c)"

definition remote_address :: "'e Mailbox \<Rightarrow> (SyncAddressSender \<times> 'e Mailbox) exec" where
  "remote_address m =
     (case sync_msgs m of
        None \<Rightarrow>
          bind_exec (urx_capacity (unsync_msgs m)) (\<lambda>cap.
            bind_exec (channel cap) (\<lambda>(tx, rx). Inr (tx, m\<lparr>sync_msgs := Some rx\<rparr>)))
      | Some addr \<Rightarrow> bind_exec (sync_sender addr) (\<lambda>(tx, c). Inr (tx, m\<lparr>sync_msgs := Some c\<rparr>)))"

definition unsync_address :: "'e Mailbox \<Rightarrow> 'e Mailbox" where
  "unsync_address m = m\<lparr>unsync_msgs := urx_sender (unsync_msgs m)\<rparr>"

section \<open>Polling\<close>

text \<open>
  The counter \<^verbatim>\<open>NumPolls\<close> is incremented inside \<^verbatim>\<open>debug_assert!\<close>, so it moves only in a build
  with debug assertions (\<open>dbg\<close>), where it stays below \<^verbatim>\<open>MAX_SYNC_POLLS\<close> or the thread panics.
\<close>

definition debug_count :: "bool \<Rightarrow> nat \<Rightarrow> nat exec" where
  "debug_count dbg n =
     (if dbg then (if Suc n < MAX_SYNC_POLLS then Inr (Suc n) else Inl Panicked) else Inr n)"

text \<open>
  The two inner loops of \<^verbatim>\<open>poll\<close> are the same but for the receiver they poll (\<open>pollq\<close>).  The
  result says whether the whole poll returns (the context is waiting), the counter, \<^verbatim>\<open>not_ready\<close>
  and the host.
\<close>

fun msgs_loop ::
  "bool \<Rightarrow> ('c \<Rightarrow> bool) \<Rightarrow> ('c \<Rightarrow> (('e option, unit) Poll \<times> 'c) exec) \<Rightarrow> ('e \<Rightarrow> 'c \<Rightarrow> 'c exec) \<Rightarrow>
   nat \<Rightarrow> nat \<Rightarrow> bool \<Rightarrow> 'c \<Rightarrow> (bool \<times> nat \<times> bool \<times> 'c) exec" where
  "msgs_loop dbg waiting pollq handle 0 n nr c = Inl OutOfFuel"
| "msgs_loop dbg waiting pollq handle (Suc k) n nr c =
     (if waiting c then Inr (True, n, nr, c)
      else bind_exec (pollq c) (\<lambda>(r, c1).
        case r of
          Inr (Ready (Some msg)) \<Rightarrow>
            bind_exec (handle msg c1) (\<lambda>c2.
              bind_exec (debug_count dbg n) (\<lambda>n2.
                msgs_loop dbg waiting pollq handle k n2 False c2))
        | _ \<Rightarrow> Inr (False, n, nr, c1)))"

definition poll_unsync ::
  "task \<Rightarrow> ('c \<Rightarrow> 'e Mailbox) \<Rightarrow> ('e Mailbox \<Rightarrow> 'c \<Rightarrow> 'c) \<Rightarrow> 'c \<Rightarrow> (('e option, unit) Poll \<times> 'c) exec" where
  "poll_unsync cur mb put c =
     bind_exec (urx_poll cur (unsync_msgs (mb c))) (\<lambda>(r, u).
       Inr (r, put ((mb c)\<lparr>unsync_msgs := u\<rparr>) c))"

definition poll_sync ::
  "task \<Rightarrow> ('c \<Rightarrow> 'e Mailbox) \<Rightarrow> ('e Mailbox \<Rightarrow> 'c \<Rightarrow> 'c) \<Rightarrow> 'c \<Rightarrow> (('e option, unit) Poll \<times> 'c) exec" where
  "poll_sync cur mb put c =
     (case sync_msgs (mb c) of
        None \<Rightarrow> Inl UseAfterFree
      | Some ch \<Rightarrow> bind_exec (sync_poll cur ch) (\<lambda>(r, ch').
          Inr (r, put ((mb c)\<lparr>sync_msgs := Some ch'\<rparr>) c)))"

fun mailbox_poll_loop ::
  "bool \<Rightarrow> task \<Rightarrow> ('c \<Rightarrow> bool) \<Rightarrow> ('c \<Rightarrow> 'e Mailbox) \<Rightarrow> ('e Mailbox \<Rightarrow> 'c \<Rightarrow> 'c) \<Rightarrow>
   ('e \<Rightarrow> 'c \<Rightarrow> 'c exec) \<Rightarrow> nat \<Rightarrow> nat \<Rightarrow> nat \<Rightarrow> 'c \<Rightarrow> 'c exec" where
  "mailbox_poll_loop dbg cur waiting mb put handle inner 0 n c = Inl OutOfFuel"
| "mailbox_poll_loop dbg cur waiting mb put handle inner (Suc k) n c =
     bind_exec (msgs_loop dbg waiting (poll_unsync cur mb put) handle inner n True c) (\<lambda>(ret, n1, nr1, c1).
       if ret then Inr c1
       else case sync_msgs (mb c1) of
         None \<Rightarrow>
           if nr1 then Inr c1
           else mailbox_poll_loop dbg cur waiting mb put handle inner k n1 c1
       | Some _ \<Rightarrow>
           bind_exec (msgs_loop dbg waiting (poll_sync cur mb put) handle inner n1 nr1 c1)
             (\<lambda>(ret2, n2, nr2, c2).
               if ret2 \<or> nr2 then Inr c2
               else mailbox_poll_loop dbg cur waiting mb put handle inner k n2 c2))"

definition mailbox_poll ::
  "bool \<Rightarrow> task \<Rightarrow> ('c \<Rightarrow> bool) \<Rightarrow> ('c \<Rightarrow> 'e Mailbox) \<Rightarrow> ('e Mailbox \<Rightarrow> 'c \<Rightarrow> 'c) \<Rightarrow>
   ('e \<Rightarrow> 'c \<Rightarrow> 'c exec) \<Rightarrow> nat \<Rightarrow> 'c \<Rightarrow> 'c exec" where
  "mailbox_poll dbg cur waiting mb put handle fuel c =
     mailbox_poll_loop dbg cur waiting mb put handle fuel fuel 0 c"

section \<open>Invariants of the loop\<close>

text \<open>
  A predicate that the two polls keep, and that the handlers keep when they run in a context that
  is not waiting, is kept by the whole poll.
\<close>

lemma msgs_loop_invariant:
  assumes pollq: "\<And>c r c'. P c \<Longrightarrow> \<not> waiting c \<Longrightarrow> pollq c = Inr (r, c') \<Longrightarrow> P c' \<and> \<not> waiting c'"
    and hd: "\<And>e c c'. P c \<Longrightarrow> \<not> waiting c \<Longrightarrow> handle e c = Inr c' \<Longrightarrow> P c'"
  shows "P c \<Longrightarrow> msgs_loop dbg waiting pollq handle fuel n nr c = Inr (ret, n', nr', c') \<Longrightarrow> P c'"
proof (induction fuel arbitrary: c n nr)
  case (Suc k)
  show ?case
  proof (cases "waiting c")
    case False
    obtain r c1 where 1: "pollq c = Inr (r, c1)"
      using Suc.prems(2) False by (auto simp: bind_exec_eq_Inr)
    have P1: "P c1" "\<not> waiting c1" using pollq [OF Suc.prems(1) False 1] by auto
    show ?thesis
    proof (cases "\<exists>msg. r = PReady (Some msg)")
      case True
      then show ?thesis
        using Suc.prems(2) False 1 P1 hd Suc.IH by (fastforce simp: bind_exec_eq_Inr)
    next
      case False
      then show ?thesis
        using Suc.prems(2) \<open>\<not> waiting c\<close> 1 P1 by (auto split: sum.splits Async.splits option.splits)
    qed
  qed (use Suc in auto)
qed simp

lemma mailbox_poll_keeps:
  assumes u: "\<And>c r c'. P c \<Longrightarrow> \<not> waiting c \<Longrightarrow> poll_unsync cur mb put c = Inr (r, c') \<Longrightarrow> P c' \<and> \<not> waiting c'"
    and s: "\<And>c r c'. P c \<Longrightarrow> \<not> waiting c \<Longrightarrow> poll_sync cur mb put c = Inr (r, c') \<Longrightarrow> P c' \<and> \<not> waiting c'"
    and hd: "\<And>e c c'. P c \<Longrightarrow> \<not> waiting c \<Longrightarrow> handle e c = Inr c' \<Longrightarrow> P c'"
    and "P c" and "mailbox_poll dbg cur waiting mb put handle fuel c = Inr c'"
  shows "P c'"
proof -
  have iu: "P c'" if "P c" "msgs_loop dbg waiting (poll_unsync cur mb put) handle inner n nr c = Inr (ret, n', nr', c')"
    for inner n nr c ret n' nr' c'
    using msgs_loop_invariant [of P waiting "poll_unsync cur mb put" handle, OF u hd that] .
  have isy: "P c'" if "P c" "msgs_loop dbg waiting (poll_sync cur mb put) handle inner n nr c = Inr (ret, n', nr', c')"
    for inner n nr c ret n' nr' c'
    using msgs_loop_invariant [of P waiting "poll_sync cur mb put" handle, OF s hd that] .
  have "P c \<Longrightarrow> mailbox_poll_loop dbg cur waiting mb put handle inner k n c = Inr c' \<Longrightarrow> P c'" for inner k n c
  proof (induction k arbitrary: n c)
    case (Suc k)
    obtain ret n1 nr1 c1 where 1: "msgs_loop dbg waiting (poll_unsync cur mb put) handle inner n True c = Inr (ret, n1, nr1, c1)"
      using Suc.prems(2) by (auto simp: bind_exec_eq_Inr)
    have P1: "P c1" by (rule iu [OF Suc.prems(1) 1])
    show ?case
    proof (cases "\<not> ret \<and> sync_msgs (mb c1) \<noteq> None")
      case True
      then obtain ret2 n2 nr2 c2 where 2: "msgs_loop dbg waiting (poll_sync cur mb put) handle inner n1 nr1 c1 = Inr (ret2, n2, nr2, c2)"
        using Suc.prems(2) 1 by (auto simp: bind_exec_eq_Inr)
      have "P c2" by (rule isy [OF P1 2])
      then show ?thesis using Suc True 1 2 by (auto split: if_splits)
    next
      case False
      then show ?thesis using Suc 1 P1 by (auto split: if_splits)
    qed
  qed simp
  then show ?thesis using assms(4,5) by (simp add: mailbox_poll_def)
qed

lemma mailbox_poll_invariant:
  assumes put: "\<And>c m. P c \<Longrightarrow> P (put m c)" "\<And>c m. waiting (put m c) = waiting c"
    and hd: "\<And>e c c'. P c \<Longrightarrow> \<not> waiting c \<Longrightarrow> handle e c = Inr c' \<Longrightarrow> P c'"
    and "P c" and "mailbox_poll dbg cur waiting mb put handle fuel c = Inr c'"
  shows "P c'"
proof (rule mailbox_poll_keeps [of P waiting cur mb put handle, OF _ _ hd assms(4,5)])
  show "P c' \<and> \<not> waiting c'" if "P c" "\<not> waiting c" "poll_unsync cur mb put c = Inr (r, c')" for c c' r
    using that put by (auto simp: poll_unsync_def bind_exec_eq_Inr)
  show "P c' \<and> \<not> waiting c'" if "P c" "\<not> waiting c" "poll_sync cur mb put c = Inr (r, c')" for c c' r
    using that put by (auto simp: poll_sync_def bind_exec_eq_Inr split: option.splits)
qed

text \<open>Who can reach the mailbox: the polls do not change it.\<close>

definition mailbox_reach :: "'e Mailbox \<Rightarrow> nat \<times> usize option" where
  "mailbox_reach m = (rc_weak (unsync_msgs m), map_option i_num_senders (sync_msgs m))"

lemma mailbox_connected_reach: "mailbox_reach m = mailbox_reach m' \<Longrightarrow> mailbox_connected m = mailbox_connected m'"
  by (auto simp: mailbox_reach_def mailbox_connected_def urx_connected_def sync_rx_connected_def split: option.splits)

lemma urx_poll_weak: "urx_poll cur u = Inr (r, u') \<Longrightarrow> rc_weak u' = rc_weak u"
  by (auto simp: urx_poll_def with_shared_def wake_def split: option.splits list.splits if_splits)

lemma mailbox_poll_reach:
  assumes "\<And>c m. mb (put m c) = m" and "\<And>c m. waiting (put m c) = waiting c"
    and "\<And>e c c'. \<not> waiting c \<Longrightarrow> handle e c = Inr c' \<Longrightarrow> mb c' = mb c"
    and "mailbox_poll dbg cur waiting mb put handle fuel c = Inr c'"
  shows "mailbox_reach (mb c') = mailbox_reach (mb c)"
proof (rule mailbox_poll_keeps [of "\<lambda>c'. mailbox_reach (mb c') = mailbox_reach (mb c)", OF _ _ _ refl assms(4)])
  fix c1 r c1'
  show "mailbox_reach (mb c1') = mailbox_reach (mb c) \<and> \<not> waiting c1'"
    if "mailbox_reach (mb c1) = mailbox_reach (mb c)" "\<not> waiting c1" "poll_unsync cur mb put c1 = Inr (r, c1')"
    using that assms(1,2) by (auto simp: poll_unsync_def bind_exec_eq_Inr mailbox_reach_def dest: urx_poll_weak)
  show "mailbox_reach (mb c1') = mailbox_reach (mb c) \<and> \<not> waiting c1'"
    if "mailbox_reach (mb c1) = mailbox_reach (mb c)" "\<not> waiting c1" "poll_sync cur mb put c1 = Inr (r, c1')"
    using that assms(1,2) by (auto simp: poll_sync_def bind_exec_eq_Inr mailbox_reach_def split: option.splits dest: sync_poll_senders)
qed (use assms(3) in auto)

lemma mailbox_poll_waiting:
  "waiting c \<Longrightarrow> mailbox_poll dbg cur waiting mb put handle (Suc k) c = Inr c"
  by (simp add: mailbox_poll_def)

section \<open>Draining a receiver\<close>

text \<open>
  A receiver seen by the loop: \<open>holds c ms\<close> says that it has the messages \<open>ms\<close>, \<open>seen c\<close> are
  the messages handled so far.
\<close>

locale message_source =
  fixes waiting :: "'c \<Rightarrow> bool"
    and pollq :: "'c \<Rightarrow> (('e option, unit) Poll \<times> 'c) exec"
    and handle :: "'e \<Rightarrow> 'c \<Rightarrow> 'c exec"
    and holds :: "'c \<Rightarrow> 'e list \<Rightarrow> bool"
    and seen :: "'c \<Rightarrow> 'l list"
    and ev :: "'e \<Rightarrow> 'l"
  assumes src_empty: "holds c [] \<Longrightarrow> \<exists>r c'. pollq c = Inr (r, c') \<and> (\<forall>m. r \<noteq> PReady (Some m)) \<and>
      holds c' [] \<and> seen c' = seen c \<and> waiting c' = waiting c"
    and src_data: "holds c (m # ms) \<Longrightarrow> \<exists>c'. pollq c = Inr (PReady (Some m), c') \<and> holds c' ms \<and>
      seen c' = seen c \<and> waiting c' = waiting c"
    and handled: "holds c ms \<Longrightarrow> \<not> waiting c \<Longrightarrow> \<exists>c'. handle m c = Inr c' \<and> holds c' ms \<and>
      seen c' = seen c @ [ev m] \<and> \<not> waiting c'"
begin

lemma loop_step_empty:
  assumes "holds c []" and "\<not> waiting c"
  shows "\<exists>c'. msgs_loop dbg waiting pollq handle (Suc k) n nr c = Inr (False, n, nr, c') \<and>
    holds c' [] \<and> seen c' = seen c \<and> \<not> waiting c'"
proof -
  obtain r c' where 1: "pollq c = Inr (r, c')" "\<forall>m. r \<noteq> PReady (Some m)" "holds c' []" "seen c' = seen c"
    "waiting c' = waiting c" using src_empty [OF assms(1)] by blast
  then show ?thesis using assms(2) by (auto split: sum.splits Async.splits option.splits)
qed

lemma loop_step_data:
  assumes "holds c (m # ms)" and "\<not> waiting c"
  shows "\<exists>c'. msgs_loop dbg waiting pollq handle (Suc k) n nr c =
      bind_exec (debug_count dbg n) (\<lambda>n2. msgs_loop dbg waiting pollq handle k n2 False c') \<and>
    holds c' ms \<and> seen c' = seen c @ [ev m] \<and> \<not> waiting c'"
proof -
  obtain c1 where 1: "pollq c = Inr (PReady (Some m), c1)" "holds c1 ms" "seen c1 = seen c" "\<not> waiting c1"
    using src_data [OF assms(1)] assms(2) by blast
  obtain c2 where "handle m c1 = Inr c2" "holds c2 ms" "seen c2 = seen c1 @ [ev m]" "\<not> waiting c2"
    using handled [OF 1(2,4)] by blast
  then show ?thesis using 1 assms(2) by auto
qed

lemma loop_all:
  "\<lbrakk>holds c ms; \<not> waiting c; length ms < fuel; dbg \<longrightarrow> n + length ms < MAX_SYNC_POLLS\<rbrakk> \<Longrightarrow>
   \<exists>c'. msgs_loop dbg waiting pollq handle fuel n nr c =
       Inr (False, if dbg then n + length ms else n, nr \<and> ms = [], c') \<and>
     holds c' [] \<and> seen c' = seen c @ map ev ms \<and> \<not> waiting c'"
proof (induction ms arbitrary: c fuel n nr)
  case Nil
  then show ?case using loop_step_empty [of c dbg _ n nr] by (cases fuel) auto
next
  case (Cons m ms)
  then obtain k where k: "fuel = Suc k" by (cases fuel) auto
  obtain c1 where 1: "msgs_loop dbg waiting pollq handle (Suc k) n nr c =
      bind_exec (debug_count dbg n) (\<lambda>n2. msgs_loop dbg waiting pollq handle k n2 False c1)"
    "holds c1 ms" "seen c1 = seen c @ [ev m]" "\<not> waiting c1"
    using loop_step_data [OF Cons.prems(1,2)] by blast
  have d: "debug_count dbg n = Inr (if dbg then Suc n else n)"
    using Cons.prems(4) by (auto simp: debug_count_def)
  show ?case
    using Cons.IH [OF 1(2,4), of k "if dbg then Suc n else n" False] Cons.prems(3,4) 1 d k by auto
qed

lemma loop_overrun:
  "\<lbrakk>holds c ms; \<not> waiting c; length ms < fuel; n < MAX_SYNC_POLLS; MAX_SYNC_POLLS \<le> n + length ms\<rbrakk> \<Longrightarrow>
   msgs_loop True waiting pollq handle fuel n nr c = Inl Panicked"
proof (induction ms arbitrary: c fuel n nr)
  case (Cons m ms)
  then obtain k where k: "fuel = Suc k" by (cases fuel) auto
  obtain c1 where 1: "msgs_loop True waiting pollq handle (Suc k) n nr c =
      bind_exec (debug_count True n) (\<lambda>n2. msgs_loop True waiting pollq handle k n2 False c1)"
    "holds c1 ms" "\<not> waiting c1"
    using loop_step_data [OF Cons.prems(1,2)] by blast
  then show ?case
    using Cons.IH [OF 1(2,3), of k "Suc n" False] Cons.prems(3-) k
    by (cases "Suc n < MAX_SYNC_POLLS") (auto simp: debug_count_def)
qed auto

end

section \<open>Hosts\<close>

text \<open>What the loop needs of its host, and hosts whose handlers leave the mailbox alone.\<close>

locale mailbox_host =
  fixes waiting :: "'c \<Rightarrow> bool"
    and mb :: "'c \<Rightarrow> 'e Mailbox"
    and put :: "'e Mailbox \<Rightarrow> 'c \<Rightarrow> 'c"
    and handle :: "'e \<Rightarrow> 'c \<Rightarrow> 'c exec"
    and seen :: "'c \<Rightarrow> 'l list"
    and ev :: "'e \<Rightarrow> 'l"
    and ok :: "'c \<Rightarrow> bool"
  assumes mb_put: "mb (put m c) = m"
    and ok_put: "ok (put m c) = ok c"
    and waiting_put: "waiting (put m c) = waiting c"
    and seen_put: "seen (put m c) = seen c"

locale quiet_host = mailbox_host +
  assumes quiet: "ok c \<Longrightarrow> \<not> waiting c \<Longrightarrow> \<exists>c'. handle e c = Inr c' \<and> mb c' = mb c \<and> ok c' \<and> \<not> waiting c' \<and>
      seen c' = seen c @ [ev e]"

text \<open>The messages of the thread-safe receiver; none while it does not exist.\<close>

definition sync_holds :: "'e Mailbox \<Rightarrow> 'e list \<Rightarrow> bool" where
  "sync_holds m ms \<longleftrightarrow>
     (case sync_msgs m of None \<Rightarrow> ms = [] | Some ch \<Rightarrow> chan_open ch \<and> (\<exists>ps. chan_wf ch ms ps))"

lemma sync_poll_holds_empty:
  assumes "sync_holds m []" and "sync_msgs m = Some ch"
  shows "\<exists>ch'. sync_poll cur ch = Inr (PNotReady, ch') \<and> sync_holds (m\<lparr>sync_msgs := Some ch'\<rparr>) []"
proof -
  obtain ps where "chan_wf ch [] ps" "chan_open ch" using assms by (auto simp: sync_holds_def)
  then show ?thesis using sync_poll_empty [of ch ps cur] by (auto simp: sync_holds_def chan_wf_def)
qed

lemma sync_poll_holds_data:
  assumes "sync_holds m (x # xs)" and "sync_msgs m = Some ch"
  shows "\<exists>ch'. sync_poll cur ch = Inr (PReady (Some x), ch') \<and> sync_holds (m\<lparr>sync_msgs := Some ch'\<rparr>) xs"
proof -
  obtain ps where "chan_wf ch (x # xs) ps" "chan_open ch" using assms by (auto simp: sync_holds_def)
  then show ?thesis using sync_poll_data [of ch x xs ps cur] by (auto simp: sync_holds_def)
qed

sublocale quiet_host < uns: message_source waiting "poll_unsync cur mb put" handle
  "\<lambda>c ms. ok c \<and> u_rep (unsync_msgs (mb c)) ms \<and> sync_msgs (mb c) = s0" seen ev for cur s0
proof unfold_locales
  fix c m ms
  show "ok c \<and> u_rep (unsync_msgs (mb c)) [] \<and> sync_msgs (mb c) = s0 \<Longrightarrow> \<exists>r c'. poll_unsync cur mb put c = Inr (r, c') \<and>
      (\<forall>m. r \<noteq> PReady (Some m)) \<and> (ok c' \<and> u_rep (unsync_msgs (mb c')) [] \<and> sync_msgs (mb c') = s0) \<and>
      seen c' = seen c \<and> waiting c' = waiting c"
    by (auto simp: poll_unsync_def u_rep_def urx_poll_def mb_put ok_put waiting_put seen_put)
  show "ok c \<and> u_rep (unsync_msgs (mb c)) (m # ms) \<and> sync_msgs (mb c) = s0 \<Longrightarrow>
      \<exists>c'. poll_unsync cur mb put c = Inr (PReady (Some m), c') \<and>
      (ok c' \<and> u_rep (unsync_msgs (mb c')) ms \<and> sync_msgs (mb c') = s0) \<and> seen c' = seen c \<and> waiting c' = waiting c"
    by (auto simp: poll_unsync_def u_rep_def urx_poll_def mb_put ok_put waiting_put seen_put split: list.splits)
qed (use quiet in fastforce)

sublocale quiet_host < syn: message_source waiting "poll_sync cur mb put" handle
  "\<lambda>c ms. ok c \<and> sync_holds (mb c) ms \<and> sync_msgs (mb c) \<noteq> None \<and> u_rep (unsync_msgs (mb c)) us" seen ev
  for cur us
proof unfold_locales
  fix c m ms
  show "\<exists>r c'. poll_sync cur mb put c = Inr (r, c') \<and> (\<forall>m. r \<noteq> PReady (Some m)) \<and>
      (ok c' \<and> sync_holds (mb c') [] \<and> sync_msgs (mb c') \<noteq> None \<and> u_rep (unsync_msgs (mb c')) us) \<and>
      seen c' = seen c \<and> waiting c' = waiting c"
    if h: "ok c \<and> sync_holds (mb c) [] \<and> sync_msgs (mb c) \<noteq> None \<and> u_rep (unsync_msgs (mb c)) us"
  proof -
    obtain ch where ch: "sync_msgs (mb c) = Some ch" using h by auto
    then show ?thesis using h sync_poll_holds_empty [of "mb c" ch cur]
      by (auto simp: poll_sync_def mb_put ok_put waiting_put seen_put)
  qed
  show "\<exists>c'. poll_sync cur mb put c = Inr (PReady (Some m), c') \<and>
      (ok c' \<and> sync_holds (mb c') ms \<and> sync_msgs (mb c') \<noteq> None \<and> u_rep (unsync_msgs (mb c')) us) \<and>
      seen c' = seen c \<and> waiting c' = waiting c"
    if h: "ok c \<and> sync_holds (mb c) (m # ms) \<and> sync_msgs (mb c) \<noteq> None \<and> u_rep (unsync_msgs (mb c)) us"
  proof -
    obtain ch where ch: "sync_msgs (mb c) = Some ch" using h by auto
    then show ?thesis using h sync_poll_holds_data [of "mb c" m ms ch cur]
      by (auto simp: poll_sync_def mb_put ok_put waiting_put seen_put)
  qed
qed (use quiet in fastforce)

context quiet_host
begin

text \<open>Both receivers are drained in order: first the single-thread one, then the thread-safe one.\<close>

lemma drain_turn:
  assumes o: "ok c" and u: "u_rep (unsync_msgs (mb c)) us" and s: "sync_holds (mb c) ms" and nw: "\<not> waiting c"
    and f: "length us < fuel" "length ms < fuel" and d: "dbg \<longrightarrow> n + length us + length ms < MAX_SYNC_POLLS"
  shows "\<exists>c'. mailbox_poll_loop dbg cur waiting mb put handle fuel (Suc k) n c =
      (if us = [] \<and> ms = [] then Inr c'
       else mailbox_poll_loop dbg cur waiting mb put handle fuel k (if dbg then n + length us + length ms else n) c') \<and>
    \<not> waiting c' \<and> ok c' \<and> seen c' = seen c @ map ev (us @ ms) \<and> u_rep (unsync_msgs (mb c')) [] \<and> sync_holds (mb c') []"
  supply mailbox_poll_loop.simps(2) [simp del] msgs_loop.simps(2) [simp del]
proof -
  note step = mailbox_poll_loop.simps(2)
  obtain c1 where 1: "msgs_loop dbg waiting (poll_unsync cur mb put) handle fuel n True c =
      Inr (False, if dbg then n + length us else n, us = [], c1)"
    "u_rep (unsync_msgs (mb c1)) []" "sync_msgs (mb c1) = sync_msgs (mb c)" "seen c1 = seen c @ map ev us" "\<not> waiting c1" "ok c1"
    using uns.loop_all [of c us "sync_msgs (mb c)" fuel dbg n cur True] o u nw f d by auto
  show ?thesis
  proof (cases "sync_msgs (mb c)")
    case None
    then have "ms = []" using s by (simp add: sync_holds_def)
    then show ?thesis using 1 None by (intro exI [of _ c1]) (simp add: sync_holds_def step)
  next
    case (Some ch)
    have s1: "sync_holds (mb c1) ms" using s 1(3) by (simp add: sync_holds_def)
    obtain c2 where "msgs_loop dbg waiting (poll_sync cur mb put) handle fuel (if dbg then n + length us else n) (us = []) c1 =
        Inr (False, if dbg then n + length us + length ms else n, us = [] \<and> ms = [], c2)"
      "sync_holds (mb c2) []" "u_rep (unsync_msgs (mb c2)) []" "seen c2 = seen c1 @ map ev ms" "\<not> waiting c2" "ok c2"
      using syn.loop_all [of c1 ms "[]" fuel dbg "if dbg then n + length us else n" cur "us = []"] s1 1 Some f d
      by auto
    then show ?thesis using 1 Some by (intro exI [of _ c2]) (simp add: step)
  qed
qed

lemma poll_drains:
  assumes o: "ok c" and u: "u_rep (unsync_msgs (mb c)) us" and s: "sync_holds (mb c) ms" and nw: "\<not> waiting c"
    and fuel: "length us < fuel" "length ms < fuel" "2 \<le> fuel"
    and d: "dbg \<longrightarrow> length us + length ms < MAX_SYNC_POLLS"
  shows "\<exists>c'. mailbox_poll dbg cur waiting mb put handle fuel c = Inr c' \<and> \<not> waiting c' \<and>
    ok c' \<and> seen c' = seen c @ map ev (us @ ms) \<and> u_rep (unsync_msgs (mb c')) [] \<and> sync_holds (mb c') []"
  supply mailbox_poll_loop.simps(2) [simp del] msgs_loop.simps(2) [simp del]
proof -
  obtain j where j: "fuel = Suc (Suc j)" using that [of "fuel - 2"] fuel(3) by simp
  let ?n = "if dbg then 0 + length us + length ms else 0"
  have d0: "dbg \<longrightarrow> 0 + length us + length ms < MAX_SYNC_POLLS" using d by simp
  obtain c1 where 1: "mailbox_poll_loop dbg cur waiting mb put handle fuel (Suc (Suc j)) 0 c =
      (if us = [] \<and> ms = [] then Inr c1 else mailbox_poll_loop dbg cur waiting mb put handle fuel (Suc j) ?n c1)"
    "\<not> waiting c1" "ok c1" "seen c1 = seen c @ map ev (us @ ms)" "u_rep (unsync_msgs (mb c1)) []" "sync_holds (mb c1) []"
    using drain_turn [OF o u s nw fuel(1,2) d0, of cur "Suc j"] by blast
  obtain c2 where "mailbox_poll_loop dbg cur waiting mb put handle fuel (Suc j) ?n c1 = Inr c2" "\<not> waiting c2"
    "ok c2" "seen c2 = seen c1" "u_rep (unsync_msgs (mb c2)) []" "sync_holds (mb c2) []"
    using drain_turn [OF 1(3,5,6,2), of fuel dbg ?n cur j] d fuel(1) by auto
  then show ?thesis using 1 j by (cases "us = [] \<and> ms = []") (auto simp: mailbox_poll_def)
qed

lemma poll_overrun:
  assumes o: "ok c" and u: "u_rep (unsync_msgs (mb c)) us" and nw: "\<not> waiting c" and fuel: "length us < fuel"
    and n: "MAX_SYNC_POLLS \<le> length us"
  shows "mailbox_poll True cur waiting mb put handle fuel c = Inl Panicked"
proof -
  have "msgs_loop True waiting (poll_unsync cur mb put) handle fuel 0 True c = Inl Panicked"
    using uns.loop_overrun [of c us "sync_msgs (mb c)" fuel 0 cur True] o u nw fuel n by (simp add: MAX_SYNC_POLLS_def)
  then show ?thesis using fuel by (cases fuel) (auto simp: mailbox_poll_def)
qed

end

end
