(* ===== verification/Actor_Context.thy ===== *)
theory Actor_Context
  imports Mailbox
begin

text \<open>
  The actor execution context (\<^verbatim>\<open>src/contextimpl.rs\<close>, \<^verbatim>\<open>src/context.rs\<close>, the types of
  \<^verbatim>\<open>src/actor.rs\<close>, \<^verbatim>\<open>ActorWaitItem\<close> of \<^verbatim>\<open>src/contextitems.rs\<close>).

  User code (the callbacks of the \<^verbatim>\<open>Actor\<close> trait, message handlers, the futures spawned into the
  context) is a parameter.  It reaches the context only through the methods of \<^verbatim>\<open>ActorContext\<close>
  and \<^verbatim>\<open>AsyncContext\<close>, so it is represented as a tree of such calls, \<open>code\<close>, whose branches
  depend on what the calls return.  The state \<open>'w\<close> is the actor together with the internal state
  of its futures; \<open>'f\<close> identifies a boxed future, \<open>'e\<close> is an envelope.  \<open>c_log\<close> is a ghost
  field: the callbacks made, in order.
\<close>

unbundle bit_operations_syntax

section \<open>Flags\<close>

definition STARTED :: u8 where "STARTED = 0b00000001"

definition RUNNING :: u8 where "RUNNING = 0b00000010"

definition STOPPING :: u8 where "STOPPING = 0b00000100"

definition STOPPED :: u8 where "STOPPED = 0b00010000"

definition MODIFIED :: u8 where "MODIFIED = 0b00100000"

lemmas flag_defs = STARTED_def RUNNING_def STOPPING_def STOPPED_def MODIFIED_def

definition flag_contains :: "u8 \<Rightarrow> u8 \<Rightarrow> bool" where
  "flag_contains f g \<longleftrightarrow> f AND g = g"

definition flag_intersects :: "u8 \<Rightarrow> u8 \<Rightarrow> bool" where
  "flag_intersects f g \<longleftrightarrow> f AND g \<noteq> 0"

definition flag_insert :: "u8 \<Rightarrow> u8 \<Rightarrow> u8" where
  "flag_insert f g = f OR g"

definition flag_remove :: "u8 \<Rightarrow> u8 \<Rightarrow> u8" where
  "flag_remove f g = f AND NOT g"

section \<open>State\<close>

datatype ActorState = Started | StateRunning | Stopping | Stopped

datatype Running = Stop | Continue

definition state_alive :: "ActorState \<Rightarrow> bool" where
  "state_alive s \<longleftrightarrow> s = Started \<or> s = StateRunning"

type_synonym SpawnHandle = usize

definition handle_default :: SpawnHandle where
  "handle_default = 0"

text \<open>\<^verbatim>\<open>self.0 + 1\<close> panics on overflow in a build with debug assertions and wraps otherwise.\<close>

definition handle_next :: "bool \<Rightarrow> SpawnHandle \<Rightarrow> SpawnHandle exec" where
  "handle_next dbg h = (if dbg \<and> h + 1 = 0 then Inl Panicked else Inr (h + 1))"

datatype ('f, 'e) event =
    EvStarted
  | EvMessage 'e bool
  | EvWaitPoll 'f
  | EvItemPoll SpawnHandle 'f
  | EvStopping Running
  | EvStopped
  | EvRestarting

record ('w, 'f, 'e) ContextImpl =
  c_act :: "'w option"
  c_flags :: u8
  c_mailbox :: "'e Mailbox"
  c_wait :: "'f list"
  c_items :: "(SpawnHandle \<times> 'f) list"
  c_handle :: SpawnHandle
  c_curr_handle :: SpawnHandle
  c_log :: "('f, 'e) event list"

definition ctx_new :: "'w option \<Rightarrow> ('w, 'f, 'e) ContextImpl" where
  "ctx_new a =
     \<lparr>c_act = a, c_flags = RUNNING, c_mailbox = mailbox_default, c_wait = [], c_items = [],
      c_handle = handle_default, c_curr_handle = handle_default, c_log = []\<rparr>"

definition ctx_with_receiver :: "'w option \<Rightarrow> 'e Chan \<Rightarrow> ('w, 'f, 'e) ContextImpl" where
  "ctx_with_receiver a rx =
     \<lparr>c_act = a, c_flags = RUNNING, c_mailbox = mailbox_new rx, c_wait = [], c_items = [],
      c_handle = handle_default, c_curr_handle = handle_default, c_log = []\<rparr>"

section \<open>Methods of the context\<close>

definition ctx_modify :: "('w, 'f, 'e) ContextImpl \<Rightarrow> ('w, 'f, 'e) ContextImpl" where
  "ctx_modify c = c\<lparr>c_flags := flag_insert (c_flags c) MODIFIED\<rparr>"

definition ctx_waiting :: "('w, 'f, 'e) ContextImpl \<Rightarrow> bool" where
  "ctx_waiting c \<longleftrightarrow> c_wait c \<noteq> [] \<or> flag_intersects (c_flags c) (STOPPING OR STOPPED)"

definition ctx_stop :: "('w, 'f, 'e) ContextImpl \<Rightarrow> ('w, 'f, 'e) ContextImpl" where
  "ctx_stop c =
     (if flag_contains (c_flags c) RUNNING
      then c\<lparr>c_flags := flag_insert (flag_remove (c_flags c) (RUNNING OR MODIFIED)) STOPPING\<rparr>
      else c)"

definition ctx_terminate :: "('w, 'f, 'e) ContextImpl \<Rightarrow> ('w, 'f, 'e) ContextImpl" where
  "ctx_terminate c = c\<lparr>c_flags := STOPPED\<rparr>"

definition ctx_state :: "('w, 'f, 'e) ContextImpl \<Rightarrow> ActorState" where
  "ctx_state c =
     (if flag_contains (c_flags c) RUNNING then StateRunning
      else if flag_contains (c_flags c) STOPPED then Stopped
      else if flag_contains (c_flags c) STOPPING then Stopping
      else Started)"

definition ctx_spawn ::
  "bool \<Rightarrow> 'f \<Rightarrow> ('w, 'f, 'e) ContextImpl \<Rightarrow> (SpawnHandle \<times> ('w, 'f, 'e) ContextImpl) exec" where
  "ctx_spawn dbg fut c =
     (let c1 = ctx_modify c in
      bind_exec (handle_next dbg (c_handle c1)) (\<lambda>h.
        Inr (h, c1\<lparr>c_handle := h, c_items := c_items c1 @ [(h, fut)]\<rparr>)))"

definition ctx_wait :: "'f \<Rightarrow> ('w, 'f, 'e) ContextImpl \<Rightarrow> ('w, 'f, 'e) ContextImpl" where
  "ctx_wait f c = (let c1 = ctx_modify c in c1\<lparr>c_wait := c_wait c1 @ [f]\<rparr>)"

text \<open>The index of the first item with the given handle.\<close>

fun find_handle :: "SpawnHandle \<Rightarrow> (SpawnHandle \<times> 'f) list \<Rightarrow> nat option" where
  "find_handle h [] = None"
| "find_handle h (it # its) = (if fst it = h then Some 0 else map_option Suc (find_handle h its))"

definition ctx_cancel_future ::
  "SpawnHandle \<Rightarrow> ('w, 'f, 'e) ContextImpl \<Rightarrow> (bool \<times> ('w, 'f, 'e) ContextImpl) exec" where
  "ctx_cancel_future h c =
     (case find_handle h (c_items c) of
        None \<Rightarrow> Inr (False, c)
      | Some idx \<Rightarrow>
          (let c1 = ctx_modify c in
           bind_exec (swap_remove idx (c_items c1)) (\<lambda>its. Inr (True, c1\<lparr>c_items := its\<rparr>))))"

definition ctx_capacity :: "('w, 'f, 'e) ContextImpl \<Rightarrow> usize exec" where
  "ctx_capacity c = mailbox_capacity (c_mailbox c)"

definition ctx_set_mailbox_capacity ::
  "usize \<Rightarrow> ('w, 'f, 'e) ContextImpl \<Rightarrow> ('w, 'f, 'e) ContextImpl exec" where
  "ctx_set_mailbox_capacity cap c =
     (let c1 = ctx_modify c in
      bind_exec (mailbox_set_capacity cap (c_mailbox c1)) (\<lambda>m. Inr (c1\<lparr>c_mailbox := m\<rparr>)))"

definition ctx_unsync_address :: "('w, 'f, 'e) ContextImpl \<Rightarrow> ('w, 'f, 'e) ContextImpl" where
  "ctx_unsync_address c =
     (let c1 = ctx_modify c in c1\<lparr>c_mailbox := unsync_address (c_mailbox c1)\<rparr>)"

definition ctx_sync_address ::
  "('w, 'f, 'e) ContextImpl \<Rightarrow> (SyncAddressSender \<times> ('w, 'f, 'e) ContextImpl) exec" where
  "ctx_sync_address c =
     (let c1 = ctx_modify c in
      bind_exec (remote_address (c_mailbox c1)) (\<lambda>(tx, m). Inr (tx, c1\<lparr>c_mailbox := m\<rparr>)))"

definition ctx_alive :: "('w, 'f, 'e) ContextImpl \<Rightarrow> bool" where
  "ctx_alive c \<longleftrightarrow>
     (if flag_intersects (c_flags c) (STOPPING OR STOPPED) then False
      else mailbox_connected (c_mailbox c) \<or> c_items c \<noteq> [] \<or> c_wait c \<noteq> [])"

definition ctx_stopping :: "('w, 'f, 'e) ContextImpl \<Rightarrow> bool" where
  "ctx_stopping c \<longleftrightarrow> flag_intersects (c_flags c) (STOPPING OR STOPPED)"

definition ctx_set_actor :: "'w \<Rightarrow> ('w, 'f, 'e) ContextImpl \<Rightarrow> ('w, 'f, 'e) ContextImpl" where
  "ctx_set_actor a c = ctx_modify (c\<lparr>c_act := Some a\<rparr>)"

definition ctx_into_inner :: "('w, 'f, 'e) ContextImpl \<Rightarrow> 'w option" where
  "ctx_into_inner c = c_act c"

definition ctx_started :: "('w, 'f, 'e) ContextImpl \<Rightarrow> bool" where
  "ctx_started c = flag_contains (c_flags c) STARTED"

section \<open>User code\<close>

text \<open>
  A run of user code: the calls it makes on its context, on the addresses of its own actor
  (\<open>AddrDoSend\<close>, \<open>AddrClone\<close>, \<open>AddrDrop\<close> on \<^verbatim>\<open>Addr<Unsync, _>\<close>, \<open>SynDoSend\<close>,
  \<open>SynDrop\<close> on \<^verbatim>\<open>Addr<Syn, _>\<close>), and the value it returns, or a fault (a panic, or a loop of the library that ran out of fuel).
\<close>

datatype ('f, 'e, 'r) code =
    Return 'r
  | Fault fault
  | CtxStop "('f, 'e, 'r) code"
  | CtxTerminate "('f, 'e, 'r) code"
  | CtxState "ActorState \<Rightarrow> ('f, 'e, 'r) code"
  | CtxWaiting "bool \<Rightarrow> ('f, 'e, 'r) code"
  | CtxHandle "SpawnHandle \<Rightarrow> ('f, 'e, 'r) code"
  | CtxSpawn 'f "SpawnHandle \<Rightarrow> ('f, 'e, 'r) code"
  | CtxWait 'f "('f, 'e, 'r) code"
  | CtxCancel SpawnHandle "bool \<Rightarrow> ('f, 'e, 'r) code"
  | CtxSetCapacity usize "('f, 'e, 'r) code"
  | CtxUnsyncAddress "('f, 'e, 'r) code"
  | CtxSyncAddress "SyncAddressSender \<Rightarrow> ('f, 'e, 'r) code"
  | AddrDoSend 'e "('f, 'e, 'r) code"
  | AddrClone "('f, 'e, 'r) code"
  | AddrDrop "('f, 'e, 'r) code"
  | SynDoSend 'e "('f, 'e, 'r) code"
  | SynDrop "('f, 'e, 'r) code"

definition on_unsync ::
  "('e RcShared \<Rightarrow> 'e RcShared) \<Rightarrow> ('w, 'f, 'e) ContextImpl \<Rightarrow> ('w, 'f, 'e) ContextImpl" where
  "on_unsync g c = c\<lparr>c_mailbox := (c_mailbox c)\<lparr>unsync_msgs := g (unsync_msgs (c_mailbox c))\<rparr>\<rparr>"

definition on_sync ::
  "('e Chan \<Rightarrow> 'e Chan exec) \<Rightarrow> ('w, 'f, 'e) ContextImpl \<Rightarrow> ('w, 'f, 'e) ContextImpl exec" where
  "on_sync g c =
     (case sync_msgs (c_mailbox c) of
        None \<Rightarrow> Inr c
      | Some ch \<Rightarrow> bind_exec (g ch) (\<lambda>ch'. Inr (c\<lparr>c_mailbox := (c_mailbox c)\<lparr>sync_msgs := Some ch'\<rparr>\<rparr>)))"

primrec run_code ::
  "bool \<Rightarrow> ('f, 'e, 'r) code \<Rightarrow> ('w, 'f, 'e) ContextImpl \<Rightarrow> ('r \<times> ('w, 'f, 'e) ContextImpl) exec" where
  "run_code dbg (Return r) = (\<lambda>c. Inr (r, c))"
| "run_code dbg (Fault x) = (\<lambda>c. Inl x)"
| "run_code dbg (CtxStop k) = (\<lambda>c. run_code dbg k (ctx_stop c))"
| "run_code dbg (CtxTerminate k) = (\<lambda>c. run_code dbg k (ctx_terminate c))"
| "run_code dbg (CtxState k) = (\<lambda>c. run_code dbg (k (ctx_state c)) c)"
| "run_code dbg (CtxWaiting k) = (\<lambda>c. run_code dbg (k (ctx_waiting c)) c)"
| "run_code dbg (CtxHandle k) = (\<lambda>c. run_code dbg (k (c_curr_handle c)) c)"
| "run_code dbg (CtxSpawn f k) = (\<lambda>c. bind_exec (ctx_spawn dbg f c) (\<lambda>(h, c'). run_code dbg (k h) c'))"
| "run_code dbg (CtxWait f k) = (\<lambda>c. run_code dbg k (ctx_wait f c))"
| "run_code dbg (CtxCancel h k) =
     (\<lambda>c. bind_exec (ctx_cancel_future h c) (\<lambda>(b, c'). run_code dbg (k b) c'))"
| "run_code dbg (CtxSetCapacity cap k) =
     (\<lambda>c. bind_exec (ctx_set_mailbox_capacity cap c) (run_code dbg k))"
| "run_code dbg (CtxUnsyncAddress k) = (\<lambda>c. run_code dbg k (ctx_unsync_address c))"
| "run_code dbg (CtxSyncAddress k) =
     (\<lambda>c. bind_exec (ctx_sync_address c) (\<lambda>(tx, c'). run_code dbg (k tx) c'))"
| "run_code dbg (AddrDoSend e k) =
     (\<lambda>c. run_code dbg k (on_unsync (\<lambda>u. snd (udo_send (\<lambda>m (_ :: unit option). m) e u)) c))"
| "run_code dbg (AddrClone k) = (\<lambda>c. run_code dbg k (on_unsync uclone c))"
| "run_code dbg (AddrDrop k) = (\<lambda>c. run_code dbg k (on_unsync utx_drop c))"
| "run_code dbg (SynDoSend e k) =
     (\<lambda>c. bind_exec (on_sync (\<lambda>ch. bind_exec (sync_do_send (\<lambda>m (_ :: unit option). m) e ch)
        (\<lambda>(_, ch'). Inr ch')) c) (run_code dbg k))"
| "run_code dbg (SynDrop k) = (\<lambda>c. bind_exec (on_sync (\<lambda>ch. Inr (sync_tx_drop ch)) c) (run_code dbg k))"

text \<open>The user's part of an actor, and the build mode.\<close>

record ('w, 'f, 'e) actor_impl =
  debug_assertions :: bool
  a_started :: "'w \<Rightarrow> ('f, 'e, 'w) code"
  a_stopping :: "'w \<Rightarrow> ('f, 'e, Running \<times> 'w) code"
  a_stopped :: "'w \<Rightarrow> ('f, 'e, 'w) code"
  a_restarting :: "'w \<Rightarrow> ('f, 'e, 'w) code"
  a_handle :: "'e \<Rightarrow> 'w \<Rightarrow> ('f, 'e, 'w) code"
  a_poll :: "'f \<Rightarrow> 'w \<Rightarrow> ('f, 'e, (unit, unit) Poll \<times> 'w) code"

text \<open>The default methods of \<^verbatim>\<open>Actor\<close> and \<^verbatim>\<open>Supervised\<close>.\<close>

definition actor_default_started :: "'w \<Rightarrow> ('f, 'e, 'w) code" where
  "actor_default_started w = Return w"

definition actor_default_stopping :: "'w \<Rightarrow> ('f, 'e, Running \<times> 'w) code" where
  "actor_default_stopping w = Return (Stop, w)"

definition actor_default_stopped :: "'w \<Rightarrow> ('f, 'e, 'w) code" where
  "actor_default_stopped w = Return w"

definition supervised_default_restarting :: "'w \<Rightarrow> ('f, 'e, 'w) code" where
  "supervised_default_restarting w = Return w"

definition put_act :: "'w \<Rightarrow> ('w, 'f, 'e) ContextImpl \<Rightarrow> ('w, 'f, 'e) ContextImpl" where
  "put_act w c = c\<lparr>c_act := Some w\<rparr>"

definition put_log ::
  "('f, 'e) event \<Rightarrow> ('w, 'f, 'e) ContextImpl \<Rightarrow> ('w, 'f, 'e) ContextImpl" where
  "put_log ev c = c\<lparr>c_log := c_log c @ [ev]\<rparr>"

text \<open>Run a callback on the actor (\<^verbatim>\<open>&mut A\<close>) and its context.\<close>

definition call_act ::
  "bool \<Rightarrow> ('w \<Rightarrow> ('f, 'e, 'r \<times> 'w) code) \<Rightarrow> ('w, 'f, 'e) ContextImpl \<Rightarrow>
     ('r \<times> ('w, 'f, 'e) ContextImpl) exec" where
  "call_act dbg cb c =
     (case c_act c of
        None \<Rightarrow> Inl Panicked
      | Some w \<Rightarrow> bind_exec (run_code dbg (cb w) c) (\<lambda>((r, w'), c'). Inr (r, put_act w' c')))"

definition call_act_unit ::
  "bool \<Rightarrow> ('w \<Rightarrow> ('f, 'e, 'w) code) \<Rightarrow> ('w, 'f, 'e) ContextImpl \<Rightarrow> ('w, 'f, 'e) ContextImpl exec" where
  "call_act_unit dbg cb c =
     (case c_act c of
        None \<Rightarrow> Inl Panicked
      | Some w \<Rightarrow> bind_exec (run_code dbg (cb w) c) (\<lambda>(w', c'). Inr (put_act w' c')))"

section \<open>Restart\<close>

definition ctx_restart ::
  "('w, 'f, 'e) actor_impl \<Rightarrow> ('w, 'f, 'e) ContextImpl \<Rightarrow> (bool \<times> ('w, 'f, 'e) ContextImpl) exec" where
  "ctx_restart ai c =
     (if c_act c = None \<or> \<not> mailbox_connected (c_mailbox c) then Inr (False, c)
      else
        (let c1 = c\<lparr>c_flags := RUNNING, c_wait := [], c_items := [], c_handle := handle_default\<rparr> in
         bind_exec (call_act_unit (debug_assertions ai) (a_restarting ai) (put_log EvRestarting c1))
           (\<lambda>c2. Inr (True, c2))))"

section \<open>The poll loop\<close>

text \<open>\<^verbatim>\<open>ActorWaitItem::poll\<close>: a pending future counts as done once the actor is no longer alive.\<close>

definition wait_item_poll ::
  "('w, 'f, 'e) actor_impl \<Rightarrow> 'f \<Rightarrow> ('w, 'f, 'e) ContextImpl \<Rightarrow>
     (unit Async \<times> ('w, 'f, 'e) ContextImpl) exec" where
  "wait_item_poll ai f c =
     bind_exec (call_act (debug_assertions ai) (a_poll ai f) (put_log (EvWaitPoll f) c)) (\<lambda>(r, c1).
       case r of
         Inr NotReady \<Rightarrow> Inr (if state_alive (ctx_state c1) then NotReady else Ready (), c1)
       | _ \<Rightarrow> Inr (Ready (), c1))"

text \<open>The loop over the wait futures; \<open>True\<close> when the poll returns \<^verbatim>\<open>NotReady\<close>.\<close>

fun wait_loop ::
  "('w, 'f, 'e) actor_impl \<Rightarrow> nat \<Rightarrow> ('w, 'f, 'e) ContextImpl \<Rightarrow> (bool \<times> ('w, 'f, 'e) ContextImpl) exec" where
  "wait_loop ai 0 c = Inl OutOfFuel"
| "wait_loop ai (Suc k) c =
     (if c_wait c \<noteq> [] \<and> \<not> ctx_stopping c then
        bind_exec (wait_item_poll ai (last (c_wait c)) c) (\<lambda>(r, c1).
          case r of
            NotReady \<Rightarrow> Inr (True, c1)
          | Ready _ \<Rightarrow> wait_loop ai k (c1\<lparr>c_wait := butlast (c_wait c1)\<rparr>))
      else Inr (False, c))"

definition ctx_handle_message ::
  "('w, 'f, 'e) actor_impl \<Rightarrow> 'e \<Rightarrow> ('w, 'f, 'e) ContextImpl \<Rightarrow> ('w, 'f, 'e) ContextImpl exec" where
  "ctx_handle_message ai e c =
     call_act_unit (debug_assertions ai) (a_handle ai e) (put_log (EvMessage e (ctx_waiting c)) c)"

definition put_mailbox :: "'e Mailbox \<Rightarrow> ('w, 'f, 'e) ContextImpl \<Rightarrow> ('w, 'f, 'e) ContextImpl" where
  "put_mailbox m c = c\<lparr>c_mailbox := m\<rparr>"

definition ctx_mailbox_poll ::
  "('w, 'f, 'e) actor_impl \<Rightarrow> task \<Rightarrow> nat \<Rightarrow> ('w, 'f, 'e) ContextImpl \<Rightarrow> ('w, 'f, 'e) ContextImpl exec" where
  "ctx_mailbox_poll ai cur fuel c =
     mailbox_poll (debug_assertions ai) cur ctx_waiting c_mailbox put_mailbox (ctx_handle_message ai) fuel c"

definition item_poll ::
  "('w, 'f, 'e) actor_impl \<Rightarrow> nat \<Rightarrow> ('w, 'f, 'e) ContextImpl \<Rightarrow>
     ((unit, unit) Poll \<times> ('w, 'f, 'e) ContextImpl) exec" where
  "item_poll ai idx c =
     (let (h, f) = c_items c ! idx; c1 = c\<lparr>c_curr_handle := h\<rparr> in
      call_act (debug_assertions ai) (a_poll ai f) (put_log (EvItemPoll h f) c1))"

text \<open>The loop over the items; \<open>True\<close> for \<^verbatim>\<open>continue 'outer\<close>.\<close>

fun items_loop ::
  "('w, 'f, 'e) actor_impl \<Rightarrow> nat \<Rightarrow> nat \<Rightarrow> ('w, 'f, 'e) ContextImpl \<Rightarrow>
     (bool \<times> ('w, 'f, 'e) ContextImpl) exec" where
  "items_loop ai 0 idx c = Inl OutOfFuel"
| "items_loop ai (Suc k) idx c =
     (if idx < length (c_items c) \<and> \<not> ctx_stopping c then
        bind_exec (item_poll ai idx c) (\<lambda>(r, c1).
          case r of
            Inr NotReady \<Rightarrow>
              if c_wait c1 \<noteq> [] \<and> \<not> ctx_stopping c1 then
                (if c_items c1 = [] then Inl Panicked
                 else
                   (let nxt = length (c_items c1) - 1 in
                    if idx \<noteq> nxt
                    then bind_exec (swap_elems idx nxt (c_items c1)) (\<lambda>its. Inr (True, c1\<lparr>c_items := its\<rparr>))
                    else Inr (True, c1)))
              else items_loop ai k (Suc idx) c1
          | _ \<Rightarrow>
              bind_exec (swap_remove idx (c_items c1)) (\<lambda>its.
                let c2 = c1\<lparr>c_items := its\<rparr> in
                if c_wait c2 \<noteq> [] \<and> \<not> ctx_stopping c2 then Inr (True, c2)
                else items_loop ai k idx c2))
      else Inr (False, c))"

text \<open>The end of a turn: \<open>None\<close> for \<^verbatim>\<open>continue\<close>.\<close>

definition finish_stop ::
  "('w, 'f, 'e) actor_impl \<Rightarrow> ('w, 'f, 'e) ContextImpl \<Rightarrow>
     ((unit, unit) Poll option \<times> ('w, 'f, 'e) ContextImpl) exec" where
  "finish_stop ai c =
     bind_exec (call_act_unit (debug_assertions ai) (a_stopped ai) (put_log EvStopped c))
       (\<lambda>c'. Inr (Some (PReady ()), c'))"

definition ask_stopping ::
  "('w, 'f, 'e) actor_impl \<Rightarrow> ('w, 'f, 'e) ContextImpl \<Rightarrow> (Running \<times> ('w, 'f, 'e) ContextImpl) exec" where
  "ask_stopping ai c =
     bind_exec (call_act (debug_assertions ai) (a_stopping ai) c) (\<lambda>(r, c'). Inr (r, put_log (EvStopping r) c'))"

definition check_state ::
  "('w, 'f, 'e) actor_impl \<Rightarrow> ('w, 'f, 'e) ContextImpl \<Rightarrow>
     ((unit, unit) Poll option \<times> ('w, 'f, 'e) ContextImpl) exec" where
  "check_state ai c =
     (if flag_contains (c_flags c) MODIFIED \<and> \<not> flag_contains (c_flags c) STOPPING then Inr (None, c)
      else if flag_contains (c_flags c) RUNNING then
        (if \<not> ctx_alive c then
           bind_exec (ask_stopping ai c) (\<lambda>(r, c1).
             if r = Stop then finish_stop ai (c1\<lparr>c_flags := STOPPED\<rparr>)
             else Inr (Some PNotReady, c1))
         else Inr (Some PNotReady, c))
      else if flag_contains (c_flags c) STOPPING then
        bind_exec (ask_stopping ai c) (\<lambda>(r, c1).
          if r = Stop then finish_stop ai (c1\<lparr>c_flags := STOPPED\<rparr>)
          else Inr (None, c1\<lparr>c_flags := flag_insert (flag_remove (c_flags c1) STOPPING) RUNNING\<rparr>))
      else if flag_contains (c_flags c) STOPPED then finish_stop ai c
      else Inr (Some PNotReady, c))"

fun poll_turns ::
  "('w, 'f, 'e) actor_impl \<Rightarrow> task \<Rightarrow> nat \<Rightarrow> nat \<Rightarrow> ('w, 'f, 'e) ContextImpl \<Rightarrow>
     ((unit, unit) Poll \<times> ('w, 'f, 'e) ContextImpl) exec" where
  "poll_turns ai cur inner 0 c = Inl OutOfFuel"
| "poll_turns ai cur inner (Suc k) c =
     bind_exec (wait_loop ai inner (c\<lparr>c_flags := flag_remove (c_flags c) MODIFIED\<rparr>)) (\<lambda>(pending, c1).
       if pending then Inr (PNotReady, c1)
       else bind_exec (ctx_mailbox_poll ai cur inner c1) (\<lambda>c2.
         if c_wait c2 \<noteq> [] \<and> \<not> ctx_stopping c2 then poll_turns ai cur inner k c2
         else bind_exec (items_loop ai inner 0 c2) (\<lambda>(again, c3).
           if again then poll_turns ai cur inner k c3
           else bind_exec (check_state ai (c3\<lparr>c_curr_handle := handle_default\<rparr>)) (\<lambda>(r, c4).
             case r of Some p \<Rightarrow> Inr (p, c4) | None \<Rightarrow> poll_turns ai cur inner k c4))))"

definition ctx_poll ::
  "('w, 'f, 'e) actor_impl \<Rightarrow> task \<Rightarrow> nat \<Rightarrow> ('w, 'f, 'e) ContextImpl \<Rightarrow>
     ((unit, unit) Poll \<times> ('w, 'f, 'e) ContextImpl) exec" where
  "ctx_poll ai cur fuel c =
     (if c_act c = None then Inr (PReady (), c)
      else
        bind_exec
          (if flag_contains (c_flags c) STARTED then Inr c
           else call_act_unit (debug_assertions ai) (a_started ai)
             (put_log EvStarted (c\<lparr>c_flags := flag_insert (c_flags c) STARTED\<rparr>)))
          (poll_turns ai cur fuel fuel))"

section \<open>Context\<close>

text \<open>\<^verbatim>\<open>Context\<close> wraps the implementation and hands each call on.\<close>

datatype ('w, 'f, 'e) Context = Context "('w, 'f, 'e) ContextImpl"

fun context_inner :: "('w, 'f, 'e) Context \<Rightarrow> ('w, 'f, 'e) ContextImpl" where
  "context_inner (Context c) = c"

definition context_new :: "'w option \<Rightarrow> ('w, 'f, 'e) Context" where
  "context_new act = Context (ctx_new act)"

definition context_with_receiver :: "'w option \<Rightarrow> 'e Chan \<Rightarrow> ('w, 'f, 'e) Context" where
  "context_with_receiver act rx = Context (ctx_with_receiver act rx)"

definition context_restart ::
  "('w, 'f, 'e) actor_impl \<Rightarrow> ('w, 'f, 'e) Context \<Rightarrow> (bool \<times> ('w, 'f, 'e) Context) exec" where
  "context_restart ai c = bind_exec (ctx_restart ai (context_inner c)) (\<lambda>(b, c'). Inr (b, Context c'))"

definition context_set_actor :: "'w \<Rightarrow> ('w, 'f, 'e) Context \<Rightarrow> ('w, 'f, 'e) Context" where
  "context_set_actor act c = Context (ctx_set_actor act (context_inner c))"

definition context_poll ::
  "('w, 'f, 'e) actor_impl \<Rightarrow> task \<Rightarrow> nat \<Rightarrow> ('w, 'f, 'e) Context \<Rightarrow> ((unit, unit) Poll \<times> ('w, 'f, 'e) Context) exec" where
  "context_poll ai cur fuel c = bind_exec (ctx_poll ai cur fuel (context_inner c)) (\<lambda>(r, c'). Inr (r, Context c'))"

end
