(* ===== verification/Context_Lifecycle.thy ===== *)
theory Context_Lifecycle
  imports Actor_Context
begin

text \<open>
  The lifecycle of an actor: what user code can and cannot do to its context, the order of the
  callbacks in a poll, and when a poll returns \<^verbatim>\<open>Ready\<close>.
\<close>

unbundle bit_operations_syntax

section \<open>Reading the flags\<close>

lemma bit_flag [flag_simps]:
  "bit STARTED n \<longleftrightarrow> n = 0" "bit RUNNING n \<longleftrightarrow> n = 1" "bit STOPPING n \<longleftrightarrow> n = 2"
  "bit STOPPED n \<longleftrightarrow> n = 4" "bit MODIFIED n \<longleftrightarrow> n = 5"
proof -
  have pow: "bit ((2 :: u8) ^ k) n \<longleftrightarrow> n = k" if "k < 8" for k n
    using that by (auto simp: bit_exp_iff possible_bit_word)
  have eq: "STARTED = 2 ^ 0" "RUNNING = 2 ^ 1" "STOPPING = 2 ^ 2" "STOPPED = 2 ^ 4" "MODIFIED = 2 ^ 5"
    by (simp_all add: flag_defs)
  show "bit STARTED n \<longleftrightarrow> n = 0" "bit RUNNING n \<longleftrightarrow> n = 1" "bit STOPPING n \<longleftrightarrow> n = 2"
    "bit STOPPED n \<longleftrightarrow> n = 4" "bit MODIFIED n \<longleftrightarrow> n = 5"
    unfolding eq by (rule pow; simp)+
qed

lemma flag_contains_single:
  assumes "\<And>n. bit g n \<longleftrightarrow> n = k"
  shows "flag_contains f g \<longleftrightarrow> bit f k"
proof
  assume "flag_contains f g"
  then have "bit (f AND g) k = bit g k" by (simp add: flag_contains_def)
  then show "bit f k" using assms by (simp add: bit_and_iff)
next
  assume "bit f k"
  then show "flag_contains f g" unfolding flag_contains_def
    by (intro bit_eqI) (use assms in \<open>auto simp: bit_and_iff\<close>)
qed

lemmas flag_contains_bit [flag_simps] = bit_flag [THEN flag_contains_single]

lemma flag_intersects_bit [flag_simps]:
  "flag_intersects f (STOPPING OR STOPPED) \<longleftrightarrow> bit f 2 \<or> bit f 4"
  by (auto simp: flag_intersects_def bit_eq_iff [where 'a = "8 word"] bit_and_iff bit_or_iff bit_flag
      intro: exI [of _ 2] exI [of _ 4])

lemma bit_flag_update [flag_simps]:
  "bit (flag_insert f g) n \<longleftrightarrow> bit f n \<or> bit g n"
  "n < 8 \<Longrightarrow> bit (flag_remove f g) n \<longleftrightarrow> bit f n \<and> \<not> bit g n"
  by (auto simp: flag_insert_def flag_remove_def bit_or_iff bit_and_iff bit_not_iff possible_bit_word)

lemma bit_flag_or [flag_simps]: "bit (f OR g :: u8) n \<longleftrightarrow> bit f n \<or> bit g n"
  by (simp add: bit_or_iff)

section \<open>What user code can do to its context\<close>

text \<open>One call on the context or on an address.\<close>

inductive api_step :: "bool \<Rightarrow> ('w, 'f, 'e) ContextImpl \<Rightarrow> ('w, 'f, 'e) ContextImpl \<Rightarrow> bool" for dbg where
  stop: "api_step dbg c (ctx_stop c)"
| terminate: "api_step dbg c (ctx_terminate c)"
| spawn: "ctx_spawn dbg f c = Inr (h, c') \<Longrightarrow> api_step dbg c c'"
| wait: "api_step dbg c (ctx_wait f c)"
| cancel: "ctx_cancel_future h c = Inr (b, c') \<Longrightarrow> api_step dbg c c'"
| set_capacity: "ctx_set_mailbox_capacity cap c = Inr c' \<Longrightarrow> api_step dbg c c'"
| unsync_addr: "api_step dbg c (ctx_unsync_address c)"
| sync_addr: "ctx_sync_address c = Inr (tx, c') \<Longrightarrow> api_step dbg c c'"
| unsync_op: "api_step dbg c (on_unsync g c)"
| sync_op: "on_sync g c = Inr c' \<Longrightarrow> api_step dbg c c'"

lemma run_code_api: "run_code dbg k c = Inr (r, c') \<Longrightarrow> (api_step dbg)\<^sup>*\<^sup>* c c'"
proof (induction k arbitrary: c)
  case (CtxState k)
  then show ?case by (metis rangeI run_code.simps(5))
next
  case (CtxWaiting k)
  then show ?case by (metis rangeI run_code.simps(6))
next
  case (CtxHandle k)
  then show ?case by (metis rangeI run_code.simps(7))
next
  case (CtxSpawn f k)
  then obtain h c1 where 1: "ctx_spawn dbg f c = Inr (h, c1)" "run_code dbg (k h) c1 = Inr (r, c')"
    by (auto simp: bind_exec_eq_Inr)
  then have "(api_step dbg)\<^sup>*\<^sup>* c1 c'" using CtxSpawn.IH by blast
  then show ?case using 1(1) by (meson api_step.spawn converse_rtranclp_into_rtranclp)
next
  case (CtxCancel h k)
  then obtain b c1 where 1: "ctx_cancel_future h c = Inr (b, c1)" "run_code dbg (k b) c1 = Inr (r, c')"
    by (auto simp: bind_exec_eq_Inr)
  then have "(api_step dbg)\<^sup>*\<^sup>* c1 c'" using CtxCancel.IH by blast
  then show ?case using 1(1) by (meson api_step.cancel converse_rtranclp_into_rtranclp)
next
  case (CtxSyncAddress k)
  then obtain tx c1 where 1: "ctx_sync_address c = Inr (tx, c1)" "run_code dbg (k tx) c1 = Inr (r, c')"
    by (auto simp: bind_exec_eq_Inr)
  then have "(api_step dbg)\<^sup>*\<^sup>* c1 c'" using CtxSyncAddress.IH by blast
  then show ?case using 1(1) by (meson api_step.sync_addr converse_rtranclp_into_rtranclp)
qed (auto simp: bind_exec_eq_Inr intro: api_step.intros converse_rtranclp_into_rtranclp)

text \<open>The states of an actor in the order of its life.\<close>

fun state_rank :: "ActorState \<Rightarrow> nat" where
  "state_rank Started = 0"
| "state_rank StateRunning = 1"
| "state_rank Stopping = 2"
| "state_rank Stopped = 3"

lemma state_rank_inj: "state_rank s = state_rank t \<Longrightarrow> s = t"
  by (cases s; cases t) auto

instantiation ActorState :: linorder
begin

definition less_eq_ActorState :: "ActorState \<Rightarrow> ActorState \<Rightarrow> bool" where
  "less_eq_ActorState s t \<longleftrightarrow> state_rank s \<le> state_rank t"

definition less_ActorState :: "ActorState \<Rightarrow> ActorState \<Rightarrow> bool" where
  "less_ActorState s t \<longleftrightarrow> state_rank s < state_rank t"

instance
  by standard (auto simp: less_eq_ActorState_def less_ActorState_def intro: state_rank_inj)

end

lemma api_step_state_mono: "api_step dbg c c' \<Longrightarrow> ctx_state c \<le> ctx_state c'"
  by (induction rule: api_step.induct)
    (auto simp: ctx_state_def flag_simps ctx_stop_def ctx_terminate_def ctx_spawn_def ctx_modify_def
      ctx_wait_def ctx_cancel_future_def ctx_set_mailbox_capacity_def ctx_unsync_address_def ctx_sync_address_def
      on_unsync_def on_sync_def bind_exec_eq_Inr Let_def less_eq_ActorState_def split: option.splits)

text \<open>User code never moves its actor back: from running only to stopping and stopped, and a stopped actor stays so.\<close>

lemma run_code_state_mono:
  assumes "run_code dbg k c = Inr (r, c')"
  shows "ctx_state c \<le> ctx_state c'"
  using run_code_api [OF assms]
  by (induction rule: rtranclp_induct) (auto dest: api_step_state_mono order_trans)

text \<open>
  What one call keeps: the actor slot, the log, the current handle; a context that is stopping stays
  so, and one that is not running does not become running.
\<close>

definition api_keeps :: "('w, 'f, 'e) ContextImpl \<Rightarrow> ('w, 'f, 'e) ContextImpl \<Rightarrow> bool" where
  "api_keeps c c' \<longleftrightarrow>
     c_act c' = c_act c \<and> c_log c' = c_log c \<and> c_curr_handle c' = c_curr_handle c \<and>
     (ctx_stopping c \<longrightarrow> ctx_stopping c') \<and>
     (bit (c_flags c') 1 \<longrightarrow> bit (c_flags c) 1) \<and>
     (bit (c_flags c) 4 \<longrightarrow> bit (c_flags c') 4)"

lemma api_step_keeps: "api_step dbg c c' \<Longrightarrow> api_keeps c c'"
  by (induction rule: api_step.induct)
    (auto simp: api_keeps_def ctx_stopping_def flag_simps ctx_stop_def ctx_terminate_def ctx_spawn_def ctx_modify_def
      ctx_wait_def ctx_cancel_future_def ctx_set_mailbox_capacity_def ctx_unsync_address_def ctx_sync_address_def
      on_unsync_def on_sync_def bind_exec_eq_Inr Let_def split: option.splits)

lemma api_steps_keep: "(api_step dbg)\<^sup>*\<^sup>* c c' \<Longrightarrow> api_keeps c c'"
  by (induction rule: rtranclp_induct) (auto simp: api_keeps_def dest!: api_step_keeps)

lemmas run_code_keeps = api_steps_keep [OF run_code_api]

lemma call_act_keeps:
  "call_act dbg cb c = Inr (r, c') \<Longrightarrow> \<exists>c1 w. api_keeps c c1 \<and> (api_step dbg)\<^sup>*\<^sup>* c c1 \<and> c' = put_act w c1"
  by (auto simp: call_act_def bind_exec_eq_Inr split: option.splits dest!: run_code_api intro: api_steps_keep)

lemma call_act_unit_keeps:
  "call_act_unit dbg cb c = Inr c' \<Longrightarrow> \<exists>c1 w. api_keeps c c1 \<and> (api_step dbg)\<^sup>*\<^sup>* c c1 \<and> c' = put_act w c1"
  by (auto simp: call_act_unit_def bind_exec_eq_Inr split: option.splits dest!: run_code_api intro: api_steps_keep)

section \<open>The log of a poll\<close>

text \<open>
  The callbacks between \<^verbatim>\<open>started\<close> and the final \<^verbatim>\<open>stopped\<close>: futures polled, messages handled in a
  context that is not waiting, and refusals to stop.
\<close>

fun mid_event :: "('f, 'e) event \<Rightarrow> bool" where
  "mid_event (EvMessage e waiting) = (\<not> waiting)"
| "mid_event (EvWaitPoll f) = True"
| "mid_event (EvItemPoll h f) = True"
| "mid_event (EvStopping r) = (r = Continue)"
| "mid_event _ = False"

definition mid_ext :: "('w, 'f, 'e) ContextImpl \<Rightarrow> ('w, 'f, 'e) ContextImpl \<Rightarrow> bool" where
  "mid_ext c c' \<longleftrightarrow> (\<exists>evs. c_log c' = c_log c @ evs \<and> list_all mid_event evs)"

lemma mid_ext_same: "c_log c' = c_log c \<Longrightarrow> mid_ext c c'"
  by (simp add: mid_ext_def)

lemma mid_ext_snoc: "mid_event ev \<Longrightarrow> c_log c' = c_log c @ [ev] \<Longrightarrow> mid_ext c c'"
  by (simp add: mid_ext_def)

lemma mid_ext_trans: "mid_ext c c1 \<Longrightarrow> mid_ext c1 c2 \<Longrightarrow> mid_ext c c2"
  by (auto simp: mid_ext_def)

lemma mid_ext_upd [simp]:
  "mid_ext c (c'\<lparr>c_flags := fl\<rparr>) = mid_ext c c'" "mid_ext (c\<lparr>c_flags := fl\<rparr>) c' = mid_ext c c'"
  "mid_ext c (c'\<lparr>c_wait := w\<rparr>) = mid_ext c c'" "mid_ext c (c'\<lparr>c_items := its\<rparr>) = mid_ext c c'"
  "mid_ext (c\<lparr>c_items := its\<rparr>) c' = mid_ext c c'" "mid_ext (c\<lparr>c_wait := w\<rparr>) c' = mid_ext c c'"
  "mid_ext c (c'\<lparr>c_curr_handle := h\<rparr>) = mid_ext c c'" "mid_ext (c\<lparr>c_curr_handle := h\<rparr>) c' = mid_ext c c'"
  "mid_ext c (c'\<lparr>c_mailbox := m\<rparr>) = mid_ext c c'"
  by (simp_all add: mid_ext_def)

lemma call_act_log: "call_act dbg cb c = Inr (r, c') \<Longrightarrow> c_log c' = c_log c"
  by (auto simp: put_act_def api_keeps_def dest: call_act_keeps)

lemma call_act_unit_log: "call_act_unit dbg cb c = Inr c' \<Longrightarrow> c_log c' = c_log c"
  by (auto simp: put_act_def api_keeps_def dest: call_act_unit_keeps)

lemma wait_item_poll_eq:
  "wait_item_poll ai f c =
     bind_exec (call_act (debug_assertions ai) (a_poll ai f) (put_log (EvWaitPoll f) c)) (\<lambda>(r, c1).
       Inr (if r = PNotReady \<and> state_alive (ctx_state c1) then NotReady else Ready (), c1))"
  unfolding wait_item_poll_def by (rule bind_exec_cong [OF refl]) (auto split: sum.split Async.split)

lemma wait_item_poll_ext: "wait_item_poll ai f c = Inr (r, c') \<Longrightarrow> mid_ext c c'"
  by (rule mid_ext_snoc [of "EvWaitPoll f"])
    (auto simp: wait_item_poll_eq bind_exec_eq_Inr put_log_def dest!: call_act_log)

lemma wait_loop_ext: "wait_loop ai k c = Inr (b, c') \<Longrightarrow> mid_ext c c'"
proof (induction k arbitrary: c)
  case (Suc k)
  show ?case
  proof (cases "c_wait c \<noteq> [] \<and> \<not> ctx_stopping c")
    case True
    then obtain r c1 where 1: "wait_item_poll ai (last (c_wait c)) c = Inr (r, c1)"
      "(case r of NotReady \<Rightarrow> Inr (True, c1) | Ready _ \<Rightarrow> wait_loop ai k (c1\<lparr>c_wait := butlast (c_wait c1)\<rparr>)) = Inr (b, c')"
      using Suc.prems by (auto simp: bind_exec_eq_Inr)
    then show ?thesis
      using wait_item_poll_ext [OF 1(1)] Suc.IH [of "c1\<lparr>c_wait := butlast (c_wait c1)\<rparr>"]
      by (cases r) (auto intro: mid_ext_trans)
  next
    case False
    then show ?thesis using Suc.prems by (auto intro: mid_ext_same)
  qed
qed simp

lemma ctx_mailbox_poll_ext: "ctx_mailbox_poll ai cur fuel c = Inr c' \<Longrightarrow> mid_ext c c'"
  unfolding ctx_mailbox_poll_def
proof (erule mailbox_poll_invariant [rotated 4, where P = "mid_ext c"])
  show "mid_ext c c'" if "mid_ext c c1" "\<not> ctx_waiting c1" "ctx_handle_message ai e c1 = Inr c'" for e c1 c'
  proof -
    have "mid_ext c1 c'"
      by (rule mid_ext_snoc [of "EvMessage e False"])
        (use that in \<open>auto simp: ctx_handle_message_def put_log_def dest!: call_act_unit_log\<close>)
    then show ?thesis using that(1) by (rule mid_ext_trans [rotated])
  qed
qed (auto simp: put_mailbox_def ctx_waiting_def mid_ext_same)

lemma item_poll_ext: "item_poll ai idx c = Inr (r, c') \<Longrightarrow> mid_ext c c'"
  by (rule mid_ext_snoc [of "EvItemPoll (fst (c_items c ! idx)) (snd (c_items c ! idx))"])
    (auto simp: item_poll_def put_log_def Let_def split: prod.splits dest!: call_act_log)

lemma items_loop_ext: "items_loop ai k idx c = Inr (b, c') \<Longrightarrow> mid_ext c c'"
proof (induction k arbitrary: idx c)
  case (Suc k)
  show ?case
  proof (cases "idx < length (c_items c) \<and> \<not> ctx_stopping c")
    case True
    then obtain r c1 where 1: "item_poll ai idx c = Inr (r, c1)"
      using Suc.prems by (auto simp: bind_exec_eq_Inr)
    have "mid_ext c1 c'"
      using Suc.prems True 1 Suc.IH
      by (fastforce simp: bind_exec_eq_Inr Let_def intro: mid_ext_same
          split: sum.splits Async.splits if_splits)
    then show ?thesis using item_poll_ext [OF 1] by (blast intro: mid_ext_trans)
  next
    case False
    then show ?thesis using Suc.prems by (auto intro: mid_ext_same)
  qed
qed simp

text \<open>How the log of a poll ends.\<close>

definition final_events :: "(unit, unit) Poll \<Rightarrow> ('f, 'e) event list \<Rightarrow> bool" where
  "final_events p evs \<longleftrightarrow>
     (p = PReady () \<and> (evs = [EvStopped] \<or> evs = [EvStopping Stop, EvStopped])) \<or>
     (p = PNotReady \<and> evs = [])"

definition poll_ext :: "('w, 'f, 'e) ContextImpl \<Rightarrow> (unit, unit) Poll \<Rightarrow> ('w, 'f, 'e) ContextImpl \<Rightarrow> bool" where
  "poll_ext c p c' \<longleftrightarrow>
     (\<exists>mids fin. c_log c' = c_log c @ mids @ fin \<and> list_all mid_event mids \<and> final_events p fin) \<and>
     (p = PReady () \<longrightarrow> ctx_state c' = Stopped)"

lemma poll_ext_upd [simp]: "poll_ext (c\<lparr>c_curr_handle := h\<rparr>) p c' = poll_ext c p c'"
  by (simp add: poll_ext_def)

lemma poll_ext_stopped:
  "c_log c' = c_log c @ fin \<Longrightarrow> final_events (PReady ()) fin \<Longrightarrow> ctx_state c' = Stopped \<Longrightarrow> poll_ext c (PReady ()) c'"
  unfolding poll_ext_def by (intro conjI exI [of _ "[]"] exI [of _ fin]) auto

lemma poll_ext_pending: "mid_ext c c' \<Longrightarrow> poll_ext c PNotReady c'"
  by (auto simp: mid_ext_def poll_ext_def final_events_def)

lemma poll_ext_trans: "mid_ext c c1 \<Longrightarrow> poll_ext c1 p c2 \<Longrightarrow> poll_ext c p c2"
  unfolding mid_ext_def poll_ext_def by (metis append.assoc list_all_append)

lemma ask_stopping_log:
  "ask_stopping ai c = Inr (r, c') \<Longrightarrow> c_log c' = c_log c @ [EvStopping r]"
  by (auto simp: ask_stopping_def bind_exec_eq_Inr put_log_def dest!: call_act_log)

lemma finish_stop_spec:
  assumes "finish_stop ai c = Inr (r, c')" and "bit (c_flags c) 4" and "\<not> bit (c_flags c) 1"
  shows "r = Some (PReady ()) \<and> c_log c' = c_log c @ [EvStopped] \<and> ctx_state c' = Stopped"
proof -
  obtain c1 where 1: "call_act_unit (debug_assertions ai) (a_stopped ai) (put_log EvStopped c) = Inr c1"
    "r = Some (PReady ())" "c' = c1"
    using assms(1) by (auto simp: finish_stop_def bind_exec_eq_Inr)
  obtain c2 w where 2: "api_keeps (put_log EvStopped c) c2" "c1 = put_act w c2"
    using call_act_unit_keeps [OF 1(1)] by blast
  show ?thesis using 1 2 assms(2,3) by (auto simp: api_keeps_def put_log_def put_act_def ctx_state_def flag_simps)
qed

lemma check_state_ext:
  assumes "check_state ai c = Inr (r, c')"
  shows "case r of None \<Rightarrow> mid_ext c c' | Some p \<Rightarrow> poll_ext c p c'"
proof -
  let ?R = "case r of None \<Rightarrow> mid_ext c c' | Some p \<Rightarrow> poll_ext c p c'"
  have stop: ?R
    if "ask_stopping ai c = Inr (Stop, c1)" "finish_stop ai (c1\<lparr>c_flags := STOPPED\<rparr>) = Inr (r, c')" for c1
    using ask_stopping_log [OF that(1)] finish_stop_spec [OF that(2)]
    by (auto simp: flag_simps final_events_def intro!: poll_ext_stopped)
  have cont: "mid_ext c c1" if "ask_stopping ai c = Inr (r1, c1)" "r1 \<noteq> Stop" for r1 c1
    using ask_stopping_log [OF that(1)] that(2) by (cases r1) (auto intro: mid_ext_snoc [of "EvStopping Continue"])
  have fin: ?R if "finish_stop ai c = Inr (r, c')" "bit (c_flags c) 4" "\<not> bit (c_flags c) 1"
    using finish_stop_spec [OF that] by (auto simp: final_events_def intro!: poll_ext_stopped)
  have same: ?R if "r = None \<or> r = Some PNotReady" "mid_ext c c'"
    using that by (auto intro: poll_ext_pending)
  have refl: "mid_ext c c" by (simp add: mid_ext_same)
  note cs = assms [unfolded check_state_def flag_contains_bit]
  show ?thesis
  proof (cases "bit (c_flags c) 5 \<and> \<not> bit (c_flags c) 2")
    case True
    then show ?thesis using cs same refl by simp
  next
    case F: False
    show ?thesis
    proof (cases "(bit (c_flags c) 1 \<and> \<not> ctx_alive c) \<or> (\<not> bit (c_flags c) 1 \<and> bit (c_flags c) 2)")
      case True
      then obtain r1 c1 where ask: "ask_stopping ai c = Inr (r1, c1)"
        using cs F by (auto simp: bind_exec_eq_Inr)
      show ?thesis
      proof (cases r1)
        case Stop
        then show ?thesis using stop [of c1] cs F True ask by auto
      next
        case Continue
        then have "(r = None \<or> r = Some PNotReady) \<and> mid_ext c1 c'" using cs F True ask by (auto simp: mid_ext_same)
        then show ?thesis using same cont [OF ask] Continue by (auto intro: mid_ext_trans)
      qed
    next
      case False
      then show ?thesis using cs F fin same refl by (auto split: if_splits)
    qed
  qed
qed

lemma poll_turns_ext: "poll_turns ai cur inner k c = Inr (p, c') \<Longrightarrow> poll_ext c p c'"
proof (induction k arbitrary: c)
  case (Suc k)
  note IH = Suc.IH
  obtain pend c1 where 1: "wait_loop ai inner (c\<lparr>c_flags := flag_remove (c_flags c) MODIFIED\<rparr>) = Inr (pend, c1)"
    using Suc.prems by (auto simp: bind_exec_eq_Inr)
  have e1: "mid_ext c c1" using wait_loop_ext [OF 1] by simp
  show ?case
  proof (cases pend)
    case True
    then show ?thesis using Suc.prems 1 e1 by (auto intro: poll_ext_pending)
  next
    case F1: False
    then obtain c2 where 2: "ctx_mailbox_poll ai cur inner c1 = Inr c2"
      using Suc.prems 1 by (auto simp: bind_exec_eq_Inr)
    have e2: "mid_ext c c2" using mid_ext_trans [OF e1 ctx_mailbox_poll_ext [OF 2]] .
    show ?thesis
    proof (cases "c_wait c2 \<noteq> [] \<and> \<not> ctx_stopping c2")
      case True
      then show ?thesis using Suc.prems 1 2 F1 IH [of c2] e2 by (auto intro: poll_ext_trans)
    next
      case F2: False
      then obtain again c3 where 3: "items_loop ai inner 0 c2 = Inr (again, c3)"
        using Suc.prems 1 2 F1 by (auto simp: bind_exec_eq_Inr split: if_splits)
      have e3: "mid_ext c c3" using mid_ext_trans [OF e2 items_loop_ext [OF 3]] .
      show ?thesis
      proof (cases again)
        case True
        then have "poll_turns ai cur inner k c3 = Inr (p, c')" using Suc.prems 1 2 3 F1 F2 by simp
        then show ?thesis using IH e3 by (blast intro: poll_ext_trans)
      next
        case F3: False
        then obtain r c4 where 4: "check_state ai (c3\<lparr>c_curr_handle := handle_default\<rparr>) = Inr (r, c4)"
          "(case r of Some p \<Rightarrow> Inr (p, c4) | None \<Rightarrow> poll_turns ai cur inner k c4) = Inr (p, c')"
          using Suc.prems 1 2 3 F1 F2 by (auto simp: bind_exec_eq_Inr)
        have e3': "mid_ext c (c3\<lparr>c_curr_handle := handle_default\<rparr>)" using e3 by simp
        show ?thesis
          using check_state_ext [OF 4(1)] 4(2) IH [of c4] e3'
          by (cases r) (auto intro: poll_ext_trans mid_ext_trans)
      qed
    qed
  qed
qed simp

text \<open>C8: The lifecycle of an actor.  A poll of its context first calls \<^verbatim>\<open>started\<close>, exactly if the
  actor has not been started; then it polls futures and handles messages, the messages only while
  the context is neither waiting for a future nor stopping; and it returns \<^verbatim>\<open>Ready\<close> exactly when
  it ends with \<^verbatim>\<open>stopped\<close>, called once, last, after \<^verbatim>\<open>stopping\<close> agreed or the actor was
  terminated, and with the context in the state \<^verbatim>\<open>Stopped\<close>.\<close>

theorem ctx_poll_lifecycle:
  assumes "ctx_poll ai cur fuel c = Inr (p, c')" and "c_act c \<noteq> None"
  shows "\<exists>mids fin. c_log c' = c_log c @ (if ctx_started c then [] else [EvStarted]) @ mids @ fin \<and>
    list_all mid_event mids \<and> final_events p fin \<and> (p = PReady () \<longrightarrow> ctx_state c' = Stopped)"
proof (cases "ctx_started c")
  case True
  then have "poll_turns ai cur fuel fuel c = Inr (p, c')"
    using assms by (simp add: ctx_poll_def ctx_started_def)
  then show ?thesis using poll_turns_ext [of ai cur fuel fuel c p c'] True by (auto simp: poll_ext_def)
next
  case False
  then obtain c1 where 1: "call_act_unit (debug_assertions ai) (a_started ai)
      (put_log EvStarted (c\<lparr>c_flags := flag_insert (c_flags c) STARTED\<rparr>)) = Inr c1"
    "poll_turns ai cur fuel fuel c1 = Inr (p, c')"
    using assms by (auto simp: ctx_poll_def ctx_started_def bind_exec_eq_Inr)
  then show ?thesis
    using call_act_unit_log [OF 1(1)] poll_turns_ext [OF 1(2)] False by (auto simp: poll_ext_def put_log_def)
qed

section \<open>Spawn handles\<close>

lemma mset_sub_distinct: "mset xs \<subseteq># mset ys \<Longrightarrow> distinct ys \<Longrightarrow> distinct xs"
  by (metis distinct_append ex_mset mset_append mset_eq_imp_distinct_iff mset_subset_eq_exists_conv)

text \<open>Every spawned future has its own handle, and no handle is ahead of the counter.\<close>

definition handles_wf :: "('w, 'f, 'e) ContextImpl \<Rightarrow> bool" where
  "handles_wf c \<longleftrightarrow> distinct (map fst (c_items c)) \<and> (\<forall>h \<in> fst ` set (c_items c). h \<le> c_handle c)"

lemma handles_wf_upd [simp]:
  "handles_wf (c\<lparr>c_flags := fl\<rparr>) = handles_wf c" "handles_wf (c\<lparr>c_wait := ws\<rparr>) = handles_wf c"
  "handles_wf (c\<lparr>c_mailbox := m\<rparr>) = handles_wf c" "handles_wf (c\<lparr>c_curr_handle := h\<rparr>) = handles_wf c"
  "handles_wf (c\<lparr>c_act := a\<rparr>) = handles_wf c" "handles_wf (c\<lparr>c_log := l\<rparr>) = handles_wf c"
  by (simp_all add: handles_wf_def)

lemma handles_wf_mset:
  assumes "handles_wf c" and "mset its \<subseteq># mset (c_items c)"
  shows "handles_wf (c\<lparr>c_items := its\<rparr>)"
proof -
  have "mset (map fst its) \<subseteq># mset (map fst (c_items c))"
    using image_mset_subseteq_mono [OF assms(2), of fst] by simp
  then have "distinct (map fst its)"
    using assms(1) mset_sub_distinct unfolding handles_wf_def by blast
  then show ?thesis using assms set_mset_mono [OF assms(2)] by (auto simp: handles_wf_def)
qed

lemma handle_next_fresh:
  "handle_next True h = Inr h' \<Longrightarrow> h < h'"
  by (auto simp: handle_next_def word_less_nat_alt unatSuc add.commute split: if_splits)

lemma api_step_handles: "api_step True c c' \<Longrightarrow> handles_wf c \<Longrightarrow> handles_wf c'"
proof (induction rule: api_step.induct)
  case (spawn f c h c')
  then have "c_handle c < h" "c' = (ctx_modify c)\<lparr>c_handle := h, c_items := c_items c @ [(h, f)]\<rparr>"
    by (auto simp: ctx_spawn_def ctx_modify_def Let_def bind_exec_eq_Inr handle_next_fresh)
  then show ?case using spawn.prems by (fastforce simp: handles_wf_def ctx_modify_def)
next
  case (cancel h c b c')
  then show ?case
    by (auto simp: ctx_cancel_future_def ctx_modify_def Let_def bind_exec_eq_Inr split: option.splits
        intro!: handles_wf_mset dest!: swap_remove_mset)
qed (auto simp: ctx_stop_def ctx_terminate_def ctx_wait_def ctx_modify_def ctx_set_mailbox_capacity_def
    ctx_unsync_address_def ctx_sync_address_def on_unsync_def on_sync_def bind_exec_eq_Inr Let_def split: option.splits)

lemma api_steps_handles: "(api_step True)\<^sup>*\<^sup>* c c' \<Longrightarrow> handles_wf c \<Longrightarrow> handles_wf c'"
  by (induction rule: rtranclp_induct) (auto dest: api_step_handles)

lemma call_act_handles: "call_act True cb c = Inr (r, c') \<Longrightarrow> handles_wf c \<Longrightarrow> handles_wf c'"
  using call_act_keeps [of True cb c r c'] by (auto simp: put_act_def dest: api_steps_handles)

lemma call_act_unit_handles: "call_act_unit True cb c = Inr c' \<Longrightarrow> handles_wf c \<Longrightarrow> handles_wf c'"
  using call_act_unit_keeps [of True cb c c'] by (auto simp: put_act_def dest: api_steps_handles)

section \<open>Invariants of a poll\<close>

text \<open>
  A predicate on contexts that survives the context's own bookkeeping and every callback survives a
  whole poll.
\<close>

locale poll_invariant =
  fixes ai :: "('w, 'f, 'e) actor_impl"
    and P :: "('w, 'f, 'e) ContextImpl \<Rightarrow> bool"
  assumes inv_flags: "P c \<Longrightarrow> P (c\<lparr>c_flags := fl\<rparr>)"
    and inv_pop: "P c \<Longrightarrow> P (c\<lparr>c_wait := butlast (c_wait c)\<rparr>)"
    and inv_mailbox: "P c \<Longrightarrow> P (c\<lparr>c_mailbox := m\<rparr>)"
    and inv_log: "P c \<Longrightarrow> P (c\<lparr>c_log := l\<rparr>)"
    and inv_curr: "P c \<Longrightarrow> P (c\<lparr>c_curr_handle := h\<rparr>)"
    and inv_items: "P c \<Longrightarrow> mset its \<subseteq># mset (c_items c) \<Longrightarrow> P (c\<lparr>c_items := its\<rparr>)"
    and inv_call: "call_act (debug_assertions ai) cb c = Inr (r :: (unit, unit) Poll, c') \<Longrightarrow> P c \<Longrightarrow> P c'"
    and inv_ask: "call_act (debug_assertions ai) cb'' c = Inr (r' :: Running, c') \<Longrightarrow> P c \<Longrightarrow> P c'"
    and inv_call_unit: "call_act_unit (debug_assertions ai) cb' c = Inr c' \<Longrightarrow> P c \<Longrightarrow> P c'"
begin

lemma inv_put_log: "P c \<Longrightarrow> P (put_log ev c)"
  by (simp add: put_log_def inv_log)

lemma inv_wait_item: "P c \<Longrightarrow> wait_item_poll ai f c = Inr (r, c') \<Longrightarrow> P c'"
  by (auto simp: wait_item_poll_eq bind_exec_eq_Inr intro: inv_call inv_put_log)

lemma inv_wait_loop: "P c \<Longrightarrow> wait_loop ai k c = Inr (b, c') \<Longrightarrow> P c'"
proof (induction k arbitrary: c)
  case (Suc k)
  show ?case
  proof (cases "c_wait c \<noteq> [] \<and> \<not> ctx_stopping c")
    case True
    then obtain r c1 where 1: "wait_item_poll ai (last (c_wait c)) c = Inr (r, c1)"
      "(case r of NotReady \<Rightarrow> Inr (True, c1) | Ready _ \<Rightarrow> wait_loop ai k (c1\<lparr>c_wait := butlast (c_wait c1)\<rparr>)) = Inr (b, c')"
      using Suc.prems by (auto simp: bind_exec_eq_Inr)
    then show ?thesis
      using inv_wait_item [OF Suc.prems(1) 1(1)] Suc.IH by (cases r) (auto intro: inv_pop)
  qed (use Suc.prems in auto)
qed simp

lemma inv_mailbox_poll:
  assumes "P c" and "ctx_mailbox_poll ai cur fuel c = Inr c'"
  shows "P c'"
  using _ _ _ assms(1) assms(2) [unfolded ctx_mailbox_poll_def]
proof (rule mailbox_poll_invariant)
  show "P c'" if "P c" "ctx_handle_message ai e c = Inr c'" for e c c'
    using that by (auto simp: ctx_handle_message_def intro: inv_call_unit inv_put_log)
qed (auto simp: put_mailbox_def ctx_waiting_def inv_mailbox)

lemma inv_item: "P c \<Longrightarrow> item_poll ai idx c = Inr (r, c') \<Longrightarrow> P c'"
  by (auto simp: item_poll_def Let_def split: prod.splits intro: inv_call inv_put_log inv_curr)

lemma inv_items_loop: "P c \<Longrightarrow> items_loop ai k idx c = Inr (b, c') \<Longrightarrow> P c'"
proof (induction k arbitrary: idx c)
  case (Suc k)
  have sub: "swap_remove i xs = Inr ys \<Longrightarrow> mset ys \<subseteq># mset xs" for i and xs ys :: "(SpawnHandle \<times> 'f) list"
    using swap_remove_mset [of i xs ys] by simp
  show ?case
  proof (cases "idx < length (c_items c) \<and> \<not> ctx_stopping c")
    case True
    then obtain r c1 where 1: "item_poll ai idx c = Inr (r, c1)"
      using Suc.prems by (auto simp: bind_exec_eq_Inr)
    have P1: "P c1" by (rule inv_item [OF Suc.prems(1) 1])
    show ?thesis
    proof (cases "r = PNotReady")
      case N: True
      then show ?thesis
        using Suc.prems(2) True 1 P1 Suc.IH [OF P1]
        by (auto simp: bind_exec_eq_Inr Let_def split: if_splits dest!: swap_elems_mset intro!: inv_items)
    next
      case False
      have "items_loop ai (Suc k) idx c = bind_exec (swap_remove idx (c_items c1)) (\<lambda>its.
          let c2 = c1\<lparr>c_items := its\<rparr> in
          if c_wait c2 \<noteq> [] \<and> \<not> ctx_stopping c2 then Inr (True, c2) else items_loop ai k idx c2)"
        using False True 1 by (cases r) (auto split: Async.splits)
      then obtain its where "swap_remove idx (c_items c1) = Inr its"
        "(let c2 = c1\<lparr>c_items := its\<rparr> in
          if c_wait c2 \<noteq> [] \<and> \<not> ctx_stopping c2 then Inr (True, c2) else items_loop ai k idx c2) = Inr (b, c')"
        using Suc.prems(2) by (auto simp: bind_exec_eq_Inr)
      moreover from this have "P (c1\<lparr>c_items := its\<rparr>)" using P1 sub by (blast intro: inv_items)
      ultimately show ?thesis using Suc.IH by (auto simp: Let_def split: if_splits)
    qed
  next
    case False
    then show ?thesis using Suc.prems by auto
  qed
qed simp

lemma inv_check_state: "P c \<Longrightarrow> check_state ai c = Inr (r, c') \<Longrightarrow> P c'"
proof -
  have ask: "P c1" if "P c" "ask_stopping ai c = Inr (r1, c1)" for c r1 c1
    using that by (auto simp: ask_stopping_def bind_exec_eq_Inr intro!: inv_put_log intro: inv_ask)
  have fin: "P c1" if "P c" "finish_stop ai c = Inr (r1, c1)" for c r1 c1
    using that by (auto simp: finish_stop_def bind_exec_eq_Inr intro: inv_call_unit inv_put_log)
  have stop: "P c2" if "P c" "ask_stopping ai c = Inr (r1, c1)" "finish_stop ai (c1\<lparr>c_flags := STOPPED\<rparr>) = Inr (r2, c2)"
    for c r1 c1 r2 c2
    using fin [OF inv_flags [OF ask [OF that(1,2)]] that(3)] .
  show "P c \<Longrightarrow> check_state ai c = Inr (r, c') \<Longrightarrow> P c'"
    unfolding check_state_def
    by (auto simp: bind_exec_eq_Inr split: if_splits dest: ask fin stop intro: inv_flags)
qed

lemma inv_poll_turns: "P c \<Longrightarrow> poll_turns ai cur inner k c = Inr (p, c') \<Longrightarrow> P c'"
proof (induction k arbitrary: c)
  case (Suc k)
  obtain pend c1 where 1: "wait_loop ai inner (c\<lparr>c_flags := flag_remove (c_flags c) MODIFIED\<rparr>) = Inr (pend, c1)"
    using Suc.prems by (auto simp: bind_exec_eq_Inr)
  have P1: "P c1" by (rule inv_wait_loop [OF inv_flags [OF Suc.prems(1)] 1])
  show ?case
  proof (cases pend)
    case F1: False
    then obtain c2 where 2: "ctx_mailbox_poll ai cur inner c1 = Inr c2"
      using Suc.prems 1 by (auto simp: bind_exec_eq_Inr)
    have P2: "P c2" by (rule inv_mailbox_poll [OF P1 2])
    show ?thesis
    proof (cases "c_wait c2 \<noteq> [] \<and> \<not> ctx_stopping c2")
      case F2: False
      then obtain again c3 where 3: "items_loop ai inner 0 c2 = Inr (again, c3)"
        using Suc.prems 1 2 F1 by (auto simp: bind_exec_eq_Inr split: if_splits)
      have P3: "P c3" by (rule inv_items_loop [OF P2 3])
      show ?thesis
      proof (cases again)
        case F3: False
        then obtain r c4 where 4: "check_state ai (c3\<lparr>c_curr_handle := handle_default\<rparr>) = Inr (r, c4)"
          "(case r of Some p \<Rightarrow> Inr (p, c4) | None \<Rightarrow> poll_turns ai cur inner k c4) = Inr (p, c')"
          using Suc.prems 1 2 3 F1 F2 by (auto simp: bind_exec_eq_Inr)
        have "P c4" by (rule inv_check_state [OF inv_curr [OF P3] 4(1)])
        then show ?thesis using 4(2) Suc.IH by (auto split: option.splits)
      qed (use Suc 1 2 3 F1 F2 P3 in auto)
    qed (use Suc 1 2 F1 P2 in auto)
  qed (use Suc.prems 1 P1 in auto)
qed simp

lemma inv_poll:
  assumes "P c" and "ctx_poll ai cur fuel c = Inr (p, c')"
  shows "P c'"
proof -
  have st: "P c1" if "call_act_unit (debug_assertions ai) (a_started ai)
      (put_log EvStarted (c\<lparr>c_flags := flag_insert (c_flags c) STARTED\<rparr>)) = Inr c1" for c1
    by (rule inv_call_unit [OF that inv_put_log [OF inv_flags [OF assms(1)]]])
  show ?thesis
    using assms by (auto simp: ctx_poll_def bind_exec_eq_Inr split: if_splits dest: st inv_poll_turns)
qed

end

interpretation hw: poll_invariant "ai\<lparr>debug_assertions := True\<rparr>" handles_wf for ai
  by unfold_locales (auto intro: handles_wf_mset call_act_handles call_act_unit_handles)

interpretation present: poll_invariant ai "\<lambda>c. c_act c \<noteq> None" for ai
  by unfold_locales (auto dest!: call_act_keeps call_act_unit_keeps simp: put_act_def)

end
