(* ===== verification/Actor_Futures.thy ===== *)
theory Actor_Futures
  imports Actix_Prelude
begin

text \<open>
  The actor-aware futures of \<^verbatim>\<open>src/fut\<close>.  A future is a state \<open>'f\<close> with a poll function; polling
  has access to the actor and its context, here the world \<open>'w\<close>, and may panic.  Each combinator is
  its data type and its poll function over the poll functions of its parts.  \<open>resolves\<close> is
  the behaviour of a future over its life: the worlds in which it is polled, the result and the
  world it leaves; the laws of the combinators are stated with it.
\<close>

type_synonym ('f, 'w, 'i, 'e) fut_poll = "'f \<Rightarrow> 'w \<Rightarrow> (('i, 'e) Poll \<times> 'f \<times> 'w) exec"

text \<open>\<^verbatim>\<open>Result<Item, Error>\<close> as the outcome of a poll.\<close>

fun as_poll :: "'e + 'i \<Rightarrow> ('i, 'e) Poll" where
  "as_poll (Inl e) = PErr e"
| "as_poll (Inr i) = PReady i"

section \<open>Adapters\<close>

text \<open>\<^verbatim>\<open>Map\<close>; the closure is \<^verbatim>\<open>FnOnce\<close> and is taken when it is called.\<close>

record ('f, 'g) Map =
  map_future :: 'f
  map_f :: "'g option"

definition map_new :: "'f \<Rightarrow> 'g \<Rightarrow> ('f, 'g) Map" where
  "map_new future f = \<lparr>map_future = future, map_f = Some f\<rparr>"

definition map_poll ::
  "('f, 'w, 'i, 'e) fut_poll \<Rightarrow> (('f, 'i \<Rightarrow> 'w \<Rightarrow> 'u \<times> 'w) Map, 'w, 'u, 'e) fut_poll" where
  "map_poll pf m w =
     bind_exec (pf (map_future m) w) (\<lambda>(e, f', w1).
       let m1 = m\<lparr>map_future := f'\<rparr> in
       case e of
         Inr NotReady \<Rightarrow> Inr (PNotReady, m1, w1)
       | Inr (Ready item) \<Rightarrow>
           (case map_f m1 of
              None \<Rightarrow> Inl Panicked
            | Some f \<Rightarrow> (let (u, w2) = f item w1 in Inr (PReady u, m1\<lparr>map_f := None\<rparr>, w2)))
       | Inl err \<Rightarrow> Inr (PErr err, m1, w1))"

record ('f, 'g) MapErr =
  map_err_future :: 'f
  map_err_f :: "'g option"

definition map_err_new :: "'f \<Rightarrow> 'g \<Rightarrow> ('f, 'g) MapErr" where
  "map_err_new future f = \<lparr>map_err_future = future, map_err_f = Some f\<rparr>"

definition map_err_poll ::
  "('f, 'w, 'i, 'e) fut_poll \<Rightarrow> (('f, 'e \<Rightarrow> 'w \<Rightarrow> 'u \<times> 'w) MapErr, 'w, 'i, 'u) fut_poll" where
  "map_err_poll pf m w =
     bind_exec (pf (map_err_future m) w) (\<lambda>(e, f', w1).
       let m1 = m\<lparr>map_err_future := f'\<rparr> in
       case e of
         Inr a \<Rightarrow> Inr (Inr a, m1, w1)
       | Inl err \<Rightarrow>
           (case map_err_f m1 of
              None \<Rightarrow> Inl Panicked
            | Some f \<Rightarrow> (let (u, w2) = f err w1 in Inr (PErr u, m1\<lparr>map_err_f := None\<rparr>, w2))))"

datatype 'f DropErr = DropErr 'f

definition drop_err_new :: "'f \<Rightarrow> 'f DropErr" where
  "drop_err_new future = DropErr future"

fun drop_err_poll :: "('f, 'w, 'i, 'e) fut_poll \<Rightarrow> ('f DropErr, 'w, 'i, unit) fut_poll" where
  "drop_err_poll pf (DropErr f) w =
     bind_exec (pf f w) (\<lambda>(r, f', w1).
       case r of Inr a \<Rightarrow> Inr (Inr a, DropErr f', w1) | Inl _ \<Rightarrow> Inr (PErr (), DropErr f', w1))"

text \<open>\<^verbatim>\<open>FromErr\<close>; \<open>from\<close> is the \<^verbatim>\<open>From\<close> instance of the target error type.\<close>

datatype 'f FromErr = FromErr 'f

definition from_err_new :: "'f \<Rightarrow> 'f FromErr" where
  "from_err_new future = FromErr future"

fun from_err_poll ::
  "('e \<Rightarrow> 'd) \<Rightarrow> ('f, 'w, 'i, 'e) fut_poll \<Rightarrow> ('f FromErr, 'w, 'i, 'd) fut_poll" where
  "from_err_poll from_fn pf (FromErr f) w =
     bind_exec (pf f w) (\<lambda>(r, f', w1).
       case r of Inr a \<Rightarrow> Inr (Inr a, FromErr f', w1) | Inl e \<Rightarrow> Inr (PErr (from_fn e), FromErr f', w1))"

section \<open>Chains\<close>

datatype ('a, 'b, 'c) Chain = First 'a 'c | Second 'b | Done

definition chain_new :: "'a \<Rightarrow> 'c \<Rightarrow> ('a, 'b, 'c) Chain" where
  "chain_new a c = First a c"

text \<open>
  \<^verbatim>\<open>Chain::poll\<close>.  The continuation \<open>f\<close> returns \<^verbatim>\<open>Result<Result<Item, B>, Error>\<close>: an error, an item, or
  the second future, which is polled at once.
\<close>

definition chain_poll ::
  "('a, 'w, 'i, 'e) fut_poll \<Rightarrow> ('b, 'w, 'j, 'd) fut_poll \<Rightarrow>
   ('e + 'i \<Rightarrow> 'c \<Rightarrow> 'w \<Rightarrow> ('d + ('b + 'j)) \<times> 'w) \<Rightarrow> (('a, 'b, 'c) Chain, 'w, 'j, 'd) fut_poll" where
  "chain_poll pa pb f ch w =
     (let go = (\<lambda>a_result data w1.
        case f a_result data w1 of
          (Inl d, w2) \<Rightarrow> Inr (PErr d, Done, w2)
        | (Inr (Inr e), w2) \<Rightarrow> Inr (PReady e, Done, w2)
        | (Inr (Inl b), w2) \<Rightarrow> bind_exec (pb b w2) (\<lambda>(ret, b', w3). Inr (ret, Second b', w3)))
      in case ch of
           First a c \<Rightarrow>
             bind_exec (pa a w) (\<lambda>(r, a', w1).
               case r of
                 Inr NotReady \<Rightarrow> Inr (PNotReady, First a' c, w1)
               | Inr (Ready t) \<Rightarrow> go (Inr t) c w1
               | Inl e \<Rightarrow> go (Inl e) c w1)
         | Second b \<Rightarrow> bind_exec (pb b w) (\<lambda>(ret, b', w1). Inr (ret, Second b', w1))
         | Done \<Rightarrow> Inl Panicked)"

text \<open>\<^verbatim>\<open>Then\<close> and \<^verbatim>\<open>AndThen\<close> are structures with the chain as their only field.\<close>

definition then_new :: "'a \<Rightarrow> 'c \<Rightarrow> ('a, 'b, 'c) Chain" where
  "then_new future f = chain_new future f"

definition and_then_new :: "'a \<Rightarrow> 'c \<Rightarrow> ('a, 'b, 'c) Chain" where
  "and_then_new future f = chain_new future f"

definition then_poll ::
  "('a, 'w, 'i, 'e) fut_poll \<Rightarrow> ('b, 'w, 'j, 'd) fut_poll \<Rightarrow>
     (('a, 'b, 'e + 'i \<Rightarrow> 'w \<Rightarrow> 'b \<times> 'w) Chain, 'w, 'j, 'd) fut_poll" where
  "then_poll pa pb =
     chain_poll pa pb (\<lambda>a f w. let (b, w1) = f a w in (Inr (Inl b), w1))"

definition and_then_poll ::
  "('a, 'w, 'i, 'e) fut_poll \<Rightarrow> ('b, 'w, 'j, 'e) fut_poll \<Rightarrow>
     (('a, 'b, 'i \<Rightarrow> 'w \<Rightarrow> 'b \<times> 'w) Chain, 'w, 'j, 'e) fut_poll" where
  "and_then_poll pa pb =
     chain_poll pa pb (\<lambda>result f w.
       case result of Inl e \<Rightarrow> (Inl e, w) | Inr x \<Rightarrow> (let (b, w1) = f x w in (Inr (Inl b), w1)))"

section \<open>Either, immediate results, wrapped futures, timeouts\<close>

datatype ('a, 'b) Either = EitherA 'a | EitherB 'b

fun either_split :: "('t \<times> 'a, 't \<times> 'b) Either \<Rightarrow> 't \<times> ('a, 'b) Either" where
  "either_split (EitherA (a, b)) = (a, EitherA b)"
| "either_split (EitherB (a, b)) = (a, EitherB b)"

fun either_poll ::
  "('a, 'w, 'i, 'e) fut_poll \<Rightarrow> ('b, 'w, 'i, 'e) fut_poll \<Rightarrow> (('a, 'b) Either, 'w, 'i, 'e) fut_poll" where
  "either_poll pa pb (EitherA a) w = bind_exec (pa a w) (\<lambda>(r, a', w1). Inr (r, EitherA a', w1))"
| "either_poll pa pb (EitherB b) w = bind_exec (pb b w) (\<lambda>(r, b', w1). Inr (r, EitherB b', w1))"

datatype ('t, 'e) FutureResult = FutureResult "('e + 't) option"

definition fut_result :: "'e + 't \<Rightarrow> ('t, 'e) FutureResult" where
  "fut_result r = FutureResult (Some r)"

definition fut_ok :: "'t \<Rightarrow> ('t, 'e) FutureResult" where
  "fut_ok t = fut_result (Inr t)"

definition fut_err :: "'e \<Rightarrow> ('t, 'e) FutureResult" where
  "fut_err e = fut_result (Inl e)"

fun result_poll :: "(('t, 'e) FutureResult, 'w, 't, 'e) fut_poll" where
  "result_poll (FutureResult (Some r)) w = Inr (as_poll r, FutureResult None, w)"
| "result_poll (FutureResult None) w = Inl Panicked"

text \<open>\<^verbatim>\<open>FutureWrap\<close>: a plain future, polled without the actor.\<close>

datatype 'f FutureWrap = FutureWrap 'f

definition wrap_future :: "'f \<Rightarrow> 'f FutureWrap" where
  "wrap_future f = FutureWrap f"

fun wrap_poll :: "('f \<Rightarrow> (('i, 'e) Poll \<times> 'f) exec) \<Rightarrow> ('f FutureWrap, 'w, 'i, 'e) fut_poll" where
  "wrap_poll pf (FutureWrap f) w = bind_exec (pf f) (\<lambda>(r, f'). Inr (r, FutureWrap f', w))"

text \<open>
  The timer of the reactor is a parameter: \<open>tp\<close> polls it.  An error of the timer is
  \<^verbatim>\<open>unreachable!()\<close>, and the error value is handed out once.
\<close>

record ('f, 'e, 't) FutTimeout =
  ft_fut :: 'f
  ft_err :: "'e option"
  ft_timeout :: 't

definition timeout_new :: "'f \<Rightarrow> 't \<Rightarrow> 'e \<Rightarrow> ('f, 'e, 't) FutTimeout" where
  "timeout_new future timer err = \<lparr>ft_fut = future, ft_err = Some err, ft_timeout = timer\<rparr>"

definition timeout_poll ::
  "('t \<Rightarrow> 'w \<Rightarrow> (unit, unit) Poll \<times> 't) \<Rightarrow> ('f, 'w, 'i, 'e) fut_poll \<Rightarrow>
     (('f, 'e, 't) FutTimeout, 'w, 'i, 'e) fut_poll" where
  "timeout_poll tp pf m w =
     (let (r, t') = tp (ft_timeout m) w; m1 = m\<lparr>ft_timeout := t'\<rparr> in
      case r of
        Inr (Ready _) \<Rightarrow>
          (case ft_err m1 of
             None \<Rightarrow> Inl Panicked
           | Some e \<Rightarrow> Inr (PErr e, m1\<lparr>ft_err := None\<rparr>, w))
      | Inr NotReady \<Rightarrow>
          bind_exec (pf (ft_fut m1) w) (\<lambda>(p, f', w1). Inr (p, m1\<lparr>ft_fut := f'\<rparr>, w1))
      | Inl _ \<Rightarrow> Inl Panicked)"

section \<open>The methods of the trait\<close>

text \<open>\<^verbatim>\<open>ActorFuture\<close> offers the combinators as methods, and \<^verbatim>\<open>into_actor\<close> wraps a plain future.\<close>

definition act_map :: "'f \<Rightarrow> 'g \<Rightarrow> ('f, 'g) Map" where
  "act_map self f = map_new self f"

definition act_map_err :: "'f \<Rightarrow> 'g \<Rightarrow> ('f, 'g) MapErr" where
  "act_map_err self f = map_err_new self f"

definition act_drop_err :: "'f \<Rightarrow> 'f DropErr" where
  "act_drop_err self = drop_err_new self"

definition act_from_err :: "'f \<Rightarrow> 'f FromErr" where
  "act_from_err self = from_err_new self"

definition act_then :: "'a \<Rightarrow> 'c \<Rightarrow> ('a, 'b, 'c) Chain" where
  "act_then self f = then_new self f"

definition act_and_then :: "'a \<Rightarrow> 'c \<Rightarrow> ('a, 'b, 'c) Chain" where
  "act_and_then self f = and_then_new self f"

definition act_timeout :: "'f \<Rightarrow> 't \<Rightarrow> 'e \<Rightarrow> ('f, 'e, 't) FutTimeout" where
  "act_timeout self timer err = timeout_new self timer err"

definition act_actfuture :: "'f \<Rightarrow> 'f FutureWrap" where
  "act_actfuture self = wrap_future self"

text \<open>An actor future is its own \<^verbatim>\<open>into_future\<close>, and a boxed one is polled through the box.\<close>

definition act_into_future :: "'f \<Rightarrow> 'f" where
  "act_into_future self = self"

datatype 'f Boxed = Boxed 'f

fun box_poll :: "('f, 'w, 'i, 'e) fut_poll \<Rightarrow> ('f Boxed, 'w, 'i, 'e) fut_poll" where
  "box_poll pf (Boxed f) w = bind_exec (pf f w) (\<lambda>(r, f', w1). Inr (r, Boxed f', w1))"

definition act_into_actor :: "'f \<Rightarrow> 'f FutureWrap" where
  "act_into_actor self = wrap_future self"

lemmas act_defs =
  act_map_def act_map_err_def act_drop_err_def act_from_err_def act_then_def act_and_then_def act_timeout_def
  act_into_actor_def drop_err_new_def from_err_new_def then_new_def and_then_new_def wrap_future_def

section \<open>The life of a future\<close>

text \<open>
  \<open>resolves pf f ws r w'\<close>: polled in the worlds \<open>ws\<close>, one after the other, \<open>f\<close> is pending in all but
  the last and completes there with \<open>r\<close>, leaving \<open>w'\<close>.  Between two polls the world changes freely.
\<close>

inductive resolves :: "('f, 'w, 'i, 'e) fut_poll \<Rightarrow> 'f \<Rightarrow> 'w list \<Rightarrow> 'e + 'i \<Rightarrow> 'w \<Rightarrow> bool" for pf where
  completes: "pf f w = Inr (as_poll r, f', w') \<Longrightarrow> resolves pf f [w] r w'"
| pending: "\<lbrakk>pf f w = Inr (PNotReady, f1, w1); resolves pf f1 ws r w'\<rbrakk> \<Longrightarrow> resolves pf f (w # ws) r w'"

inductive_cases resolvesE: "resolves pf f ws r w'"

lemma as_poll_simps [simp]:
  "as_poll r \<noteq> PNotReady" "PNotReady \<noteq> as_poll r" "as_poll r = as_poll r' \<longleftrightarrow> r = r'"
  "as_poll r = PReady i \<longleftrightarrow> r = Inr i" "as_poll r = PErr e \<longleftrightarrow> r = Inl e"
  by (cases r; cases r'; auto)+

lemma poll_cases [case_names pending completed]:
  assumes "p = PNotReady \<Longrightarrow> thesis" and "\<And>r. p = as_poll r \<Longrightarrow> thesis"
  shows thesis
proof (cases p)
  case (Inl e)
  then show ?thesis using assms(2) [of "Inl e"] by simp
next
  case (Inr a)
  then show ?thesis using assms(1) assms(2) by (cases a) (auto, metis as_poll.simps(2))
qed

lemma resolves_nonempty: "resolves pf f ws r w' \<Longrightarrow> ws \<noteq> []"
  by (erule resolvesE) auto

lemma resolves_Cons:
  "resolves pf f (w # ws) r w' \<longleftrightarrow>
     (ws = [] \<and> (\<exists>f'. pf f w = Inr (as_poll r, f', w'))) \<or>
     (\<exists>f1 w1. pf f w = Inr (PNotReady, f1, w1) \<and> resolves pf f1 ws r w')"
  by (auto elim: resolvesE intro: resolves.intros)

text \<open>The behaviour of a future is determined by the worlds in which it is polled.\<close>

lemma resolves_unique:
  "resolves pf f ws r w' \<Longrightarrow> resolves pf f (ws @ ws') r2 w2 \<Longrightarrow> ws' = [] \<and> r2 = r \<and> w2 = w'"
  by (induction rule: resolves.induct) (auto simp: resolves_Cons dest: resolves_nonempty)

text \<open>
  An adapter forwards the polls of one inner future and transforms its outcome once.
\<close>

locale future_adapter =
  fixes pf :: "('f, 'w, 'i, 'e) fut_poll"
    and pg :: "('g, 'w, 'j, 'd) fut_poll"
    and wrap :: "'f \<Rightarrow> 'g"
    and fin :: "'e + 'i \<Rightarrow> 'w \<Rightarrow> ('d + 'j) \<times> 'w"
  assumes forward_pending: "pf f w = Inr (PNotReady, f', w') \<Longrightarrow> pg (wrap f) w = Inr (PNotReady, wrap f', w')"
    and forward_done: "pf f w = Inr (as_poll r, f', w') \<Longrightarrow>
      \<exists>g'. pg (wrap f) w = Inr (as_poll (fst (fin r w')), g', snd (fin r w'))"
    and forward_fault: "pf f w = Inl x \<Longrightarrow> pg (wrap f) w = Inl x"
begin

lemma adapter_resolves:
  "resolves pg (wrap f) ws r w2 \<longleftrightarrow> (\<exists>r0 w1. resolves pf f ws r0 w1 \<and> fin r0 w1 = (r, w2))"
proof (induction ws arbitrary: f)
  case Nil
  then show ?case by (auto dest: resolves_nonempty)
next
  case (Cons w ws)
  show ?case
  proof (cases "pf f w")
    case (Inl x)
    then show ?thesis using forward_fault [OF Inl] by (simp add: resolves_Cons)
  next
    case (Inr res)
    obtain p f1 w1 where res: "res = (p, f1, w1)" by (cases res) auto
    show ?thesis
    proof (cases p rule: poll_cases)
      case pending
      then show ?thesis using forward_pending [of f w f1 w1] Inr res Cons.IH by (simp add: resolves_Cons)
    next
      case (completed r0)
      then obtain g' where "pg (wrap f) w = Inr (as_poll (fst (fin r0 w1)), g', snd (fin r0 w1))"
        using forward_done [of f w r0 f1 w1] Inr res by blast
      then show ?thesis using Inr res completed
        by (cases "fin r0 w1") (auto simp: resolves_Cons)
    qed
  qed
qed

end

fun map_fin :: "('i \<Rightarrow> 'w \<Rightarrow> 'u \<times> 'w) \<Rightarrow> 'e + 'i \<Rightarrow> 'w \<Rightarrow> ('e + 'u) \<times> 'w" where
  "map_fin g (Inr i) w = (let (u, w') = g i w in (Inr u, w'))"
| "map_fin g (Inl e) w = (Inl e, w)"

fun map_err_fin :: "('e \<Rightarrow> 'w \<Rightarrow> 'u \<times> 'w) \<Rightarrow> 'e + 'i \<Rightarrow> 'w \<Rightarrow> ('u + 'i) \<times> 'w" where
  "map_err_fin g (Inr i) w = (Inr i, w)"
| "map_err_fin g (Inl e) w = (let (u, w') = g e w in (Inl u, w'))"

interpretation fmap: future_adapter pf "map_poll pf" "\<lambda>f. map_new f g" "map_fin g" for pf g
proof unfold_locales
  fix f w r f' w'
  show "pf f w = Inr (as_poll r, f', w') \<Longrightarrow>
      \<exists>g'. map_poll pf (map_new f g) w = Inr (as_poll (fst (map_fin g r w')), g', snd (map_fin g r w'))"
    by (cases r) (auto simp: map_poll_def map_new_def split: prod.splits)
qed (auto simp: map_poll_def map_new_def)

interpretation fmaperr: future_adapter pf "map_err_poll pf" "\<lambda>f. map_err_new f g" "map_err_fin g" for pf g
proof unfold_locales
  fix f w r f' w'
  show "pf f w = Inr (as_poll r, f', w') \<Longrightarrow>
      \<exists>g'. map_err_poll pf (map_err_new f g) w = Inr (as_poll (fst (map_err_fin g r w')), g', snd (map_err_fin g r w'))"
    by (cases r) (auto simp: map_err_poll_def map_err_new_def split: prod.splits)
qed (auto simp: map_err_poll_def map_err_new_def)

interpretation fdroperr: future_adapter pf "drop_err_poll pf" DropErr "map_err_fin (\<lambda>_ w. ((), w))" for pf
proof unfold_locales
  fix f w r f' w'
  show "pf f w = Inr (as_poll r, f', w') \<Longrightarrow> \<exists>g'. drop_err_poll pf (DropErr f) w =
      Inr (as_poll (fst (map_err_fin (\<lambda>_ w. ((), w)) r w')), g', snd (map_err_fin (\<lambda>_ w. ((), w)) r w'))"
    by (cases r) auto
qed auto

interpretation ffromerr: future_adapter pf "from_err_poll from_fn pf" FromErr "map_err_fin (\<lambda>e w. (from_fn e, w))" for pf from_fn
proof unfold_locales
  fix f w r f' w'
  show "pf f w = Inr (as_poll r, f', w') \<Longrightarrow> \<exists>g'. from_err_poll from_fn pf (FromErr f) w =
      Inr (as_poll (fst (map_err_fin (\<lambda>e w. (from_fn e, w)) r w')), g', snd (map_err_fin (\<lambda>e w. (from_fn e, w)) r w'))"
    by (cases r) auto
qed auto

text \<open>The second part of a chain is adapted by its constructor, and either branch by its own.\<close>

interpretation fsecond: future_adapter pb "chain_poll pa pb f" Second "\<lambda>r w. (r, w)" for pa pb f
  by unfold_locales (auto simp: chain_poll_def)

interpretation fbox: future_adapter pf "box_poll pf" Boxed "\<lambda>r w. (r, w)" for pf
  by unfold_locales auto

interpretation feithera: future_adapter pa "either_poll pa pb" EitherA "\<lambda>r w. (r, w)" for pa pb
  by unfold_locales auto

interpretation feitherb: future_adapter pb "either_poll pa pb" EitherB "\<lambda>r w. (r, w)" for pa pb
  by unfold_locales auto

section \<open>Sequencing\<close>

text \<open>
  A chain whose continuation always gives a second future: that future is polled for the first
  time in the very poll that completed the first one.
\<close>

lemma resolves_immediate:
  "resolves pf f (w # ws) r w' \<longleftrightarrow>
     (\<exists>p f1 w1. pf f w = Inr (p, f1, w1) \<and>
        (p = as_poll r \<and> ws = [] \<and> w1 = w' \<or> p = PNotReady \<and> resolves pf f1 ws r w'))"
  by (auto simp: resolves_Cons)

lemma chain_first_pending:
  "pa a w = Inr (PNotReady, a', w1) \<Longrightarrow> chain_poll pa pb f (First a c) w = Inr (PNotReady, First a' c, w1)"
  by (simp add: chain_poll_def)

lemma chain_first_done:
  "pa a w = Inr (as_poll r0, a', w1) \<Longrightarrow> chain_poll pa pb f (First a c) w =
     (case f r0 c w1 of
        (Inl d, w2) \<Rightarrow> Inr (PErr d, Done, w2)
      | (Inr (Inr e), w2) \<Rightarrow> Inr (PReady e, Done, w2)
      | (Inr (Inl b), w2) \<Rightarrow> bind_exec (pb b w2) (\<lambda>(ret, b', w3). Inr (ret, Second b', w3)))"
  by (cases r0) (auto simp: chain_poll_def)

definition chain_outcome ::
  "('b, 'w, 'j, 'd) fut_poll \<Rightarrow> ('d + ('b + 'j)) \<times> 'w \<Rightarrow> 'w list \<Rightarrow> 'd + 'j \<Rightarrow> 'w \<Rightarrow> bool" where
  "chain_outcome pb out ws r w' =
     (case out of
        (Inl d, w2) \<Rightarrow> ws = [] \<and> r = Inl d \<and> w' = w2
      | (Inr (Inr e), w2) \<Rightarrow> ws = [] \<and> r = Inr e \<and> w' = w2
      | (Inr (Inl b), w2) \<Rightarrow> resolves pb b (w2 # ws) r w')"

lemma chain_step_outcome:
  assumes "pa a w = Inr (as_poll r0, a', w1)"
  shows "resolves (chain_poll pa pb f) (First a c) (w # ws) r w' \<longleftrightarrow> chain_outcome pb (f r0 c w1) ws r w'"
proof -
  obtain out w2 where o: "f r0 c w1 = (out, w2)" by force
  consider d where "out = Inl d" | e where "out = Inr (Inr e)" | b where "out = Inr (Inl b)"
    by (metis sumE)
  then show ?thesis
  proof cases
    case 3
    show ?thesis
    proof (cases "pb b w2")
      case (Inl x)
      then show ?thesis using 3 o chain_first_done [of pa a w r0 a' w1 pb f c] assms
        by (simp add: resolves_immediate chain_outcome_def)
    next
      case (Inr res)
      then show ?thesis using 3 o chain_first_done [of pa a w r0 a' w1 pb f c] assms fsecond.adapter_resolves [of pa pb f]
        by (cases res) (auto simp: resolves_immediate chain_outcome_def)
    qed
  qed (use assms o chain_first_done [of pa a w r0 a' w1 pb f c] in
      \<open>auto simp: resolves_immediate chain_outcome_def as_poll.simps [symmetric] simp del: as_poll.simps\<close>)
qed

lemma resolves_split_Cons:
  "(\<exists>ws1 ws2 r0 w1. w # ws = ws1 @ ws2 \<and> resolves pa a ws1 r0 w1 \<and> Q ws2 r0 w1) \<longleftrightarrow>
   (\<exists>ws1 ws2 r0 w1. ws = ws1 @ ws2 \<and> resolves pa a (w # ws1) r0 w1 \<and> Q ws2 r0 w1)" (is "?l \<longleftrightarrow> ?r")
proof
  assume ?l
  then obtain ws1 ws2 r0 w1 where 1: "w # ws = ws1 @ ws2" "resolves pa a ws1 r0 w1" "Q ws2 r0 w1" by blast
  then obtain v where "ws1 = w # v" by (cases ws1) (auto dest: resolves_nonempty)
  then show ?r using 1 by auto
next
  assume ?r
  then show ?l by (metis append_Cons)
qed

lemma chain_resolves:
  "resolves (chain_poll pa pb f) (First a c) ws r w' \<longleftrightarrow>
     (\<exists>ws1 ws2 r0 w1. ws = ws1 @ ws2 \<and> resolves pa a ws1 r0 w1 \<and> chain_outcome pb (f r0 c w1) ws2 r w')"
proof (induction ws arbitrary: a)
  case Nil
  then show ?case by (auto dest: resolves_nonempty)
next
  case (Cons w ws)
  show ?case
  proof (cases "pa a w")
    case (Inl x)
    then have "chain_poll pa pb f (First a c) w = Inl x" by (simp add: chain_poll_def)
    then show ?thesis using Inl by (auto simp: resolves_Cons Cons_eq_append_conv dest: resolves_nonempty)
  next
    case (Inr res)
    obtain p a' w1 where res: "res = (p, a', w1)" by (cases res) auto
    show ?thesis
    proof (cases p rule: poll_cases)
      case pending
      have "resolves (chain_poll pa pb f) (First a c) (w # ws) r w' \<longleftrightarrow>
          resolves (chain_poll pa pb f) (First a' c) ws r w'"
        using chain_first_pending [of pa a w a' w1 pb f c] Inr res pending by (simp add: resolves_Cons)
      moreover have "resolves pa a (w # ws1) r0 w2 \<longleftrightarrow> resolves pa a' ws1 r0 w2" for ws1 r0 w2
        using Inr res pending by (simp add: resolves_Cons)
      ultimately show ?thesis unfolding resolves_split_Cons using Cons.IH by simp
    next
      case (completed r0)
      then have "resolves pa a (w # ws1) r1 w2 \<longleftrightarrow> ws1 = [] \<and> r1 = r0 \<and> w2 = w1" for ws1 r1 w2
        using Inr res by (auto simp: resolves_Cons)
      then show ?thesis unfolding resolves_split_Cons
        using chain_step_outcome [of pa a w r0 a' w1 pb f c ws r w'] Inr res completed by simp
    qed
  qed
qed

section \<open>Timeouts\<close>

text \<open>The future after it has been pending in all the worlds \<open>ws\<close>; the timer likewise.\<close>

fun pends :: "('f, 'w, 'i, 'e) fut_poll \<Rightarrow> 'f \<Rightarrow> 'w list \<Rightarrow> 'f option" where
  "pends pf f [] = Some f"
| "pends pf f (w # ws) = (case pf f w of Inr (Inr NotReady, f1, _) \<Rightarrow> pends pf f1 ws | _ \<Rightarrow> None)"

fun timer_pends :: "('t \<Rightarrow> 'w \<Rightarrow> (unit, unit) Poll \<times> 't) \<Rightarrow> 't \<Rightarrow> 'w list \<Rightarrow> 't option" where
  "timer_pends tp t [] = Some t"
| "timer_pends tp t (w # ws) = (case tp t w of (Inr NotReady, t1) \<Rightarrow> timer_pends tp t1 ws | _ \<Rightarrow> None)"

lemma timer_pends_Cons:
  "timer_pends tp t (w # ws) = Some t' \<longleftrightarrow> (\<exists>t1. tp t w = (PNotReady, t1) \<and> timer_pends tp t1 ws = Some t')"
  by (auto split: sum.splits Async.splits prod.splits)

lemma pends_Cons:
  "pends pf f (w # ws) = Some f' \<longleftrightarrow> (\<exists>f1 w1. pf f w = Inr (PNotReady, f1, w1) \<and> pends pf f1 ws = Some f')"
  by (auto split: sum.splits Async.splits prod.splits)

lemma timeout_poll_pending:
  "tp t w = (PNotReady, t1) \<Longrightarrow> timeout_poll tp pf (timeout_new f t e) w =
     bind_exec (pf f w) (\<lambda>(p, f', w1). Inr (p, timeout_new f' t1 e, w1))"
  by (simp add: timeout_poll_def timeout_new_def)

lemma timeout_transparent:
  "timer_pends tp t ws = Some t' \<Longrightarrow>
   resolves (timeout_poll tp pf) (timeout_new f t e) ws r w' \<longleftrightarrow> resolves pf f ws r w'"
proof (induction ws arbitrary: f t)
  case Nil
  then show ?case by (auto dest: resolves_nonempty)
next
  case (Cons w ws)
  then obtain t1 where t1: "tp t w = (PNotReady, t1)" "timer_pends tp t1 ws = Some t'"
    unfolding timer_pends_Cons by blast
  have IH: "resolves (timeout_poll tp pf) (timeout_new f1 t1 e) ws r w' \<longleftrightarrow> resolves pf f1 ws r w'" for f1
    using Cons.IH [OF t1(2)] .
  show ?case
  proof (cases "pf f w")
    case (Inr res)
    then show ?thesis using timeout_poll_pending [of tp t w t1 pf f e, OF t1(1)] IH by (cases res) (auto simp: resolves_Cons)
  qed (use timeout_poll_pending [of tp t w t1 pf f e, OF t1(1)] in \<open>auto simp: resolves_Cons\<close>)
qed

lemma timeout_expires:
  "\<lbrakk>timer_pends tp t ws = Some t'; tp t' w = (PReady (), t''); pends pf f ws = Some f'\<rbrakk> \<Longrightarrow>
   resolves (timeout_poll tp pf) (timeout_new f t e) (ws @ [w]) (Inl e) w"
proof (induction ws arbitrary: f t)
  case Nil
  then have "timeout_poll tp pf (timeout_new f t e) w = Inr (as_poll (Inl e), (timeout_new f t'' e)\<lparr>ft_err := None\<rparr>, w)"
    by (simp add: timeout_poll_def timeout_new_def)
  then show ?case by (auto intro: resolves.completes)
next
  case (Cons v ws)
  obtain t1 where t1: "tp t v = (PNotReady, t1)" "timer_pends tp t1 ws = Some t'"
    using Cons.prems(1) unfolding timer_pends_Cons by blast
  obtain f1 v1 where f1: "pf f v = Inr (PNotReady, f1, v1)" "pends pf f1 ws = Some f'"
    using Cons.prems(3) unfolding pends_Cons by blast
  have "timeout_poll tp pf (timeout_new f t e) v = Inr (PNotReady, timeout_new f1 t1 e, v1)"
    using timeout_poll_pending [of tp t v t1 pf f e, OF t1(1)] f1(1) by simp
  then show ?case using Cons.IH [OF t1(2) Cons.prems(2) f1(2)] by (auto intro: resolves.pending)
qed

section \<open>Properties\<close>

lemma map_err_fin_const: "map_err_fin (\<lambda>e w. (h e, w)) r0 w = (map_sum h id r0, w)"
  by (cases r0) auto


text \<open>C21: Sequencing.  \<^verbatim>\<open>then\<close> runs its first future to completion, hands the outcome and the actor to
  the closure, and runs the future the closure returns, polled for the first time in the same poll;
  its outcome is the outcome of the second future.  \<^verbatim>\<open>and_then\<close> does the same for a success and
  completes with the error, without calling the closure, otherwise.\<close>

theorem future_sequencing:
  "(resolves (then_poll pa pb) (act_then a k) ws r w' \<longleftrightarrow>
      (\<exists>ws1 ws2 r0 w1. ws = ws1 @ ws2 \<and> resolves pa a ws1 r0 w1 \<and>
         resolves pb (fst (k r0 w1)) (snd (k r0 w1) # ws2) r w')) \<and>
   (resolves (and_then_poll pa pb') (act_and_then a k') ws r' w' \<longleftrightarrow>
      (\<exists>ws1 ws2 x w1. ws = ws1 @ ws2 \<and> resolves pa a ws1 (Inr x) w1 \<and>
         resolves pb' (fst (k' x w1)) (snd (k' x w1) # ws2) r' w') \<or>
      (\<exists>e. r' = Inl e \<and> resolves pa a ws (Inl e) w'))"
proof -
  have t: "chain_outcome pb (let (b, w2) = k r0 w1 in (Inr (Inl b), w2)) ws2 r w' \<longleftrightarrow>
      resolves pb (fst (k r0 w1)) (snd (k r0 w1) # ws2) r w'" for r0 w1 ws2
    by (simp add: chain_outcome_def split: prod.splits)
  have at: "chain_outcome pb' (case r0 of Inl e \<Rightarrow> (Inl e, w1) | Inr x \<Rightarrow> (let (b, w2) = k' x w1 in (Inr (Inl b), w2))) ws2 r' w' \<longleftrightarrow>
      (\<exists>x. r0 = Inr x \<and> resolves pb' (fst (k' x w1)) (snd (k' x w1) # ws2) r' w') \<or>
      (\<exists>e. r0 = Inl e \<and> ws2 = [] \<and> r' = Inl e \<and> w' = w1)" for r0 w1 ws2
    by (cases r0) (auto simp: chain_outcome_def split: prod.splits)
  show ?thesis
    unfolding act_defs then_poll_def and_then_poll_def chain_new_def chain_resolves t at
  proof (rule conjI [OF refl], rule iffI)
    assume "(\<exists>ws1 ws2 x w1. ws = ws1 @ ws2 \<and> resolves pa a ws1 (Inr x) w1 \<and>
        resolves pb' (fst (k' x w1)) (snd (k' x w1) # ws2) r' w') \<or>
      (\<exists>e. r' = Inl e \<and> resolves pa a ws (Inl e) w')"
    then show "\<exists>ws1 ws2 r0 w1. ws = ws1 @ ws2 \<and> resolves pa a ws1 r0 w1 \<and>
        ((\<exists>x. r0 = Inr x \<and> resolves pb' (fst (k' x w1)) (snd (k' x w1) # ws2) r' w') \<or>
         (\<exists>e. r0 = Inl e \<and> ws2 = [] \<and> r' = Inl e \<and> w' = w1))"
      by (metis append_Nil2)
  qed auto
qed

text \<open>A timeout is transparent until it fires: if the timer is pending in every poll the wrapped
  future behaves as without it, and if the future is still pending when the timer fires the result
  is the given error and the future is not polled in that world.\<close>

theorem future_timeout:
  assumes "timer_pends tp t ws = Some t'"
  shows "(resolves (timeout_poll tp pf) (act_timeout f t e) ws r w' \<longleftrightarrow> resolves pf f ws r w') \<and>
    (tp t' w = (PReady (), t'') \<and> pends pf f ws = Some f' \<longrightarrow>
       resolves (timeout_poll tp pf) (act_timeout f t e) (ws @ [w]) (Inl e) w)"
  by (auto simp: act_defs timeout_transparent [OF assms] intro: timeout_expires [OF assms])

text \<open>A timer that fires at its third poll, around a future that is never ready.\<close>

definition count_timer :: "nat \<Rightarrow> nat \<Rightarrow> (unit, unit) Poll \<times> nat" where
  "count_timer t w = (if 2 \<le> t then (PReady (), t) else (PNotReady, Suc t))"

theorem future_timeout_witness:
  "resolves (timeout_poll count_timer (\<lambda>f w. Inr (PNotReady, f, w))) (act_timeout () 0 ''late'') [10, 11, 12]
     (Inl ''late'' :: string + nat) (12 :: nat)"
  using future_timeout [of count_timer 0 "[10, 11]" 2 "\<lambda>f w. Inr (PNotReady, f, w)" "()" "''late''" "Inl '''' :: string + nat" 0 12 2 "()"]
  by (simp add: count_timer_def)

end
