(* ===== verification/Actor_Streams.thy ===== *)
theory Actor_Streams
  imports Actor_Futures
begin

text \<open>
  The actor-aware streams of \<^verbatim>\<open>src/fut\<close> and the helper \<^verbatim>\<open>Finish\<close> for plain streams.  A stream is polled
  like a future whose item is optional, \<^verbatim>\<open>None\<close> being its end; \<open>nexts\<close> is the behaviour of a
  stream up to its next item, error or end.  Loops inside a poll run with fuel.
\<close>

type_synonym ('s, 'w, 'i, 'e) stream_poll = "('s, 'w, 'i option, 'e) fut_poll"

section \<open>Combinators\<close>

record ('s, 'g) StreamMap =
  sm_stream :: 's
  sm_f :: 'g

definition stream_map_new :: "'s \<Rightarrow> 'g \<Rightarrow> ('s, 'g) StreamMap" where
  "stream_map_new s f = \<lparr>sm_stream = s, sm_f = f\<rparr>"

definition stream_map_poll ::
  "('s, 'w, 'i, 'e) stream_poll \<Rightarrow> (('s, 'i \<Rightarrow> 'w \<Rightarrow> 'u \<times> 'w) StreamMap, 'w, 'u, 'e) stream_poll" where
  "stream_map_poll ps m w =
     bind_exec (ps (sm_stream m) w) (\<lambda>(r, s', w1).
       let m1 = m\<lparr>sm_stream := s'\<rparr> in
       case r of
         Inr NotReady \<Rightarrow> Inr (PNotReady, m1, w1)
       | Inr (Ready (Some item)) \<Rightarrow> (let (u, w2) = sm_f m1 item w1 in Inr (PReady (Some u), m1, w2))
       | Inr (Ready None) \<Rightarrow> Inr (PReady None, m1, w1)
       | Inl e \<Rightarrow> Inr (PErr e, m1, w1))"

text \<open>\<^verbatim>\<open>StreamMapErr\<close> has the same fields as \<^verbatim>\<open>StreamMap\<close>, \<^verbatim>\<open>StreamAndThen\<close> those of \<^verbatim>\<open>StreamThen\<close>.\<close>

definition stream_map_err_new :: "'s \<Rightarrow> 'g \<Rightarrow> ('s, 'g) StreamMap" where
  "stream_map_err_new s f = \<lparr>sm_stream = s, sm_f = f\<rparr>"

definition stream_map_err_poll ::
  "('s, 'w, 'i, 'e) stream_poll \<Rightarrow> (('s, 'e \<Rightarrow> 'w \<Rightarrow> 'u \<times> 'w) StreamMap, 'w, 'i, 'u) stream_poll" where
  "stream_map_err_poll ps m w =
     bind_exec (ps (sm_stream m) w) (\<lambda>(r, s', w1).
       let m1 = m\<lparr>sm_stream := s'\<rparr> in
       case r of
         Inr a \<Rightarrow> Inr (Inr a, m1, w1)
       | Inl e \<Rightarrow> (let (u, w2) = sm_f m1 e w1 in Inr (PErr u, m1, w2)))"

record ('s, 'b, 'g) StreamThen =
  st_stream :: 's
  st_future :: "'b option"
  st_f :: 'g

definition stream_then_new :: "'s \<Rightarrow> 'g \<Rightarrow> ('s, 'b, 'g) StreamThen" where
  "stream_then_new s f = \<lparr>st_stream = s, st_future = None, st_f = f\<rparr>"

text \<open>Poll the future in progress; common to \<^verbatim>\<open>StreamThen\<close> and \<^verbatim>\<open>StreamAndThen\<close>.\<close>

definition stream_future_poll ::
  "('b, 'w, 'j, 'd) fut_poll \<Rightarrow> (('s, 'b, 'g) StreamThen, 'w, 'j, 'd) stream_poll" where
  "stream_future_poll pb m w =
     (case st_future m of
        None \<Rightarrow> Inl Panicked
      | Some b \<Rightarrow>
          bind_exec (pb b w) (\<lambda>(r, b', w1).
            case r of
              Inr (Ready e) \<Rightarrow> Inr (PReady (Some e), m\<lparr>st_future := None\<rparr>, w1)
            | Inl e \<Rightarrow> Inr (PErr e, m\<lparr>st_future := None\<rparr>, w1)
            | Inr NotReady \<Rightarrow> Inr (PNotReady, m\<lparr>st_future := Some b'\<rparr>, w1)))"

definition stream_then_poll ::
  "('s, 'w, 'i, 'e) stream_poll \<Rightarrow> ('b, 'w, 'j, 'd) fut_poll \<Rightarrow>
     (('s, 'b, 'e + 'i \<Rightarrow> 'w \<Rightarrow> 'b \<times> 'w) StreamThen, 'w, 'j, 'd) stream_poll" where
  "stream_then_poll ps pb m w =
     (let start = (\<lambda>item m1 w1.
        let (b, w2) = st_f m1 item w1 in stream_future_poll pb (m1\<lparr>st_future := Some b\<rparr>) w2)
      in if st_future m = None then
           bind_exec (ps (st_stream m) w) (\<lambda>(r, s', w1).
             let m1 = m\<lparr>st_stream := s'\<rparr> in
             case r of
               Inr NotReady \<Rightarrow> Inr (PNotReady, m1, w1)
             | Inr (Ready None) \<Rightarrow> Inr (PReady None, m1, w1)
             | Inr (Ready (Some e)) \<Rightarrow> start (Inr e) m1 w1
             | Inl e \<Rightarrow> start (Inl e) m1 w1)
         else stream_future_poll pb m w)"

definition stream_and_then_new :: "'s \<Rightarrow> 'g \<Rightarrow> ('s, 'b, 'g) StreamThen" where
  "stream_and_then_new s f = \<lparr>st_stream = s, st_future = None, st_f = f\<rparr>"

definition stream_and_then_poll ::
  "('s, 'w, 'i, 'e) stream_poll \<Rightarrow> ('b, 'w, 'j, 'e) fut_poll \<Rightarrow>
     (('s, 'b, 'i \<Rightarrow> 'w \<Rightarrow> 'b \<times> 'w) StreamThen, 'w, 'j, 'e) stream_poll" where
  "stream_and_then_poll ps pb m w =
     (if st_future m = None then
        bind_exec (ps (st_stream m) w) (\<lambda>(r, s', w1).
          let m1 = m\<lparr>st_stream := s'\<rparr> in
          case r of
            Inr NotReady \<Rightarrow> Inr (PNotReady, m1, w1)
          | Inl e \<Rightarrow> Inr (PErr e, m1, w1)
          | Inr (Ready None) \<Rightarrow> Inr (PReady None, m1, w1)
          | Inr (Ready (Some x)) \<Rightarrow>
              (let (b, w2) = st_f m1 x w1 in stream_future_poll pb (m1\<lparr>st_future := Some b\<rparr>) w2))
      else stream_future_poll pb m w)"

datatype ('t, 'b) FoldState = FoldEmpty | FoldReady 't | FoldProcessing 'b

record ('s, 't, 'b, 'g) StreamFold =
  fo_stream :: 's
  fo_f :: 'g
  fo_state :: "('t, 'b) FoldState"

definition fold_new :: "'s \<Rightarrow> 'g \<Rightarrow> 't \<Rightarrow> ('s, 't, 'b, 'g) StreamFold" where
  "fold_new s f t = \<lparr>fo_stream = s, fo_f = f, fo_state = FoldReady t\<rparr>"

text \<open>\<^verbatim>\<open>StreamFold::poll\<close>; \<open>from_fn\<close> converts the error of the step future into that of the stream.\<close>

fun fold_poll ::
  "nat \<Rightarrow> ('d \<Rightarrow> 'e) \<Rightarrow> ('s, 'w, 'i, 'e) stream_poll \<Rightarrow> ('b, 'w, 't, 'd) fut_poll \<Rightarrow>
     (('s, 't, 'b, 't \<Rightarrow> 'i \<Rightarrow> 'w \<Rightarrow> 'b \<times> 'w) StreamFold, 'w, 't, 'e) fut_poll" where
  "fold_poll 0 from_fn ps pb m w = Inl OutOfFuel"
| "fold_poll (Suc k) from_fn ps pb m w =
     (let m0 = m\<lparr>fo_state := FoldEmpty\<rparr> in
      case fo_state m of
        FoldEmpty \<Rightarrow> Inl Panicked
      | FoldReady state \<Rightarrow>
          bind_exec (ps (fo_stream m) w) (\<lambda>(r, s', w1).
            let m1 = m0\<lparr>fo_stream := s'\<rparr> in
            case r of
              Inl e \<Rightarrow> Inr (PErr e, m1, w1)
            | Inr (Ready (Some e)) \<Rightarrow>
                (let (fut, w2) = fo_f m1 state e w1
                 in fold_poll k from_fn ps pb (m1\<lparr>fo_state := FoldProcessing fut\<rparr>) w2)
            | Inr (Ready None) \<Rightarrow> Inr (PReady state, m1, w1)
            | Inr NotReady \<Rightarrow> Inr (PNotReady, m1\<lparr>fo_state := FoldReady state\<rparr>, w1))
      | FoldProcessing fut \<Rightarrow>
          bind_exec (pb fut w) (\<lambda>(r, b', w1).
            case r of
              Inl d \<Rightarrow> Inr (PErr (from_fn d), m0, w1)
            | Inr (Ready state) \<Rightarrow> fold_poll k from_fn ps pb (m0\<lparr>fo_state := FoldReady state\<rparr>) w1
            | Inr NotReady \<Rightarrow> Inr (PNotReady, m0\<lparr>fo_state := FoldProcessing b'\<rparr>, w1)))"

datatype 's StreamFinish = StreamFinish 's

definition finish_new :: "'s \<Rightarrow> 's StreamFinish" where
  "finish_new s = StreamFinish s"

fun finish_poll :: "nat \<Rightarrow> ('s, 'w, 'i, 'e) stream_poll \<Rightarrow> ('s StreamFinish, 'w, unit, 'e) fut_poll" where
  "finish_poll 0 ps m w = Inl OutOfFuel"
| "finish_poll (Suc k) ps (StreamFinish s) w =
     bind_exec (ps s w) (\<lambda>(r, s', w1).
       case r of
         Inr NotReady \<Rightarrow> Inr (PNotReady, StreamFinish s', w1)
       | Inr (Ready None) \<Rightarrow> Inr (PReady (), StreamFinish s', w1)
       | Inr (Ready (Some _)) \<Rightarrow> finish_poll k ps (StreamFinish s') w1
       | Inl err \<Rightarrow> Inr (PErr err, StreamFinish s', w1))"

text \<open>\<^verbatim>\<open>helpers::Finish\<close>: the same loop over a plain stream.\<close>

fun plain_finish_poll :: "nat \<Rightarrow> ('s \<Rightarrow> (('i option, 'e) Poll \<times> 's) exec) \<Rightarrow> 's \<Rightarrow> ((unit, 'e) Poll \<times> 's) exec" where
  "plain_finish_poll 0 ps s = Inl OutOfFuel"
| "plain_finish_poll (Suc k) ps s =
     bind_exec (ps s) (\<lambda>(r, s').
       case r of
         Inr NotReady \<Rightarrow> Inr (PNotReady, s')
       | Inr (Ready None) \<Rightarrow> Inr (PReady (), s')
       | Inr (Ready (Some _)) \<Rightarrow> plain_finish_poll k ps s'
       | Inl err \<Rightarrow> Inr (PErr err, s'))"

datatype 's StreamWrap = StreamWrap 's

definition wrap_stream :: "'s \<Rightarrow> 's StreamWrap" where
  "wrap_stream s = StreamWrap s"

fun stream_wrap_poll :: "('s \<Rightarrow> (('i option, 'e) Poll \<times> 's) exec) \<Rightarrow> ('s StreamWrap, 'w, 'i, 'e) stream_poll" where
  "stream_wrap_poll ps (StreamWrap s) w = bind_exec (ps s) (\<lambda>(r, s'). Inr (r, StreamWrap s', w))"

text \<open>
  \<^verbatim>\<open>StreamTimeout\<close>: the timer is armed when the stream is pending and disarmed by an item.
  \<open>new_timer\<close> is the reactor's constructor, \<open>tp\<close> its poll.
\<close>

record ('s, 'e, 'd, 't) StreamTimeout =
  sto_stream :: 's
  sto_err :: 'e
  sto_dur :: 'd
  sto_timeout :: "'t option"

definition stream_timeout_new :: "'s \<Rightarrow> 'd \<Rightarrow> 'e \<Rightarrow> ('s, 'e, 'd, 't) StreamTimeout" where
  "stream_timeout_new s dur err = \<lparr>sto_stream = s, sto_err = err, sto_dur = dur, sto_timeout = None\<rparr>"

definition stream_timeout_poll ::
  "('d \<Rightarrow> 'w \<Rightarrow> 't) \<Rightarrow> ('t \<Rightarrow> 'w \<Rightarrow> (unit, unit) Poll \<times> 't) \<Rightarrow> ('s, 'w, 'i, 'e) stream_poll \<Rightarrow>
     (('s, 'e, 'd, 't) StreamTimeout, 'w, 'i, 'e) stream_poll" where
  "stream_timeout_poll new_timer tp ps m w =
     bind_exec (ps (sto_stream m) w) (\<lambda>(r, s', w1).
       let m1 = m\<lparr>sto_stream := s'\<rparr> in
       case r of
         Inr (Ready res) \<Rightarrow> Inr (PReady res, m1\<lparr>sto_timeout := None\<rparr>, w1)
       | Inl err \<Rightarrow> Inr (PErr err, m1, w1)
       | Inr NotReady \<Rightarrow>
           (let t = (case sto_timeout m1 of None \<Rightarrow> new_timer (sto_dur m1) w1 | Some t \<Rightarrow> t) in
            case tp t w1 of
              (Inr (Ready _), _) \<Rightarrow> Inr (PErr (sto_err m1), m1\<lparr>sto_timeout := None\<rparr>, w1)
            | (Inr NotReady, t') \<Rightarrow> Inr (PNotReady, m1\<lparr>sto_timeout := Some t'\<rparr>, w1)
            | (Inl _, _) \<Rightarrow> Inl Panicked))"

section \<open>The methods of the trait\<close>

text \<open>\<^verbatim>\<open>ActorStream\<close> offers the combinators as methods, and \<^verbatim>\<open>into_actor\<close> wraps a plain stream.\<close>

definition astream_map :: "'s \<Rightarrow> 'g \<Rightarrow> ('s, 'g) StreamMap" where
  "astream_map self f = stream_map_new self f"

definition astream_map_err :: "'s \<Rightarrow> 'g \<Rightarrow> ('s, 'g) StreamMap" where
  "astream_map_err self f = stream_map_err_new self f"

definition astream_then :: "'s \<Rightarrow> 'g \<Rightarrow> ('s, 'b, 'g) StreamThen" where
  "astream_then self f = stream_then_new self f"

definition astream_and_then :: "'s \<Rightarrow> 'g \<Rightarrow> ('s, 'b, 'g) StreamThen" where
  "astream_and_then self f = stream_and_then_new self f"

definition astream_fold :: "'s \<Rightarrow> 't \<Rightarrow> 'g \<Rightarrow> ('s, 't, 'b, 'g) StreamFold" where
  "astream_fold self init f = fold_new self f init"

definition astream_timeout :: "'s \<Rightarrow> 'd \<Rightarrow> 'e \<Rightarrow> ('s, 'e, 'd, 't) StreamTimeout" where
  "astream_timeout self dur err = stream_timeout_new self dur err"

definition astream_finish :: "'s \<Rightarrow> 's StreamFinish" where
  "astream_finish self = finish_new self"

definition astream_into_actor :: "'s \<Rightarrow> 's StreamWrap" where
  "astream_into_actor self = wrap_stream self"

section \<open>The life of a stream\<close>

text \<open>
  \<open>nexts ps s ws r s' w'\<close>: polled in the worlds \<open>ws\<close> the stream is pending in all but the last, where it
  gives \<open>r\<close> (an item, the end or an error), and is then \<open>s'\<close> in the world \<open>w'\<close>.
\<close>

inductive nexts :: "('f, 'w, 'i, 'e) fut_poll \<Rightarrow> 'f \<Rightarrow> 'w list \<Rightarrow> 'e + 'i \<Rightarrow> 'f \<Rightarrow> 'w \<Rightarrow> bool" for ps where
  now: "ps s w = Inr (as_poll r, s', w') \<Longrightarrow> nexts ps s [w] r s' w'"
| later: "\<lbrakk>ps s w = Inr (PNotReady, s1, w1); nexts ps s1 ws r s' w'\<rbrakk> \<Longrightarrow> nexts ps s (w # ws) r s' w'"

inductive_cases nextsE: "nexts ps s ws r s' w'"

lemma nexts_resolves: "(\<exists>s'. nexts ps s ws r s' w') \<longleftrightarrow> resolves ps s ws r w'"
proof
  assume "\<exists>s'. nexts ps s ws r s' w'"
  then obtain s' where "nexts ps s ws r s' w'" by blast
  then show "resolves ps s ws r w'" by induction (auto intro: resolves.intros)
next
  assume "resolves ps s ws r w'"
  then show "\<exists>s'. nexts ps s ws r s' w'" by induction (auto intro: nexts.intros)
qed

lemma nexts_nonempty: "nexts ps s ws r s' w' \<Longrightarrow> ws \<noteq> []"
  by (erule nextsE) auto

lemma nexts_Cons:
  "nexts ps s (w # ws) r s' w' \<longleftrightarrow>
     (ws = [] \<and> ps s w = Inr (as_poll r, s', w')) \<or>
     (\<exists>s1 w1. ps s w = Inr (PNotReady, s1, w1) \<and> nexts ps s1 ws r s' w')"
  by (auto elim: nextsE intro: nexts.intros)

section \<open>Folding\<close>

text \<open>What folding a stream means, in terms of the stream and the step futures alone.\<close>

inductive folds ::
  "('d \<Rightarrow> 'e) \<Rightarrow> ('s, 'w, 'i, 'e) stream_poll \<Rightarrow> ('b, 'w, 't, 'd) fut_poll \<Rightarrow> ('t \<Rightarrow> 'i \<Rightarrow> 'w \<Rightarrow> 'b \<times> 'w) \<Rightarrow>
   't \<Rightarrow> 's \<Rightarrow> 'w list \<Rightarrow> 'e + 't \<Rightarrow> 'w \<Rightarrow> bool" for from_fn ps pb f where
  fold_end: "nexts ps s ws (Inr None) s' w' \<Longrightarrow> folds from_fn ps pb f acc s ws (Inr acc) w'"
| fold_err: "nexts ps s ws (Inl e) s' w' \<Longrightarrow> folds from_fn ps pb f acc s ws (Inl e) w'"
| fold_step_err: "\<lbrakk>nexts ps s ws1 (Inr (Some x)) s1 w1; f acc x w1 = (b, w2); resolves pb b (w2 # ws2) (Inl d) w'\<rbrakk> \<Longrightarrow>
    folds from_fn ps pb f acc s (ws1 @ ws2) (Inl (from_fn d)) w'"
| fold_step: "\<lbrakk>nexts ps s ws1 (Inr (Some x)) s1 w1; f acc x w1 = (b, w2); resolves pb b (w2 # ws2) (Inr acc') w3;
    folds from_fn ps pb f acc' s1 (w3 # ws3) r w'\<rbrakk> \<Longrightarrow>
    folds from_fn ps pb f acc s (ws1 @ ws2 @ ws3) r w'"

abbreviation folding :: "'s \<Rightarrow> 'g \<Rightarrow> 'b \<Rightarrow> ('s, 't, 'b, 'g) StreamFold" where
  "folding s f b \<equiv> \<lparr>fo_stream = s, fo_f = f, fo_state = FoldProcessing b\<rparr>"

text \<open>More fuel gives the same poll.\<close>

lemma fold_poll_mono:
  "fold_poll k from_fn ps pb m w = Inr x \<Longrightarrow> fold_poll (Suc k) from_fn ps pb m w = Inr x"
proof (induction k arbitrary: m w)
  case (Suc k)
  note eqs = fold_poll.simps(2) [of k from_fn ps pb m w] fold_poll.simps(2) [of "Suc k" from_fn ps pb m w]
  note prem = Suc.prems [unfolded eqs(1)]
  show ?case
  proof (cases "fo_state m")
    case FoldEmpty
    then show ?thesis using prem by simp
  next
    case (FoldReady state)
    then obtain r s' w1 where 1: "ps (fo_stream m) w = Inr (r, s', w1)"
      using prem by (auto simp: Let_def bind_exec_eq_Inr)
    consider "r = PNotReady" | "r = PReady None" | e where "r = PErr e" | y where "r = PReady (Some y)"
      by (metis Async.exhaust option.exhaust sumE)
    then show ?thesis unfolding eqs(2)
      by cases (use prem FoldReady 1 Suc.IH in \<open>auto simp: Let_def simp del: fold_poll.simps split: prod.splits\<close>)
  next
    case (FoldProcessing b)
    then obtain r b' w1 where 1: "pb b w = Inr (r, b', w1)" using prem by (auto simp: Let_def bind_exec_eq_Inr)
    consider "r = PNotReady" | e where "r = PErr e" | y where "r = PReady y"
      by (metis Async.exhaust sumE)
    then show ?thesis unfolding eqs(2)
      by cases (use prem FoldProcessing 1 Suc.IH in \<open>auto simp: Let_def simp del: fold_poll.simps\<close>)
  qed
qed simp

declare fold_poll.simps [simp del]

lemmas fold_ready_step = fold_poll.simps(2) [where m = "fold_new s f acc" for s f acc]
  and fold_folding_step = fold_poll.simps(2) [where m = "folding s f b" for s f b]

lemma fold_resolves_mono:
  "resolves (fold_poll k from_fn ps pb) m ws r w' \<Longrightarrow> resolves (fold_poll (Suc k) from_fn ps pb) m ws r w'"
  by (induction rule: resolves.induct) (auto intro: resolves.intros fold_poll_mono)

lemma fold_resolves_le:
  assumes "resolves (fold_poll k from_fn ps pb) m ws r w'" and "k \<le> n"
  shows "resolves (fold_poll n from_fn ps pb) m ws r w'"
  using assms(2,1) by (induction rule: dec_induct) (auto intro: fold_resolves_mono)

text \<open>A turn of the loop inside a poll.\<close>

lemma fold_turn:
  assumes "fold_poll (Suc k) from_fn ps pb m w = fold_poll k from_fn ps pb m2 w2"
    and "resolves (fold_poll k from_fn ps pb) m2 (w2 # ws) r w'"
  shows "resolves (fold_poll (Suc k) from_fn ps pb) m (w # ws) r w'"
  using assms by (auto simp: resolves_Cons intro: fold_resolves_mono)

lemma fold_next:
  assumes "nexts ps s ws1 (Inr (Some x)) s1 w1" and "f acc x w1 = (b, w2)"
    and "resolves (fold_poll k from_fn ps pb) (folding s1 f b) (w2 # ws) r w'"
  shows "resolves (fold_poll (Suc k) from_fn ps pb) (fold_new s f acc) (ws1 @ ws) r w'"
  using assms
proof (induction ws1 arbitrary: s)
  case Nil
  then show ?case by (auto dest: nexts_nonempty)
next
  case (Cons w ws1)
  note prems = Cons.prems
  show ?case
  proof (cases "ws1 = [] \<and> ps s w = Inr (as_poll (Inr (Some x)), s1, w1)")
    case True
    then have "fold_poll (Suc k) from_fn ps pb (fold_new s f acc) w = fold_poll k from_fn ps pb (folding s1 f b) w2"
      using prems(2) by (simp add: fold_ready_step) (simp add: fold_new_def)
    from fold_turn [OF this prems(3)] True show ?thesis by simp
  next
    case False
    then obtain s2 w3 where "ps s w = Inr (PNotReady, s2, w3)" "nexts ps s2 ws1 (Inr (Some x)) s1 w1"
      using prems(1) by (auto simp: nexts_Cons)
    then have "fold_poll (Suc k) from_fn ps pb (fold_new s f acc) w = Inr (PNotReady, fold_new s2 f acc, w3)"
      and "resolves (fold_poll (Suc k) from_fn ps pb) (fold_new s2 f acc) (ws1 @ ws) r w'"
      using Cons.IH prems(2,3) by (simp_all add: fold_ready_step) (simp_all add: fold_new_def)
    then show ?thesis by (auto intro: resolves.pending)
  qed
qed

lemma fold_future:
  assumes "resolves pb b ws1 (Inr acc) w3" and "resolves (fold_poll k from_fn ps pb) (fold_new s f acc) (w3 # ws) r w'"
  shows "resolves (fold_poll (Suc k) from_fn ps pb) (folding s f b) (ws1 @ ws) r w'"
  using assms
proof (induction ws1 arbitrary: b)
  case Nil
  then show ?case by (auto dest: resolves_nonempty)
next
  case (Cons w ws1)
  note prems = Cons.prems
  show ?case
  proof (cases "ws1 = [] \<and> (\<exists>b'. pb b w = Inr (as_poll (Inr acc), b', w3))")
    case True
    then have "fold_poll (Suc k) from_fn ps pb (folding s f b) w = fold_poll k from_fn ps pb (fold_new s f acc) w3"
      by (auto simp: fold_folding_step) (simp add: fold_new_def)
    from fold_turn [OF this prems(2)] True show ?thesis by simp
  next
    case False
    then obtain b2 w4 where "pb b w = Inr (PNotReady, b2, w4)" "resolves pb b2 ws1 (Inr acc) w3"
      using prems(1) by (auto simp: resolves_Cons)
    then have "fold_poll (Suc k) from_fn ps pb (folding s f b) w = Inr (PNotReady, folding s f b2, w4)"
      and "resolves (fold_poll (Suc k) from_fn ps pb) (folding s f b2) (ws1 @ ws) r w'"
      using Cons.IH prems(2) by (simp_all add: fold_folding_step)
    then show ?thesis by (auto intro: resolves.pending)
  qed
qed

lemma fold_future_err:
  "resolves pb b ws (Inl d) w' \<Longrightarrow> resolves (fold_poll (Suc k) from_fn ps pb) (folding s f b) ws (Inl (from_fn d)) w'"
proof (induction ws arbitrary: b)
  case (Cons w ws)
  then show ?case
    by (auto simp: resolves_Cons fold_folding_step)
qed (auto dest: resolves_nonempty)

lemma fold_stream_stop:
  "nexts ps s ws r s' w' \<Longrightarrow> r = Inr None \<and> r' = Inr acc \<or> (\<exists>e. r = Inl e \<and> r' = Inl e) \<Longrightarrow>
   resolves (fold_poll (Suc k) from_fn ps pb) (fold_new s f acc) ws r' w'"
proof (induction ws arbitrary: s)
  case (Cons w ws)
  then show ?case by (auto simp: resolves_Cons nexts_Cons fold_ready_step) (auto simp: fold_new_def)
qed (auto dest: nexts_nonempty)

text \<open>C22: \<^verbatim>\<open>fold\<close> implements folding: whenever the stream and the step futures, taken one after the other,
  lead to a result (the accumulator at the end of the stream, the first error of the stream, or the
  converted first error of a step), the combined future resolves to that result in the same polls;
  its loop needs only finitely many turns, so with enough fuel it does.\<close>

theorem stream_fold_refines:
  assumes "folds from_fn ps pb f acc s ws r w'"
  shows "\<exists>n. \<forall>k\<ge>n. resolves (fold_poll k from_fn ps pb) (astream_fold s acc f) ws r w'"
proof -
  have "\<exists>n. resolves (fold_poll n from_fn ps pb) (fold_new s f acc) ws r w'" using assms
  proof induction
    case (fold_step_err s ws1 x s1 w1 acc b w2 ws2 d w')
    then have "resolves (fold_poll (Suc 0) from_fn ps pb) (folding s1 f b) (w2 # ws2) (Inl (from_fn d)) w'"
      by (blast intro: fold_future_err)
    then show ?case using fold_next [of ps s ws1 x s1 w1 f acc b w2 "Suc 0" from_fn pb ws2] fold_step_err(1,2) by blast
  next
    case (fold_step s ws1 x s1 w1 acc b w2 ws2 acc' w3 ws3 r w')
    then obtain n where "resolves (fold_poll n from_fn ps pb) (fold_new s1 f acc') (w3 # ws3) r w'" by blast
    then have "resolves (fold_poll (Suc n) from_fn ps pb) (folding s1 f b) ((w2 # ws2) @ ws3) r w'"
      using fold_future [of pb b "w2 # ws2" acc' w3 n from_fn ps s1 f ws3 r w'] fold_step(3) by blast
    then show ?case using fold_next [of ps s ws1 x s1 w1 f acc b w2 "Suc n" from_fn pb "ws2 @ ws3" r w'] fold_step(1,2)
      by auto
  next
    case (fold_end s ws s' w' acc)
    then show ?case using fold_stream_stop [of ps s ws "Inr None" s' w' "Inr acc" acc 0 from_fn pb f] by blast
  next
    case (fold_err s ws e s' w' acc)
    then show ?case using fold_stream_stop [of ps s ws "Inl e" s' w' "Inl e" acc 0 from_fn pb f] by blast
  qed
  then obtain n where n: "resolves (fold_poll n from_fn ps pb) (fold_new s f acc) ws r w'" by blast
  show ?thesis unfolding astream_fold_def by (intro exI [of _ n] allI impI fold_resolves_le [OF n])
qed

text \<open>A stream that hands out a list, one item per poll with a pending poll before each, and immediate
  step futures.\<close>

fun slow_list :: "bool \<times> nat list \<Rightarrow> nat \<Rightarrow> ((nat option, string) Poll \<times> (bool \<times> nat list) \<times> nat) exec" where
  "slow_list (False, xs) w = Inr (PNotReady, (True, xs), w)"
| "slow_list (True, x # xs) w = Inr (PReady (Some x), (False, xs), w)"
| "slow_list (True, []) w = Inr (PReady None, (True, []), w)"

lemma slow_list_next: "nexts slow_list (False, x # xs) [w, w1] (Inr (Some x)) (False, xs) w1"
  "nexts slow_list (False, []) [w, w1] (Inr None) (True, []) w1"
  by (auto simp: nexts_Cons intro!: nexts.now)

lemma slow_sum: "folds id slow_list result_poll (\<lambda>a x w. (fut_ok (a + x), w)) 0 (False, [4, 5]) [0, 1, 2, 3] (Inr (9 :: nat)) (3 :: nat)"
proof -
  let ?f = "\<lambda>a x w. (fut_ok (a + x) :: (nat, string) FutureResult, w :: nat)"
  have r: "resolves result_poll (fut_ok n :: (nat, string) FutureResult) [w] (Inr n) (w :: nat)" for n w
    by (auto simp: resolves_Cons fut_ok_def fut_result_def)
  have e: "folds id slow_list result_poll ?f 9 (False, []) [2, 3] (Inr 9) 3"
    by (rule folds.fold_end [OF slow_list_next(2)])
  have s2: "folds id slow_list result_poll ?f 4 (False, [5]) ([1, 2] @ [] @ [3]) (Inr 9) 3"
    by (rule folds.fold_step [OF slow_list_next(1) refl r]) (use e in simp)
  show ?thesis
    using folds.fold_step [OF slow_list_next(1) [of 4 "[5]" 0 1], of ?f 0 "fut_ok 4" 1 result_poll "[]" 4 1 id "[2, 3]" "Inr 9" 3] r [of 4 1] s2
    by simp
qed

theorem stream_fold_refines_witness:
  "\<exists>n. \<forall>k\<ge>n. resolves (fold_poll k id slow_list result_poll)
     (astream_fold (False, [4, 5]) 0 (\<lambda>a x w. (fut_ok (a + x), w))) [0, 1, 2, 3] (Inr (9 :: nat)) (3 :: nat)"
  using stream_fold_refines [OF slow_sum] .

section \<open>Mapping and sequencing of streams\<close>

interpretation smap: future_adapter ps "stream_map_poll ps" "\<lambda>s. \<lparr>sm_stream = s, sm_f = g\<rparr>"
  "\<lambda>r w. case r of Inr (Some i) \<Rightarrow> (let (u, w') = g i w in (Inr (Some u), w')) | Inr None \<Rightarrow> (Inr None, w) | Inl e \<Rightarrow> (Inl e, w)"
  for ps g
proof unfold_locales
  fix f w r f' w'
  show "ps f w = Inr (as_poll r, f', w') \<Longrightarrow> \<exists>g'. stream_map_poll ps \<lparr>sm_stream = f, sm_f = g\<rparr> w =
      Inr (as_poll (fst (case r of Inr (Some i) \<Rightarrow> (let (u, w') = g i w' in (Inr (Some u), w')) | Inr None \<Rightarrow> (Inr None, w') | Inl e \<Rightarrow> (Inl e, w'))),
        g', snd (case r of Inr (Some i) \<Rightarrow> (let (u, w') = g i w' in (Inr (Some u), w')) | Inr None \<Rightarrow> (Inr None, w') | Inl e \<Rightarrow> (Inl e, w')))"
    by (cases r) (auto simp: stream_map_poll_def split: prod.splits option.splits)
qed (auto simp: stream_map_poll_def)

interpretation smaperr: future_adapter ps "stream_map_err_poll ps" "\<lambda>s. \<lparr>sm_stream = s, sm_f = g\<rparr>" "map_err_fin g" for ps g
proof unfold_locales
  fix f w r f' w'
  show "ps f w = Inr (as_poll r, f', w') \<Longrightarrow> \<exists>g'. stream_map_err_poll ps \<lparr>sm_stream = f, sm_f = g\<rparr> w =
      Inr (as_poll (fst (map_err_fin g r w')), g', snd (map_err_fin g r w'))"
    by (cases r) (auto simp: stream_map_err_poll_def split: prod.splits)
qed (auto simp: stream_map_err_poll_def)

text \<open>An item or an error of the stream, as the argument of the closure of \<^verbatim>\<open>then\<close>.\<close>

fun stream_item :: "'e + 'i option \<Rightarrow> ('e + 'i) option" where
  "stream_item (Inl e) = Some (Inl e)"
| "stream_item (Inr (Some i)) = Some (Inr i)"
| "stream_item (Inr None) = None"

lemma stream_future_nexts:
  "nexts pb b ws r b' w' \<Longrightarrow>
   nexts (stream_future_poll pb) \<lparr>st_stream = s, st_future = Some b, st_f = f\<rparr> ws (map_sum id Some r) (stream_then_new s f) w'"
proof (induction ws arbitrary: b)
  case (Cons w ws)
  then show ?case
    by (cases r) (auto simp: nexts_Cons stream_future_poll_def stream_then_new_def)
qed (auto dest: nexts_nonempty)

lemma stream_then_busy:
  "nexts (stream_future_poll pb) \<lparr>st_stream = s, st_future = Some b, st_f = f\<rparr> ws r m w' \<Longrightarrow>
   nexts (stream_then_poll ps pb) \<lparr>st_stream = s, st_future = Some b, st_f = f\<rparr> ws r m w'"
proof (induction ws arbitrary: b)
  case (Cons w ws)
  have "stream_then_poll ps pb \<lparr>st_stream = s, st_future = Some b, st_f = f\<rparr> w =
      stream_future_poll pb \<lparr>st_stream = s, st_future = Some b, st_f = f\<rparr> w" by (simp add: stream_then_poll_def)
  moreover have "\<exists>b'. m1 = \<lparr>st_stream = s, st_future = Some b', st_f = f\<rparr>"
    if "stream_future_poll pb \<lparr>st_stream = s, st_future = Some b, st_f = f\<rparr> w = Inr (PNotReady, m1, w1)" for m1 w1
    using that by (auto simp: stream_future_poll_def bind_exec_def split: sum.splits prod.splits Async.splits)
  ultimately show ?case using Cons by (auto simp: nexts_Cons)
qed (auto dest: nexts_nonempty)

lemma stream_then_start:
  assumes "ps s w = Inr (as_poll it, s1, w1)" and "stream_item it = Some res" and "f res w1 = (b, w2)"
  shows "stream_then_poll ps pb (stream_then_new s f) w =
    stream_future_poll pb \<lparr>st_stream = s1, st_future = Some b, st_f = f\<rparr> w2"
  using assms by (cases it rule: stream_item.cases) (auto simp: stream_then_poll_def stream_then_new_def)

text \<open>\<^verbatim>\<open>StreamThen\<close> handles one item at a time: it polls the stream until it gives an item or an error,
  starts the future the closure makes of it in the same poll, polls only that future until it
  completes, hands out its result and is then back in its initial state on the rest of the
  stream.\<close>

theorem stream_then_sequential:
  assumes "nexts ps s ws1 it s1 w1" and "stream_item it = Some res" and "f res w1 = (b, w2)"
    and "nexts pb b (w2 # ws2) r b' w'"
  shows "nexts (stream_then_poll ps pb) (stream_then_new s f) (ws1 @ ws2) (map_sum id Some r) (stream_then_new s1 f) w'"
  using assms(1)
proof (induction ws1 arbitrary: s)
  case Nil
  then show ?case by (auto dest: nexts_nonempty)
next
  case (Cons w ws1)
  show ?case
  proof (cases "ws1 = [] \<and> ps s w = Inr (as_poll it, s1, w1)")
    case True
    let ?m = "\<lparr>st_stream = s1, st_future = Some b, st_f = f\<rparr>"
    have start: "stream_then_poll ps pb (stream_then_new s f) w = stream_future_poll pb ?m w2"
      using True stream_then_start [of ps s w it s1 w1 res f b w2 pb] assms(2,3) by blast
    have "nexts (stream_then_poll ps pb) ?m (w2 # ws2) (map_sum id Some r) (stream_then_new s1 f) w'"
      by (rule stream_then_busy [OF stream_future_nexts [OF assms(4)]])
    moreover have "stream_then_poll ps pb ?m w2 = stream_future_poll pb ?m w2" by (simp add: stream_then_poll_def)
    ultimately show ?thesis using True start by (simp add: nexts_Cons id_def)
  next
    case False
    then obtain s2 w3 where 1: "ps s w = Inr (PNotReady, s2, w3)" "nexts ps s2 ws1 it s1 w1"
      using Cons.prems by (auto simp: nexts_Cons)
    then have "stream_then_poll ps pb (stream_then_new s f) w = Inr (PNotReady, stream_then_new s2 f, w3)"
      by (simp add: stream_then_poll_def stream_then_new_def)
    then show ?thesis using Cons.IH [OF 1(2)] by (auto intro: nexts.later)
  qed
qed

theorem stream_then_sequential_witness:
  "nexts (stream_then_poll slow_list result_poll) (stream_then_new (False, [4, 5]) (\<lambda>res w. (fut_result res, w)))
     ([0, 1] @ []) (map_sum id Some (Inr 4)) (stream_then_new (False, [5]) (\<lambda>res w. (fut_result res, w))) 1"
proof (rule stream_then_sequential [OF slow_list_next(1) _ refl])
  show "stream_item (Inr (Some 4)) = Some (Inr 4)" by simp
  show "nexts result_poll (fut_result (Inr 4)) [1] (Inr 4) (FutureResult None) 1"
    by (rule nexts.now) (simp add: fut_result_def)
qed

end
