(* ===== verification/Handlers.thy ===== *)
theory Handlers
  imports Context_Lifecycle Actor_Streams
begin

text \<open>
  Message handling: responses (\<^verbatim>\<open>src/handler.rs\<close>), envelopes (\<^verbatim>\<open>src/address/envelope.rs\<close>), the futures an
  actor context is given by the library itself (\<^verbatim>\<open>src/contextitems.rs\<close>, \<^verbatim>\<open>src/stream.rs\<close>,
  \<^verbatim>\<open>TimerFunc\<close> of \<^verbatim>\<open>src/utils.rs\<close>) and the methods of \<^verbatim>\<open>AsyncContext\<close> that spawn them
  (\<^verbatim>\<open>src/actor.rs\<close>).  They are built from user code and run by \<open>run_code\<close>.

  One-shot channels (crate \<^verbatim>\<open>futures\<close>), timers (crate \<^verbatim>\<open>tokio-core\<close>) and the user's streams and
  handlers are parameters; the state of all of them is part of the world \<open>'w\<close>.
\<close>

section \<open>Composing user code\<close>

primrec code_bind :: "('f, 'e, 'r) code \<Rightarrow> ('r \<Rightarrow> ('f, 'e, 's) code) \<Rightarrow> ('f, 'e, 's) code" where
  "code_bind (Return r) g = g r"
| "code_bind (Fault x) g = Fault x"
| "code_bind (CtxStop k) g = CtxStop (code_bind k g)"
| "code_bind (CtxTerminate k) g = CtxTerminate (code_bind k g)"
| "code_bind (CtxState k) g = CtxState (\<lambda>s. code_bind (k s) g)"
| "code_bind (CtxWaiting k) g = CtxWaiting (\<lambda>b. code_bind (k b) g)"
| "code_bind (CtxHandle k) g = CtxHandle (\<lambda>h. code_bind (k h) g)"
| "code_bind (CtxSpawn f k) g = CtxSpawn f (\<lambda>h. code_bind (k h) g)"
| "code_bind (CtxWait f k) g = CtxWait f (code_bind k g)"
| "code_bind (CtxCancel h k) g = CtxCancel h (\<lambda>b. code_bind (k b) g)"
| "code_bind (CtxSetCapacity n k) g = CtxSetCapacity n (code_bind k g)"
| "code_bind (CtxUnsyncAddress k) g = CtxUnsyncAddress (code_bind k g)"
| "code_bind (CtxSyncAddress k) g = CtxSyncAddress (\<lambda>tx. code_bind (k tx) g)"
| "code_bind (AddrDoSend e k) g = AddrDoSend e (code_bind k g)"
| "code_bind (AddrClone k) g = AddrClone (code_bind k g)"
| "code_bind (AddrDrop k) g = AddrDrop (code_bind k g)"
| "code_bind (SynDoSend e k) g = SynDoSend e (code_bind k g)"
| "code_bind (SynDrop k) g = SynDrop (code_bind k g)"

lemma run_code_bind:
  "run_code dbg (code_bind k g) c = bind_exec (run_code dbg k c) (\<lambda>(r, c'). run_code dbg (g r) c')"
  by (induction k arbitrary: c) (auto simp: bind_exec_assoc split_def intro: bind_exec_cong)

section \<open>Responses\<close>

text \<open>
  \<^verbatim>\<open>Response\<close> and \<^verbatim>\<open>ActorResponse\<close>: a result at hand, or a boxed future (plain, or an actor future).
\<close>

datatype ('r, 'pf) ResponseTypeItem = ResponseResult 'r | ResponseFut 'pf

record ('r, 'pf) Response =
  resp_item :: "('r, 'pf) ResponseTypeItem"

definition response_async :: "'pf \<Rightarrow> ('r, 'pf) Response" where
  "response_async fut = \<lparr>resp_item = ResponseFut fut\<rparr>"

definition response_reply :: "'r \<Rightarrow> ('r, 'pf) Response" where
  "response_reply val = \<lparr>resp_item = ResponseResult val\<rparr>"

datatype ('r, 'af) ActorResponseTypeItem = ActorResponseResult 'r | ActorResponseFut 'af

record ('r, 'af) ActorResponse =
  aresp_item :: "('r, 'af) ActorResponseTypeItem"

definition actor_response_reply :: "'r \<Rightarrow> ('r, 'af) ActorResponse" where
  "actor_response_reply val = \<lparr>aresp_item = ActorResponseResult val\<rparr>"

definition actor_response_async :: "'af \<Rightarrow> ('r, 'af) ActorResponse" where
  "actor_response_async fut = \<lparr>aresp_item = ActorResponseFut fut\<rparr>"

text \<open>
  What a handler returns: one of the types that implement \<^verbatim>\<open>MessageResponse\<close>.  \<open>Reply\<close> stands for
  those that hold the result itself: \<^verbatim>\<open>MessageResult\<close>, \<^verbatim>\<open>Result\<close>, \<^verbatim>\<open>Addr\<close> and the types of
  \<^verbatim>\<open>SIMPLE_RESULT\<close>, whose implementations have the same body.
\<close>

datatype ('r, 'af, 'pf) response =
    Reply 'r
  | ResponseActFuture 'af
  | ResponseFuture 'pf
  | ResponseItem "('r, 'pf) Response"
  | ActorResponseItem "('r, 'af) ActorResponse"

text \<open>
  The parts of the environment a response uses: the one-shot channel (\<open>o_send\<close>, \<open>o_canceled\<close>), the
  box that turns the chained actor future into a spawned one, and the spawn of a plain future on
  the reactor.
\<close>

record ('tx, 'r, 'af, 'pf, 'f, 'w) resp_env =
  o_send :: "'tx \<Rightarrow> 'r \<Rightarrow> 'w \<Rightarrow> 'w"
  o_canceled :: "'tx \<Rightarrow> 'w \<Rightarrow> bool"
  o_box :: "'af \<Rightarrow> 'tx option \<Rightarrow> 'f"
  o_reactor_spawn :: "'pf \<Rightarrow> 'tx option \<Rightarrow> 'w \<Rightarrow> 'w"

definition send_opt :: "('tx, 'r, 'af, 'pf, 'f, 'w) resp_env \<Rightarrow> 'tx option \<Rightarrow> 'r \<Rightarrow> 'w \<Rightarrow> 'w" where
  "send_opt env tx r w = (case tx of None \<Rightarrow> w | Some t \<Rightarrow> o_send env t r w)"

text \<open>\<^verbatim>\<open>MessageResponse::handle\<close>, for each of them.\<close>

definition reply_handle :: "('tx, 'r, 'af, 'pf, 'f, 'w) resp_env \<Rightarrow> 'r \<Rightarrow> 'tx option \<Rightarrow> 'w \<Rightarrow> ('f, 'e, 'w) code" where
  "reply_handle env r tx w = Return (send_opt env tx r w)"

definition act_future_handle :: "('tx, 'r, 'af, 'pf, 'f, 'w) resp_env \<Rightarrow> 'af \<Rightarrow> 'tx option \<Rightarrow> 'w \<Rightarrow> ('f, 'e, 'w) code" where
  "act_future_handle env fut tx w = CtxSpawn (o_box env fut tx) (\<lambda>_. Return w)"

definition future_handle :: "('tx, 'r, 'af, 'pf, 'f, 'w) resp_env \<Rightarrow> 'pf \<Rightarrow> 'tx option \<Rightarrow> 'w \<Rightarrow> ('f, 'e, 'w) code" where
  "future_handle env fut tx w = Return (o_reactor_spawn env fut tx w)"

definition response_item_handle ::
  "('tx, 'r, 'af, 'pf, 'f, 'w) resp_env \<Rightarrow> ('r, 'pf) Response \<Rightarrow> 'tx option \<Rightarrow> 'w \<Rightarrow> ('f, 'e, 'w) code" where
  "response_item_handle env resp tx w =
     (case resp_item resp of
        ResponseFut fut \<Rightarrow> Return (o_reactor_spawn env fut tx w)
      | ResponseResult res \<Rightarrow> Return (send_opt env tx res w))"

definition actor_response_handle ::
  "('tx, 'r, 'af, 'pf, 'f, 'w) resp_env \<Rightarrow> ('r, 'af) ActorResponse \<Rightarrow> 'tx option \<Rightarrow> 'w \<Rightarrow> ('f, 'e, 'w) code" where
  "actor_response_handle env resp tx w =
     (case aresp_item resp of
        ActorResponseFut fut \<Rightarrow> CtxSpawn (o_box env fut tx) (\<lambda>_. Return w)
      | ActorResponseResult res \<Rightarrow> Return (send_opt env tx res w))"

fun response_handle ::
  "('tx, 'r, 'af, 'pf, 'f, 'w) resp_env \<Rightarrow> ('r, 'af, 'pf) response \<Rightarrow> 'tx option \<Rightarrow> 'w \<Rightarrow> ('f, 'e, 'w) code" where
  "response_handle env (Reply r) tx w = reply_handle env r tx w"
| "response_handle env (ResponseActFuture fut) tx w = act_future_handle env fut tx w"
| "response_handle env (ResponseFuture fut) tx w = future_handle env fut tx w"
| "response_handle env (ResponseItem resp) tx w = response_item_handle env resp tx w"
| "response_handle env (ActorResponseItem resp) tx w = actor_response_handle env resp tx w"

text \<open>The future that is spawned for an actor future: \<^verbatim>\<open>self.then(|res| tx.send(res); fut::ok(()))\<close>.\<close>

definition respond_new ::
  "('tx, 'e + 'i, 'af, 'pf, 'f, 'w) resp_env \<Rightarrow> 'af \<Rightarrow> 'tx option \<Rightarrow>
     ('af, (unit, unit) FutureResult, 'e + 'i \<Rightarrow> 'w \<Rightarrow> (unit, unit) FutureResult \<times> 'w) Chain" where
  "respond_new env fut tx = chain_new fut (\<lambda>res w. (fut_ok (), send_opt env tx res w))"

definition respond_poll ::
  "('af, 'w, 'i, 'e) fut_poll \<Rightarrow>
     (('af, (unit, unit) FutureResult, 'e + 'i \<Rightarrow> 'w \<Rightarrow> (unit, unit) FutureResult \<times> 'w) Chain, 'w, unit, unit) fut_poll" where
  "respond_poll pf = then_poll pf result_poll"

section \<open>Envelopes\<close>

text \<open>\<^verbatim>\<open>MessageEnvelope\<close> and \<^verbatim>\<open>SyncMessageEnvelope\<close> wrap a message.\<close>

record 'm MessageEnvelope =
  me_msg :: 'm

definition message_envelope_from :: "'m \<Rightarrow> 'm MessageEnvelope" where
  "message_envelope_from msg = \<lparr>me_msg = msg\<rparr>"

definition message_envelope_into_inner :: "'m MessageEnvelope \<Rightarrow> 'm" where
  "message_envelope_into_inner e = me_msg e"

record 'm SyncMessageEnvelope =
  sme_msg :: 'm

definition sync_message_envelope_from :: "'m \<Rightarrow> 'm SyncMessageEnvelope" where
  "sync_message_envelope_from msg = \<lparr>sme_msg = msg\<rparr>"

definition sync_message_envelope_into_inner :: "'m SyncMessageEnvelope \<Rightarrow> 'm" where
  "sync_message_envelope_into_inner e = sme_msg e"

text \<open>\<^verbatim>\<open>SyncEnvelopeProxy\<close> and \<^verbatim>\<open>UnsyncEnvelopeProxy\<close> have the same fields.\<close>

record ('m, 'tx) EnvelopeProxy =
  ep_msg :: "'m option"
  ep_tx :: "'tx option"

definition envelope_new :: "'m \<Rightarrow> 'tx option \<Rightarrow> ('m, 'tx) EnvelopeProxy" where
  "envelope_new msg tx = \<lparr>ep_msg = Some msg, ep_tx = tx\<rparr>"

definition envelope_handle ::
  "('tx, 'r, 'af, 'pf, 'f, 'w) resp_env \<Rightarrow> ('m \<Rightarrow> 'w \<Rightarrow> ('f, 'e, ('r, 'af, 'pf) response \<times> 'w) code) \<Rightarrow>
     ('m, 'tx) EnvelopeProxy \<Rightarrow> 'w \<Rightarrow> ('f, 'e, ('m, 'tx) EnvelopeProxy \<times> 'w) code" where
  "envelope_handle env handle ep w =
     (let tx = ep_tx ep; ep1 = ep\<lparr>ep_tx := None\<rparr> in
      if tx \<noteq> None \<and> o_canceled env (the tx) w then Return (ep1, w)
      else case ep_msg ep1 of
        None \<Rightarrow> Return (ep1, w)
      | Some msg \<Rightarrow>
          (let ep2 = ep1\<lparr>ep_msg := None\<rparr> in
           code_bind (handle msg w) (\<lambda>(fut, w1).
             code_bind (response_handle env fut tx w1) (\<lambda>w2. Return (ep2, w2)))))"

text \<open>The envelopes of the single-thread channel have their own copy of the code.\<close>

definition unsync_envelope_new :: "'m \<Rightarrow> 'tx option \<Rightarrow> ('m, 'tx) EnvelopeProxy" where
  "unsync_envelope_new msg tx = \<lparr>ep_msg = Some msg, ep_tx = tx\<rparr>"

definition unsync_envelope_handle ::
  "('tx, 'r, 'af, 'pf, 'f, 'w) resp_env \<Rightarrow> ('m \<Rightarrow> 'w \<Rightarrow> ('f, 'e, ('r, 'af, 'pf) response \<times> 'w) code) \<Rightarrow>
     ('m, 'tx) EnvelopeProxy \<Rightarrow> 'w \<Rightarrow> ('f, 'e, ('m, 'tx) EnvelopeProxy \<times> 'w) code" where
  "unsync_envelope_handle env handle ep w =
     (if (case ep_tx ep of None \<Rightarrow> False | Some tx \<Rightarrow> o_canceled env tx w) then Return (ep\<lparr>ep_tx := None\<rparr>, w)
      else case ep_msg ep of
        None \<Rightarrow> Return (ep\<lparr>ep_tx := None\<rparr>, w)
      | Some msg \<Rightarrow>
          code_bind (code_bind (handle msg w) (\<lambda>(r, w1). response_handle env r (ep_tx ep) w1))
            (\<lambda>w2. Return (ep\<lparr>ep_msg := None, ep_tx := None\<rparr>, w2)))"

text \<open>\<^verbatim>\<open>ToEnvelope::pack\<close> of \<^verbatim>\<open>Context\<close> for the two channels.\<close>

definition context_pack_syn :: "'m \<Rightarrow> 'tx option \<Rightarrow> ('m, 'tx) EnvelopeProxy" where
  "context_pack_syn msg tx = envelope_new msg tx"

definition context_pack_unsync :: "'m \<Rightarrow> 'tx option \<Rightarrow> ('m, 'tx) EnvelopeProxy" where
  "context_pack_unsync msg tx = unsync_envelope_new msg tx"

text \<open>A message packed for either channel is handled in the same way.\<close>

lemma code_bind_assoc: "code_bind (code_bind k g) h = code_bind k (\<lambda>r. code_bind (g r) h)"
  by (induction k) auto

lemma envelopes_agree:
  "unsync_envelope_handle env handle (context_pack_unsync msg tx) w = envelope_handle env handle (context_pack_syn msg tx) w"
  by (cases tx) (auto simp: unsync_envelope_handle_def envelope_handle_def context_pack_unsync_def context_pack_syn_def
      unsync_envelope_new_def envelope_new_def code_bind_assoc split_def)

lemma message_envelope_roundtrip:
  "message_envelope_into_inner (message_envelope_from m) = m \<and> sync_message_envelope_into_inner (sync_message_envelope_from m) = m"
  by (simp add: message_envelope_into_inner_def message_envelope_from_def sync_message_envelope_into_inner_def
      sync_message_envelope_from_def)

section \<open>Futures spawned by the context itself\<close>

text \<open>Their constructors; timers are made by the reactor.\<close>

definition message_item_new :: "'m \<Rightarrow> 'm option" where
  "message_item_new msg = Some msg"

definition delayed_item_new :: "'m \<Rightarrow> 't \<Rightarrow> 'm option \<times> 't" where
  "delayed_item_new msg timer = (Some msg, timer)"

definition message_stream_item_new :: "'s \<Rightarrow> 's" where
  "message_stream_item_new st = st"

definition timer_func_new :: "('w \<Rightarrow> ('f, 'e, 'w) code) \<Rightarrow> 't \<Rightarrow> ('w \<Rightarrow> ('f, 'e, 'w) code) option \<times> 't" where
  "timer_func_new f timer = (Some f, timer)"

text \<open>Handle a message without a response channel: \<^verbatim>\<open>fut.handle::<()>(ctx, None)\<close>.\<close>

definition handle_no_reply ::
  "('tx, 'r, 'af, 'pf, 'f, 'w) resp_env \<Rightarrow> ('m \<Rightarrow> 'w \<Rightarrow> ('f, 'e, ('r, 'af, 'pf) response \<times> 'w) code) \<Rightarrow>
     'm \<Rightarrow> 'w \<Rightarrow> ('f, 'e, 'w) code" where
  "handle_no_reply env handle msg w =
     code_bind (handle msg w) (\<lambda>(fut, w1). response_handle env fut None w1)"

text \<open>\<^verbatim>\<open>ActorMessageItem\<close>: \<^verbatim>\<open>msg.take().unwrap()\<close> panics when polled again.\<close>

definition message_item_poll ::
  "('tx, 'r, 'af, 'pf, 'f, 'w) resp_env \<Rightarrow> ('m \<Rightarrow> 'w \<Rightarrow> ('f, 'e, ('r, 'af, 'pf) response \<times> 'w) code) \<Rightarrow>
     'm option \<Rightarrow> 'w \<Rightarrow> ('f, 'e, (unit, unit) Poll \<times> 'm option \<times> 'w) code" where
  "message_item_poll env handle it w =
     (case it of
        None \<Rightarrow> Fault Panicked
      | Some msg \<Rightarrow> code_bind (handle_no_reply env handle msg w) (\<lambda>w1. Return (PReady (), None, w1)))"

text \<open>\<^verbatim>\<open>ActorDelayedMessageItem\<close>; \<open>tp\<close> polls the timer.\<close>

definition delayed_item_poll ::
  "('t \<Rightarrow> 'w \<Rightarrow> (unit, unit) Poll \<times> 't) \<Rightarrow> ('tx, 'r, 'af, 'pf, 'f, 'w) resp_env \<Rightarrow>
     ('m \<Rightarrow> 'w \<Rightarrow> ('f, 'e, ('r, 'af, 'pf) response \<times> 'w) code) \<Rightarrow>
     'm option \<times> 't \<Rightarrow> 'w \<Rightarrow> ('f, 'e, (unit, unit) Poll \<times> ('m option \<times> 't) \<times> 'w) code" where
  "delayed_item_poll tp env handle it w =
     (case tp (snd it) w of
        (Inr NotReady, t) \<Rightarrow> Return (PNotReady, (fst it, t), w)
      | (Inr (Ready _), t) \<Rightarrow>
          (case fst it of
             None \<Rightarrow> Fault Panicked
           | Some msg \<Rightarrow> code_bind (handle_no_reply env handle msg w) (\<lambda>w1. Return (PReady (), (None, t), w1)))
      | (Inl _, _) \<Rightarrow> Fault Panicked)"

text \<open>\<^verbatim>\<open>ActorMessageStreamItem\<close>; \<open>ps\<close> polls the stream, whose errors are skipped.\<close>

fun message_stream_poll ::
  "('s \<Rightarrow> 'w \<Rightarrow> ('m option, unit) Poll \<times> 's \<times> 'w) \<Rightarrow> ('tx, 'r, 'af, 'pf, 'f, 'w) resp_env \<Rightarrow>
     ('m \<Rightarrow> 'w \<Rightarrow> ('f, 'e, ('r, 'af, 'pf) response \<times> 'w) code) \<Rightarrow>
     nat \<Rightarrow> 's \<Rightarrow> 'w \<Rightarrow> ('f, 'e, (unit, unit) Poll \<times> 's \<times> 'w) code" where
  "message_stream_poll ps env handle 0 s w = Fault OutOfFuel"
| "message_stream_poll ps env handle (Suc k) s w =
     (case ps s w of
        (Inr (Ready (Some msg)), s1, w1) \<Rightarrow>
          code_bind (handle_no_reply env handle msg w1) (\<lambda>w2.
            CtxWaiting (\<lambda>waiting.
              if waiting then Return (PNotReady, s1, w2) else message_stream_poll ps env handle k s1 w2))
      | (Inr (Ready None), s1, w1) \<Rightarrow> Return (PReady (), s1, w1)
      | (Inr NotReady, s1, w1) \<Rightarrow> Return (PNotReady, s1, w1)
      | (Inl _, s1, w1) \<Rightarrow> message_stream_poll ps env handle k s1 w1)"

text \<open>\<^verbatim>\<open>StreamHandler\<close> and \<^verbatim>\<open>ActorStream\<close> of \<^verbatim>\<open>src/stream.rs\<close>.\<close>

record ('w, 'f, 'e, 'm, 'er) stream_handler =
  sh_handle :: "'m \<Rightarrow> 'w \<Rightarrow> ('f, 'e, 'w) code"
  sh_started :: "'w \<Rightarrow> ('f, 'e, 'w) code"
  sh_error :: "'er \<Rightarrow> 'w \<Rightarrow> ('f, 'e, Running \<times> 'w) code"
  sh_finished :: "'w \<Rightarrow> ('f, 'e, 'w) code"

text \<open>The default methods of the trait.\<close>

definition default_started :: "'w \<Rightarrow> ('f, 'e, 'w) code" where
  "default_started w = Return w"

definition default_error :: "'er \<Rightarrow> 'w \<Rightarrow> ('f, 'e, Running \<times> 'w) code" where
  "default_error err w = Return (Stop, w)"

definition default_finished :: "'w \<Rightarrow> ('f, 'e, 'w) code" where
  "default_finished w = CtxStop (Return w)"

record 's ActorStream =
  as_stream :: 's
  as_started :: bool

definition actor_stream_new :: "'s \<Rightarrow> 's ActorStream" where
  "actor_stream_new s = \<lparr>as_stream = s, as_started = False\<rparr>"

fun actor_stream_loop ::
  "('s \<Rightarrow> 'w \<Rightarrow> ('m option, 'er) Poll \<times> 's \<times> 'w) \<Rightarrow> ('w, 'f, 'e, 'm, 'er) stream_handler \<Rightarrow>
     nat \<Rightarrow> 's ActorStream \<Rightarrow> 'w \<Rightarrow> ('f, 'e, (unit, unit) Poll \<times> 's ActorStream \<times> 'w) code" where
  "actor_stream_loop ps sh 0 st w = Fault OutOfFuel"
| "actor_stream_loop ps sh (Suc k) st w =
     (case ps (as_stream st) w of
        (r, s1, w1) \<Rightarrow>
          (let st1 = st\<lparr>as_stream := s1\<rparr> in
           case r of
             Inr (Ready (Some msg)) \<Rightarrow>
               code_bind (sh_handle sh msg w1) (\<lambda>w2.
                 CtxWaiting (\<lambda>waiting.
                   if waiting then Return (PNotReady, st1, w2) else actor_stream_loop ps sh k st1 w2))
           | Inl err \<Rightarrow>
               code_bind (sh_error sh err w1) (\<lambda>(running, w2).
                 if running = Stop
                 then code_bind (sh_finished sh w2) (\<lambda>w3. Return (PReady (), st1, w3))
                 else actor_stream_loop ps sh k st1 w2)
           | Inr (Ready None) \<Rightarrow> code_bind (sh_finished sh w1) (\<lambda>w2. Return (PReady (), st1, w2))
           | Inr NotReady \<Rightarrow> Return (PNotReady, st1, w1)))"

definition actor_stream_poll ::
  "('s \<Rightarrow> 'w \<Rightarrow> ('m option, 'er) Poll \<times> 's \<times> 'w) \<Rightarrow> ('w, 'f, 'e, 'm, 'er) stream_handler \<Rightarrow>
     nat \<Rightarrow> 's ActorStream \<Rightarrow> 'w \<Rightarrow> ('f, 'e, (unit, unit) Poll \<times> 's ActorStream \<times> 'w) code" where
  "actor_stream_poll ps sh k st w =
     (if as_started st then actor_stream_loop ps sh k st w
      else code_bind (sh_started sh w) (\<lambda>w1. actor_stream_loop ps sh k (st\<lparr>as_started := True\<rparr>) w1))"

text \<open>\<^verbatim>\<open>TimerFunc\<close>: the closure runs once, when the timer fires.\<close>

definition timer_func_poll ::
  "('t \<Rightarrow> 'w \<Rightarrow> (unit, unit) Poll \<times> 't) \<Rightarrow> ('w \<Rightarrow> ('f, 'e, 'w) code) option \<times> 't \<Rightarrow> 'w \<Rightarrow>
     ('f, 'e, (unit, unit) Poll \<times> (('w \<Rightarrow> ('f, 'e, 'w) code) option \<times> 't) \<times> 'w) code" where
  "timer_func_poll tp it w =
     (case tp (snd it) w of
        (Inr (Ready _), t) \<Rightarrow>
          (case fst it of
             Some f \<Rightarrow> code_bind (f w) (\<lambda>w1. Return (PReady (), (None, t), w1))
           | None \<Rightarrow> Return (PReady (), (None, t), w))
      | (Inr NotReady, t) \<Rightarrow> Return (PNotReady, (fst it, t), w)
      | (Inl _, _) \<Rightarrow> Fault Panicked)"

text \<open>
  A delayed message and a timer do nothing until their timer fires, and then handle the message, or call the closure,
  exactly once; a message sent to oneself is handled in the first poll.
\<close>

lemma timed_items_fire:
  assumes "tp t w = (PReady (), t')" and "tp u w = (PNotReady, u')"
  shows "delayed_item_poll tp env handle (delayed_item_new msg t) w =
      code_bind (message_item_poll env handle (message_item_new msg) w) (\<lambda>(p, it, w1). Return (p, (it, t'), w1))"
    and "delayed_item_poll tp env handle (delayed_item_new msg u) w = Return (PNotReady, delayed_item_new msg u', w)"
    and "timer_func_poll tp (timer_func_new f t) w = code_bind (f w) (\<lambda>w1. Return (PReady (), (None, t'), w1))"
    and "timer_func_poll tp (timer_func_new f u) w = Return (PNotReady, timer_func_new f u', w)"
  using assms by (simp_all add: delayed_item_poll_def delayed_item_new_def message_item_poll_def message_item_new_def
      timer_func_poll_def timer_func_new_def code_bind_assoc)

section \<open>Methods of the context that spawn them\<close>

text \<open>\<^verbatim>\<open>ContextFutureSpawner\<close>.\<close>

definition fut_spawn :: "'f \<Rightarrow> ('f, 'e, unit) code" where
  "fut_spawn self = CtxSpawn self (\<lambda>_. Return ())"

definition fut_wait :: "'f \<Rightarrow> ('f, 'e, unit) code" where
  "fut_wait self = CtxWait self (Return ())"

text \<open>
  \<^verbatim>\<open>notify\<close>, \<^verbatim>\<open>add_message_stream\<close>, \<^verbatim>\<open>notify_later\<close> and \<^verbatim>\<open>add_stream\<close> do nothing for a stopped actor, the last two
  returning the default handle; \<^verbatim>\<open>run_later\<close> spawns in any state.  The argument is the boxed item.
\<close>

definition ctx_notify :: "'f \<Rightarrow> ('f, 'e, unit) code" where
  "ctx_notify item = CtxState (\<lambda>s. if s = Stopped then Return () else CtxSpawn item (\<lambda>_. Return ()))"

definition ctx_add_message_stream :: "'f \<Rightarrow> ('f, 'e, unit) code" where
  "ctx_add_message_stream item = CtxState (\<lambda>s. if s = Stopped then Return () else CtxSpawn item (\<lambda>_. Return ()))"

definition ctx_notify_later :: "'f \<Rightarrow> ('f, 'e, SpawnHandle) code" where
  "ctx_notify_later item = CtxState (\<lambda>s. if s = Stopped then Return handle_default else CtxSpawn item Return)"

definition ctx_add_stream :: "'f \<Rightarrow> ('f, 'e, SpawnHandle) code" where
  "ctx_add_stream item = CtxState (\<lambda>s. if s = Stopped then Return handle_default else CtxSpawn item Return)"

definition ctx_run_later :: "'f \<Rightarrow> ('f, 'e, SpawnHandle) code" where
  "ctx_run_later item = CtxSpawn item Return"

section \<open>Properties\<close>

lemma result_resolves: "resolves result_poll (fut_ok x) (w # ws) r w' \<longleftrightarrow> ws = [] \<and> r = Inr x \<and> w' = w"
  by (auto simp: resolves_Cons fut_ok_def fut_result_def as_poll.simps [symmetric] simp del: as_poll.simps)

text \<open>A response future is delivered: the future spawned for a handler that answers with an actor
  future completes in exactly the polls in which that future completes, and leaves the world in
  which its outcome, success or error, has been sent once on the response channel (if there is
  one).\<close>

theorem response_future_delivered:
  "resolves (respond_poll pf) (respond_new env fut tx) ws r w' \<longleftrightarrow>
     r = Inr () \<and> (\<exists>res w1. resolves pf fut ws res w1 \<and> w' = send_opt env tx res w1)"
proof -
  have "resolves (respond_poll pf) (respond_new env fut tx) ws r w' \<longleftrightarrow>
      (\<exists>ws1 ws2 res w1. ws = ws1 @ ws2 \<and> resolves pf fut ws1 res w1 \<and> ws2 = [] \<and> r = Inr () \<and> w' = send_opt env tx res w1)"
    by (simp add: respond_poll_def respond_new_def then_poll_def chain_new_def chain_resolves chain_outcome_def
        result_resolves)
  then show ?thesis by (metis append_Nil2)
qed

text \<open>A message is handled at most once.  When an envelope whose response channel has been cancelled is
  handled, the handler does not run and nothing changes but the channel being dropped; otherwise
  the envelope is empty afterwards, and handling it again does nothing.\<close>

theorem envelope_handled_at_most_once:
  assumes "run_code dbg (envelope_handle env handle ep w) c = Inr ((ep', w'), c')"
  shows "if ep_tx ep \<noteq> None \<and> o_canceled env (the (ep_tx ep)) w
    then ep' = ep\<lparr>ep_tx := None\<rparr> \<and> w' = w \<and> c' = c
    else ep_msg ep' = None \<and> ep_tx ep' = None \<and>
      run_code dbg (envelope_handle env handle ep' w2) c2 = Inr ((ep', w2), c2)"
proof (cases "ep_tx ep \<noteq> None \<and> o_canceled env (the (ep_tx ep)) w")
  case True
  then show ?thesis using assms by (simp add: envelope_handle_def)
next
  case False
  then have "ep' = ep\<lparr>ep_tx := None, ep_msg := None\<rparr>"
    using assms by (cases "ep_msg ep")
      (auto simp: envelope_handle_def Let_def run_code_bind bind_exec_eq_Inr split_def)
  then show ?thesis using False by (auto simp: envelope_handle_def)
qed

definition test_env :: "(nat, nat, unit, unit, unit, nat list) resp_env" where
  "test_env = \<lparr>o_send = (\<lambda>t r w. w @ [r]), o_canceled = (\<lambda>t w. False), o_box = (\<lambda>_ _. ()),
     o_reactor_spawn = (\<lambda>_ _ w. w)\<rparr>"

theorem envelope_handled_at_most_once_witness:
  "\<exists>ep' w' c'. run_code True (envelope_handle test_env (\<lambda>m w. Return (Reply (m + 1), w)) (envelope_new 4 (Some 0)) [])
       (ctx_new (Some ()) :: (unit, unit, nat) ContextImpl) = Inr ((ep', w'), c') \<and> w' = [5] \<and> ep_msg ep' = None"
proof -
  let ?ep = "envelope_new 4 (Some 0) :: (nat, nat) EnvelopeProxy"
  have r: "run_code True (envelope_handle test_env (\<lambda>m w. Return (Reply (m + 1), w)) ?ep [])
      (ctx_new (Some ()) :: (unit, unit, nat) ContextImpl) = Inr ((?ep\<lparr>ep_tx := None, ep_msg := None\<rparr>, [5]), ctx_new (Some ()))"
    by (simp add: envelope_handle_def envelope_new_def test_env_def send_opt_def reply_handle_def)
  show ?thesis using envelope_handled_at_most_once [OF r] r by (auto simp: envelope_new_def)
qed

section \<open>Actor streams\<close>

text \<open>
  A stream given by the list of its outcomes, all ready, and a handler that makes no calls on the
  context, except that \<^verbatim>\<open>finished\<close> is arbitrary.
\<close>

fun list_stream :: "('er + 'm) list \<Rightarrow> 'w \<Rightarrow> ('m option, 'er) Poll \<times> ('er + 'm) list \<times> 'w" where
  "list_stream [] w = (PReady None, [], w)"
| "list_stream (Inr m # xs) w = (PReady (Some m), xs, w)"
| "list_stream (Inl e # xs) w = (PErr e, xs, w)"

text \<open>What the handler should see: items in order, errors offered to \<^verbatim>\<open>error\<close> until it says stop.\<close>

fun drained :: "('m \<Rightarrow> 'w \<Rightarrow> 'w) \<Rightarrow> ('er \<Rightarrow> 'w \<Rightarrow> Running \<times> 'w) \<Rightarrow> ('er + 'm) list \<Rightarrow> 'w \<Rightarrow> 'w" where
  "drained h err [] w = w"
| "drained h err (Inr m # xs) w = drained h err xs (h m w)"
| "drained h err (Inl e # xs) w = (case err e w of (Stop, w') \<Rightarrow> w' | (Continue, w') \<Rightarrow> drained h err xs w')"

lemma actor_stream_loop_drains:
  assumes "\<And>m w. sh_handle sh m w = Return (h m w)" and "\<And>e w. sh_error sh e w = Return (err e w)"
    and "\<not> ctx_waiting c"
  shows "length (as_stream st) < k \<Longrightarrow>
    \<exists>st'. run_code dbg (actor_stream_loop list_stream sh k st w) c =
      run_code dbg (code_bind (sh_finished sh (drained h err (as_stream st) w)) (\<lambda>w2. Return (PReady (), st', w2))) c"
proof (induction k arbitrary: st w)
  case (Suc k)
  show ?case
  proof (cases "as_stream st")
    case Nil
    then show ?thesis by (auto simp: run_code_bind)
  next
    case (Cons x xs)
    let ?st = "st\<lparr>as_stream := xs\<rparr>"
    have IH: "\<exists>st'. run_code dbg (actor_stream_loop list_stream sh k ?st w1) c =
        run_code dbg (code_bind (sh_finished sh (drained h err xs w1)) (\<lambda>w2. Return (PReady (), st', w2))) c" for w1
      using Suc.IH [of ?st w1] Suc.prems Cons by simp
    show ?thesis
    proof (cases x)
      case (Inr m)
      then show ?thesis using Cons IH [of "h m w"] assms by (simp add: Let_def)
    next
      case (Inl e)
      obtain run w1 where e: "err e w = (run, w1)" by force
      then show ?thesis using Cons Inl IH [of w1] assms by (cases run) (auto simp: Let_def)
    qed
  qed
qed simp



end
