(* ===== verification/Context_Properties.thy ===== *)
theory Context_Properties
  imports Context_Lifecycle
begin

text \<open>
  The properties of the execution context: unique spawn handles, what a pending wait future and a
  request to stop do, the complete behaviour of a poll for actors whose user code leaves the
  context alone, and the situations in which the loops over futures go wrong.
\<close>

unbundle bit_operations_syntax

section \<open>Properties of the context\<close>

text \<open>
  Actors whose user code makes no calls on the context: their behaviour is given by plain functions.
\<close>

definition quiet_actor ::
  "bool \<Rightarrow> ('e \<Rightarrow> 'w \<Rightarrow> 'w) \<Rightarrow> ('w \<Rightarrow> Running) \<Rightarrow> ('f \<Rightarrow> 'w \<Rightarrow> (unit, unit) Poll \<times> 'w) \<Rightarrow>
     ('w, 'f, 'e) actor_impl" where
  "quiet_actor dbg h s p =
     \<lparr>debug_assertions = dbg, a_started = (\<lambda>w. Return w), a_stopping = (\<lambda>w. Return (s w, w)),
      a_stopped = (\<lambda>w. Return w), a_restarting = (\<lambda>w. Return w), a_handle = (\<lambda>e w. Return (h e w)),
      a_poll = (\<lambda>f w. Return (p f w))\<rparr>"

text \<open>An actor that overrides no callback and whose handlers leave the context alone is one.\<close>

lemma default_actor_quiet:
  "\<lparr>debug_assertions = dbg, a_started = actor_default_started, a_stopping = actor_default_stopping, a_stopped = actor_default_stopped,
    a_restarting = supervised_default_restarting, a_handle = (\<lambda>e w. Return (h e w)), a_poll = (\<lambda>f w. Return (p f w))\<rparr> =
   quiet_actor dbg h (\<lambda>_. Stop) p"
  by (simp add: quiet_actor_def fun_eq_iff actor_default_started_def actor_default_stopping_def actor_default_stopped_def
      supervised_default_restarting_def)

lemma quiet_actor_sel [simp]:
  "debug_assertions (quiet_actor dbg h s p) = dbg" "a_started (quiet_actor dbg h s p) w = Return w"
  "a_stopping (quiet_actor dbg h s p) w = Return (s w, w)" "a_stopped (quiet_actor dbg h s p) w = Return w"
  "a_restarting (quiet_actor dbg h s p) w = Return w" "a_handle (quiet_actor dbg h s p) e w = Return (h e w)"
  "a_poll (quiet_actor dbg h s p) f w = Return (p f w)"
  by (simp_all add: quiet_actor_def)

lemma call_act_Return [simp]:
  "c_act c = Some w \<Longrightarrow> cb w = Return (r, w') \<Longrightarrow> call_act dbg cb c = Inr (r, put_act w' c)"
  by (simp add: call_act_def)

lemma call_act_unit_Return [simp]:
  "c_act c = Some w \<Longrightarrow> cb w = Return w' \<Longrightarrow> call_act_unit dbg cb c = Inr (put_act w' c)"
  by (simp add: call_act_unit_def)

lemma find_handle_None: "find_handle h its = None \<Longrightarrow> h \<notin> fst ` set its"
  by (induction its) (auto split: if_splits)

lemma find_handle_Some: "find_handle h its = Some i \<Longrightarrow> i < length its \<and> fst (its ! i) = h"
  by (induction its arbitrary: i) (auto split: if_splits)

lemma handle_filter:
  assumes "distinct (map fst its)" and "mset its = add_mset it (mset its')" and "fst it = h"
  shows "mset its' = filter_mset (\<lambda>it. fst it \<noteq> h) (mset its)"
proof -
  have "mset (map fst its) = mset (h # map fst its')" using assms(2,3) by simp
  then have "distinct (h # map fst its')" using assms(1) mset_eq_imp_distinct_iff by blast
  then have "filter_mset (\<lambda>it. fst it \<noteq> h) (mset its') = mset its'"
    by (auto simp: filter_mset_eq_conv image_iff)
  then show ?thesis using assms(2,3) by simp
qed

text \<open>C11: Spawn handles are unique.  In a build with debug assertions, starting from a context whose
  futures have pairwise different handles none of which is ahead of the counter, a whole poll of
  any actor leaves such a context; and cancelling a handle then removes exactly the future with
  that handle, reports whether there was one, and keeps every other.\<close>

theorem cancel_future_exact:
  assumes "handles_wf c" and "debug_assertions ai" and "ctx_poll ai cur fuel c = Inr (p, c1)"
  shows "handles_wf c1 \<and> (\<exists>c2. ctx_cancel_future h c1 = Inr (h \<in> fst ` set (c_items c1), c2) \<and>
    mset (c_items c2) = filter_mset (\<lambda>it. fst it \<noteq> h) (mset (c_items c1)))"
proof -
  have "ai\<lparr>debug_assertions := True\<rparr> = ai" using assms(2) by simp
  then have wf: "handles_wf c1" using hw.inv_poll [OF assms(1), of ai cur fuel p c1] assms(3) by simp
  have "\<exists>c2. ctx_cancel_future h c1 = Inr (h \<in> fst ` set (c_items c1), c2) \<and>
    mset (c_items c2) = filter_mset (\<lambda>it. fst it \<noteq> h) (mset (c_items c1))"
  proof (cases "find_handle h (c_items c1)")
    case None
    have "filter_mset (\<lambda>it. fst it \<noteq> h) (mset (c_items c1)) = mset (c_items c1)"
      using find_handle_None [OF None] by (force simp: filter_mset_eq_conv)
    then show ?thesis
      using find_handle_None [OF None] None by (auto simp: ctx_cancel_future_def)
  next
    case (Some i)
    note f = find_handle_Some [OF Some]
    obtain its where its: "swap_remove i (c_items c1) = Inr its" using f by (auto simp: swap_remove_def)
    have "mset its = filter_mset (\<lambda>it. fst it \<noteq> h) (mset (c_items c1))"
      by (rule handle_filter [OF _ swap_remove_mset [OF its]]) (use wf f in \<open>auto simp: handles_wf_def\<close>)
    then show ?thesis
      using Some its f by (auto simp: ctx_cancel_future_def ctx_modify_def image_iff intro: bexI [of _ "c_items c1 ! i"])
  qed
  then show ?thesis using wf by blast
qed

text \<open>While a wait future is pending the actor does nothing else: if the future registered last is
  not ready and the actor is still alive after polling it, the poll of the context returns
  \<^verbatim>\<open>NotReady\<close> right after it, without handling a message or polling another future.\<close>

theorem wait_future_blocks:
  assumes "ctx_started c" and "c_wait c = ws @ [f]" and "\<not> ctx_stopping c" and "c_act c = Some w"
    and "wait_item_poll ai f (c\<lparr>c_flags := flag_remove (c_flags c) MODIFIED\<rparr>) = Inr (NotReady, c1)"
  shows "ctx_poll ai cur (Suc fuel) c = Inr (PNotReady, c1) \<and> c_log c1 = c_log c @ [EvWaitPoll f]"
proof -
  have "\<not> ctx_stopping (c\<lparr>c_flags := flag_remove (c_flags c) MODIFIED\<rparr>)"
    using assms(3) by (simp add: ctx_stopping_def flag_simps)
  moreover have "c_log c1 = c_log c @ [EvWaitPoll f]"
    using assms(5) by (auto simp: wait_item_poll_eq bind_exec_eq_Inr put_log_def dest!: call_act_log)
  ultimately show ?thesis using assms by (simp add: ctx_poll_def ctx_started_def)
qed

text \<open>A wait future that registers another wait future and completes in the same poll makes the
  context drop the new future, which is never polled, and poll the completed one again: the loop
  pops whatever is last after the poll.\<close>

theorem wait_future_lost:
  assumes "c_wait c = ws @ [f]" and "\<not> ctx_stopping c" and "c_act c = Some w"
    and "a_poll ai f w = CtxWait g (Return (PReady (), w'))"
  shows "\<exists>c1. wait_loop ai (Suc k) c = wait_loop ai k c1 \<and> c_wait c1 = ws @ [f] \<and>
    c_log c1 = c_log c @ [EvWaitPoll f] \<and> c_act c1 = Some w'"
  using assms
  by (simp add: wait_item_poll_eq call_act_def put_log_def put_act_def ctx_wait_def ctx_modify_def butlast_append)
    (rule exI, intro conjI, rule refl, simp_all)

text \<open>A spawned future that is last in the poll order, cancels another future of its actor and
  completes in the same poll makes the context panic: its own index is out of range after the
  cancelled entry was replaced by the last one.\<close>

theorem cancel_in_last_item_panics:
  assumes "c_items c = its @ [(h, f)]" and "h' \<in> fst ` set its" and "\<not> ctx_stopping c" and "c_act c = Some w"
    and "a_poll ai f w = CtxCancel h' (\<lambda>_. Return (PReady (), w'))"
  shows "items_loop ai (Suc k) (length its) c = Inl Panicked"
proof -
  obtain i where i: "find_handle h' (its @ [(h, f)]) = Some i"
    using find_handle_None [of h' "its @ [(h, f)]"] assms(2) by fastforce
  then have "i < length (its @ [(h, f)])" using find_handle_Some [OF i] by blast
  then obtain its' where its': "swap_remove i (its @ [(h, f)]) = Inr its'" "length its' = length its"
    using swap_remove_length [of i "its @ [(h, f)]"] swap_remove_Inr_iff [of i "its @ [(h, f)]"] by fastforce
  then have "swap_remove (length its) its' = Inl Panicked" by (simp add: swap_remove_def)
  then show ?thesis
    using assms i its'
    by (simp add: item_poll_def call_act_def put_log_def put_act_def ctx_cancel_future_def ctx_modify_def)
qed

text \<open>An actor that calls \<^verbatim>\<open>terminate\<close> in \<^verbatim>\<open>stopping\<close> and answers \<^verbatim>\<open>Continue\<close> is left in limbo:
  the poll returns \<^verbatim>\<open>NotReady\<close> although the context is \<^verbatim>\<open>Stopped\<close>, \<^verbatim>\<open>stopped\<close> is not called, and
  the context counts as never started.\<close>

theorem terminate_in_stopping_limbo:
  assumes "bit (c_flags c) 1" and "\<not> bit (c_flags c) 5" and "\<not> ctx_alive c" and "c_act c = Some w"
    and "a_stopping ai w = CtxTerminate (Return (Continue, w'))"
  shows "\<exists>c1. check_state ai c = Inr (Some PNotReady, c1) \<and> ctx_state c1 = Stopped \<and>
    c_log c1 = c_log c @ [EvStopping Continue] \<and> \<not> ctx_started c1"
  using assms
  by (auto simp: check_state_def ask_stopping_def call_act_def ctx_terminate_def put_act_def put_log_def
      ctx_state_def ctx_started_def flag_simps)

definition asks_or_stops :: "('f, 'e) event \<Rightarrow> bool" where
  "asks_or_stops ev \<longleftrightarrow> ev = EvStopped \<or> ev = EvStopping Stop \<or> ev = EvStopping Continue"

lemma check_state_stopping:
  assumes "check_state ai c = Inr (r, c')" and "ctx_stopping c" and "\<not> bit (c_flags c) 5"
  shows "\<exists>ev evs. c_log c' = c_log c @ ev # evs \<and> asks_or_stops ev"
proof -
  have stop: "bit (c_flags c) 2 \<or> bit (c_flags c) 4" "\<not> ctx_alive c"
    using assms(2) by (auto simp: ctx_stopping_def ctx_alive_def flag_simps)
  note cs = assms(1) [unfolded check_state_def flag_contains_bit]
  show ?thesis
  proof (cases "bit (c_flags c) 1 \<or> bit (c_flags c) 2")
    case True
    then obtain r1 c1 where ask: "ask_stopping ai c = Inr (r1, c1)"
      using cs stop assms(3) by (auto simp: bind_exec_eq_Inr split: if_splits)
    have l1: "c_log c1 = c_log c @ [EvStopping r1]" "asks_or_stops (EvStopping r1)"
      using ask_stopping_log [OF ask] by (auto simp: asks_or_stops_def intro: Running.exhaust)
    have "\<exists>evs. c_log c' = c_log c1 @ evs"
    proof (cases r1)
      case Stop
      then have "finish_stop ai (c1\<lparr>c_flags := STOPPED\<rparr>) = Inr (r, c')"
        using cs stop assms(3) True ask by (auto split: if_splits)
      then show ?thesis using finish_stop_spec by (fastforce simp: flag_simps)
    next
      case Continue
      then show ?thesis using cs stop assms(3) True ask by (auto split: if_splits)
    qed
    then show ?thesis using l1 by auto
  next
    case False
    then have "finish_stop ai c = Inr (r, c')" using cs stop assms(3) by auto
    then show ?thesis using finish_stop_spec [of ai c r c'] False stop by (auto simp: asks_or_stops_def)
  qed
qed

lemma poll_turns_stopping:
  assumes "ctx_stopping c"
  shows "poll_turns ai cur (Suc i) (Suc k) c =
    bind_exec (check_state ai (c\<lparr>c_flags := flag_remove (c_flags c) MODIFIED, c_curr_handle := handle_default\<rparr>)) (\<lambda>(r, c4).
      case r of Some p \<Rightarrow> Inr (p, c4) | None \<Rightarrow> poll_turns ai cur (Suc i) k c4)"
proof -
  have "ctx_stopping (c\<lparr>c_flags := flag_remove (c_flags c) MODIFIED\<rparr>)"
    "ctx_waiting (c\<lparr>c_flags := flag_remove (c_flags c) MODIFIED\<rparr>)"
    using assms by (auto simp: ctx_stopping_def ctx_waiting_def flag_simps)
  then show ?thesis by (simp add: ctx_mailbox_poll_def mailbox_poll_waiting)
qed


section \<open>A complete poll of a quiet actor\<close>

text \<open>
  The state of a quiet actor is the replay of what happened to it: of the messages handled and the futures
  polled, in their order.
\<close>

fun replay :: "('e \<Rightarrow> 'w \<Rightarrow> 'w) \<Rightarrow> ('f \<Rightarrow> 'w \<Rightarrow> (unit, unit) Poll \<times> 'w) \<Rightarrow> ('f, 'e) event \<Rightarrow> 'w \<Rightarrow> 'w" where
  "replay h p (EvMessage e _) w = h e w"
| "replay h p (EvWaitPoll f) w = snd (p f w)"
| "replay h p (EvItemPoll _ f) w = snd (p f w)"
| "replay h p _ w = w"

definition replayed ::
  "('e \<Rightarrow> 'w \<Rightarrow> 'w) \<Rightarrow> ('f \<Rightarrow> 'w \<Rightarrow> (unit, unit) Poll \<times> 'w) \<Rightarrow> ('w, 'f, 'e) ContextImpl \<Rightarrow> ('w, 'f, 'e) ContextImpl \<Rightarrow> bool" where
  "replayed h p c c' \<longleftrightarrow>
     (\<exists>evs. c_log c' = c_log c @ evs \<and> c_act c' = map_option (fold (replay h p) evs) (c_act c))"

lemma replayed_refl [simp]: "c_log c' = c_log c \<Longrightarrow> c_act c' = c_act c \<Longrightarrow> replayed h p c c'"
  unfolding replayed_def by (intro exI [of _ "[]"]) (simp add: option.map_id)

lemma replayed_trans: "replayed h p c c1 \<Longrightarrow> replayed h p c1 c2 \<Longrightarrow> replayed h p c c2"
  unfolding replayed_def by (auto simp: option.map_comp fold_append o_def)

lemma replayed_step:
  "c_act c = Some w \<Longrightarrow> c_log c' = c_log c @ [ev] \<Longrightarrow> c_act c' = Some (replay h p ev w) \<Longrightarrow> replayed h p c c'"
  unfolding replayed_def by (intro exI [of _ "[ev]"]) simp

lemma replayed_cong: "c_log c2 = c_log c1 \<Longrightarrow> c_act c2 = c_act c1 \<Longrightarrow> replayed h p c c2 = replayed h p c c1"
  by (simp add: replayed_def)

type_synonym ('w, 'f, 'e) frame =
  "u8 \<times> 'f list \<times> (SpawnHandle \<times> 'f) list \<times> SpawnHandle \<times> SpawnHandle"

text \<open>The parts of a context that message handling by a quiet actor does not touch.\<close>

definition frame_ok :: "('w, 'f, 'e) frame \<Rightarrow> ('w, 'f, 'e) ContextImpl \<Rightarrow> bool" where
  "frame_ok fr c \<longleftrightarrow> c_act c \<noteq> None \<and> (c_flags c, c_wait c, c_items c, c_handle c, c_curr_handle c) = fr"

interpretation ctx_host: mailbox_host ctx_waiting c_mailbox put_mailbox "ctx_handle_message ai" c_log
  "\<lambda>e. EvMessage e False" "frame_ok fr" for ai fr
  by unfold_locales (auto simp: put_mailbox_def ctx_waiting_def frame_ok_def)

lemma quiet_handles:
  assumes "frame_ok fr c" and "replayed h p c0 c" and "\<not> ctx_waiting c"
  shows "\<exists>c'. ctx_handle_message (quiet_actor dbg h s p) e c = Inr c' \<and> c_mailbox c' = c_mailbox c \<and> frame_ok fr c' \<and>
    replayed h p c0 c' \<and> \<not> ctx_waiting c' \<and> c_log c' = c_log c @ [EvMessage e False]"
proof -
  obtain w where w: "c_act c = Some w" using assms(1) by (auto simp: frame_ok_def)
  let ?c1 = "put_act (h e w) (put_log (EvMessage e False) c)"
  have "replayed h p c ?c1" using w by (intro replayed_step [of _ w _ "EvMessage e False"]) (simp_all add: put_act_def put_log_def)
  with replayed_trans [OF assms(2)] have "replayed h p c0 ?c1" .
  then show ?thesis using assms(1,3) w
    by (intro exI [of _ ?c1]) (auto simp: ctx_handle_message_def put_log_def put_act_def frame_ok_def ctx_waiting_def)
qed

interpretation qh: quiet_host ctx_waiting c_mailbox put_mailbox "ctx_handle_message (quiet_actor dbg h s p)" c_log
  "\<lambda>e. EvMessage e False" "\<lambda>c. frame_ok fr c \<and> replayed h p c0 c" for dbg h s p fr c0
proof unfold_locales
  fix e and c :: "('a, 'b, 'c) ContextImpl"
  show "\<exists>c'. ctx_handle_message (quiet_actor dbg h s p) e c = Inr c' \<and> c_mailbox c' = c_mailbox c \<and>
      (frame_ok fr c' \<and> replayed h p c0 c') \<and> \<not> ctx_waiting c' \<and> c_log c' = c_log c @ [EvMessage e False]"
    if "frame_ok fr c \<and> replayed h p c0 c" and "\<not> ctx_waiting c"
    using quiet_handles [of fr c h p c0 dbg s e] that by blast
qed (simp_all add: put_mailbox_def ctx_waiting_def frame_ok_def replayed_def)

lemma swap_remove_take:
  assumes "swap_remove i xs = Inr ys"
  shows "take i ys = take i xs"
proof -
  have "i < length xs" "ys = butlast (xs[i := last xs])"
    using assms by (auto simp: swap_remove_def split: if_splits)
  then show ?thesis by (simp add: take_butlast take_update_swap list_update_beyond)
qed

lemma swap_remove_drop_mset:
  assumes "swap_remove i xs = Inr ys"
  shows "mset (drop i xs) = add_mset (xs ! i) (mset (drop i ys))"
proof -
  have "mset (take i xs) + mset (drop i xs) = mset xs" "mset (take i ys) + mset (drop i ys) = mset ys"
    by (simp_all flip: mset_append)
  then show ?thesis using swap_remove_mset [OF assms] swap_remove_take [OF assms]
    by (metis add_left_cancel union_mset_add_mset_right)
qed

text \<open>
  One pass over the items polls each of them exactly once, whatever the outcomes, and leaves a part
  of them.
\<close>

definition items_polled ::
  "('e \<Rightarrow> 'w \<Rightarrow> 'w) \<Rightarrow> ('f \<Rightarrow> 'w \<Rightarrow> (unit, unit) Poll \<times> 'w) \<Rightarrow> nat \<Rightarrow> ('w, 'f, 'e) ContextImpl \<Rightarrow> (SpawnHandle \<times> 'f) list \<Rightarrow>
     ('w, 'f, 'e) ContextImpl \<Rightarrow> bool" where
  "items_polled h p idx c its c' \<longleftrightarrow>
     c_log c' = c_log c @ map (\<lambda>(h, f). EvItemPoll h f) its \<and> mset its = mset (drop idx (c_items c)) \<and>
     mset (c_items c') \<subseteq># mset (c_items c) \<and> replayed h p c c' \<and> c_act c' \<noteq> None \<and> c_flags c' = c_flags c \<and>
     c_wait c' = [] \<and> c_mailbox c' = c_mailbox c"

lemma quiet_item_poll:
  assumes "c_act c \<noteq> None" and "c_items c ! idx = (sh, f)"
  shows "\<exists>r c1. item_poll (quiet_actor dbg h s p) idx c = Inr (r, c1) \<and> c_log c1 = c_log c @ [EvItemPoll sh f] \<and>
    c_items c1 = c_items c \<and> c_wait c1 = c_wait c \<and> c_act c1 \<noteq> None \<and> c_flags c1 = c_flags c \<and> c_mailbox c1 = c_mailbox c \<and>
    replayed h p c c1"
proof -
  obtain w where w: "c_act c = Some w" using assms(1) by auto
  obtain r w' where r: "p f w = (r, w')" by force
  let ?c1 = "put_act w' (put_log (EvItemPoll sh f) (c\<lparr>c_curr_handle := sh\<rparr>))"
  have "replayed h p c ?c1" using w r by (intro replayed_step [of _ w _ "EvItemPoll sh f"]) (simp_all add: put_act_def put_log_def)
  moreover have "item_poll (quiet_actor dbg h s p) idx c = Inr (r, ?c1)" using w assms(2) r by (simp add: item_poll_def put_log_def)
  ultimately show ?thesis by (intro exI [of _ r] exI [of _ ?c1]) (simp add: put_act_def put_log_def)
qed

lemma items_polled_step:
  assumes "items_polled h p j c2 its c'" and "c_log c2 = c_log c @ [EvItemPoll sh f]" and "replayed h p c c2"
    and "add_mset (sh, f) (mset (drop j (c_items c2))) = mset (drop idx (c_items c))" and "mset (c_items c2) \<subseteq># mset (c_items c)"
    and "c_flags c2 = c_flags c" and "c_mailbox c2 = c_mailbox c"
  shows "items_polled h p idx c ((sh, f) # its) c'"
  using assms replayed_trans [OF assms(3), of c'] by (auto simp: items_polled_def intro: subset_mset.order_trans)

lemma quiet_items_loop:
  "\<lbrakk>c_act c \<noteq> None; \<not> ctx_stopping c; c_wait c = []; idx \<le> length (c_items c); length (c_items c) - idx < fuel\<rbrakk> \<Longrightarrow>
   \<exists>c' its. items_loop (quiet_actor dbg h s p) fuel idx c = Inr (False, c') \<and> items_polled h p idx c its c'"
proof (induction fuel arbitrary: idx c)
  case (Suc k)
  show ?case
  proof (cases "idx < length (c_items c)")
    case True
    obtain sh f where it: "c_items c ! idx = (sh, f)" by force
    from quiet_item_poll [OF Suc.prems(1) it, of dbg h s p] obtain r c1 where
      ip: "item_poll (quiet_actor dbg h s p) idx c = Inr (r, c1)" and
      c1: "c_log c1 = c_log c @ [EvItemPoll sh f]" "c_items c1 = c_items c" "c_wait c1 = []" "c_act c1 \<noteq> None"
        "c_flags c1 = c_flags c" "c_mailbox c1 = c_mailbox c" "replayed h p c c1"
      using Suc.prems(3) by auto
    have ns: "\<not> ctx_stopping c1" using Suc.prems(2) c1 by (simp add: ctx_stopping_def)
    show ?thesis
    proof (cases "r = PNotReady")
      case N: True
      obtain c' its where l: "items_loop (quiet_actor dbg h s p) k (Suc idx) c1 = Inr (False, c')" "items_polled h p (Suc idx) c1 its c'"
        using Suc.IH [OF c1(4) ns c1(3), of "Suc idx"] c1(2) True Suc.prems(5) by fastforce
      have "add_mset (sh, f) (mset (drop (Suc idx) (c_items c1))) = mset (drop idx (c_items c))"
        using True it c1(2) by (simp add: Cons_nth_drop_Suc [symmetric])
      with items_polled_step [OF l(2) c1(1,7)] c1 have "items_polled h p idx c ((sh, f) # its) c'" by simp
      then show ?thesis using True Suc.prems ip N c1 l(1) by auto
    next
      case False
      obtain its' where sr: "swap_remove idx (c_items c) = Inr its'" using True by (simp add: swap_remove_def)
      let ?c2 = "c1\<lparr>c_items := its'\<rparr>"
      have n: "idx \<le> length (c_items ?c2)" "length (c_items ?c2) - idx < k" using True Suc.prems(5) swap_remove_length [OF sr] by auto
      obtain c' its where l: "items_loop (quiet_actor dbg h s p) k idx ?c2 = Inr (False, c')" "items_polled h p idx ?c2 its c'"
        using Suc.IH [OF _ _ _ n] c1 ns by (auto simp: ctx_stopping_def)
      have "replayed h p c ?c2" using c1(7) by (simp add: replayed_def)
      from items_polled_step [OF l(2) _ this, of sh f idx] have "items_polled h p idx c ((sh, f) # its) c'"
        using swap_remove_mset [OF sr] swap_remove_drop_mset [OF sr] it c1 by simp
      moreover have "items_loop (quiet_actor dbg h s p) (Suc k) idx c = Inr (False, c')"
        using True Suc.prems ip False c1 sr l(1) by (cases r) (auto split: Async.splits)
      ultimately show ?thesis by blast
    qed
  next
    case False
    then show ?thesis using Suc.prems by (intro exI [of _ c] exI [of _ "[]"]) (simp add: items_polled_def)
  qed
qed simp

lemma quiet_check_state:
  assumes "c_act c \<noteq> None" and "bit (c_flags c) 1" and "\<not> bit (c_flags c) 2" and "\<not> bit (c_flags c) 5"
  shows "\<exists>p' c' fin. check_state (quiet_actor dbg h s p) c = Inr (Some p', c') \<and> c_log c' = c_log c @ fin \<and>
    (ctx_alive c \<longrightarrow> p' = PNotReady \<and> fin = []) \<and>
    (\<not> ctx_alive c \<longrightarrow> p' = PReady () \<and> fin = [EvStopping Stop, EvStopped] \<or>
       p' = PNotReady \<and> fin = [EvStopping Continue]) \<and>
    c_mailbox c' = c_mailbox c \<and> c_items c' = c_items c \<and> replayed h p c c'"
proof (cases "ctx_alive c")
  case True
  then show ?thesis using assms by (simp add: check_state_def flag_simps)
next
  case False
  obtain w where w: "c_act c = Some w" using assms(1) by auto
  let ?c1 = "put_log (EvStopping (s w)) (put_act w c)"
  have ask: "ask_stopping (quiet_actor dbg h s p) c = Inr (s w, ?c1)"
    using w by (simp add: ask_stopping_def)
  show ?thesis
  proof (cases "s w")
    case Stop
    have "finish_stop (quiet_actor dbg h s p) (?c1\<lparr>c_flags := STOPPED\<rparr>) =
        Inr (Some (PReady ()), put_act w (put_log EvStopped (?c1\<lparr>c_flags := STOPPED\<rparr>)))"
      by (simp add: finish_stop_def put_log_def put_act_def call_act_unit_def)
    then show ?thesis using False Stop ask assms w
      by (simp add: check_state_def flag_simps) (simp add: put_log_def put_act_def replayed_def)
  next
    case Continue
    then show ?thesis using False ask assms w
      by (simp add: check_state_def flag_simps) (simp add: put_log_def put_act_def replayed_def)
  qed
qed

text \<open>The messages of both receivers, on the context at the head of a turn.\<close>

lemma quiet_mailbox_poll:
  assumes "c_act c \<noteq> None" and "\<not> ctx_waiting c"
    and "u_rep (unsync_msgs (c_mailbox c)) us" and "sync_holds (c_mailbox c) ms"
    and "length us < fuel" and "length ms < fuel" and "2 \<le> fuel" and "dbg \<longrightarrow> length us + length ms < MAX_SYNC_POLLS"
  shows "\<exists>c'. ctx_mailbox_poll (quiet_actor dbg h s p) cur fuel c = Inr c' \<and> \<not> ctx_waiting c' \<and> c_act c' \<noteq> None \<and>
    c_log c' = c_log c @ map (\<lambda>e. EvMessage e False) (us @ ms) \<and> replayed h p c c' \<and>
    c_flags c' = c_flags c \<and> c_wait c' = c_wait c \<and> c_items c' = c_items c \<and>
    u_rep (unsync_msgs (c_mailbox c')) [] \<and> sync_holds (c_mailbox c') [] \<and> mailbox_reach (c_mailbox c') = mailbox_reach (c_mailbox c)"
proof -
  let ?fr = "(c_flags c, c_wait c, c_items c, c_handle c, c_curr_handle c)"
  have ok: "frame_ok ?fr c \<and> replayed h p c c" using assms(1) by (simp add: frame_ok_def)
  have "mailbox_reach (c_mailbox c') = mailbox_reach (c_mailbox c)" if "ctx_mailbox_poll (quiet_actor dbg h s p) cur fuel c = Inr c'" for c'
    using that unfolding ctx_mailbox_poll_def
    by (rule mailbox_poll_reach [rotated 3])
      (auto simp: put_mailbox_def ctx_waiting_def ctx_handle_message_def call_act_unit_def put_act_def put_log_def split: option.splits if_splits)
  with qh.poll_drains [OF ok assms(3,4,2,5-8), of cur dbg s] show ?thesis
    by (auto simp: ctx_mailbox_poll_def frame_ok_def)
qed

lemma quiet_poll:
  assumes c: "c_act c \<noteq> None" "ctx_started c" "bit (c_flags c) 1" "\<not> ctx_waiting c"
    and msgs: "u_rep (unsync_msgs (c_mailbox c)) us" "sync_holds (c_mailbox c) ms"
    and fuel: "length us < fuel" "length ms < fuel" "length (c_items c) < fuel" "2 \<le> fuel"
    and dbg: "dbg \<longrightarrow> length us + length ms < MAX_SYNC_POLLS"
  shows "\<exists>r c' its fin. ctx_poll (quiet_actor dbg h s p) cur fuel c = Inr (r, c') \<and>
    c_log c' = c_log c @ map (\<lambda>e. EvMessage e False) (us @ ms) @ map (\<lambda>(h, f). EvItemPoll h f) its @ fin \<and>
    mset its = mset (c_items c) \<and> mset (c_items c') \<subseteq># mset (c_items c) \<and> replayed h p c c' \<and>
    u_rep (unsync_msgs (c_mailbox c')) [] \<and> sync_holds (c_mailbox c') [] \<and>
    (mailbox_connected (c_mailbox c) \<or> c_items c' \<noteq> [] \<longrightarrow> r = PNotReady \<and> fin = []) \<and>
    (\<not> mailbox_connected (c_mailbox c) \<and> c_items c' = [] \<longrightarrow>
       r = PReady () \<and> fin = [EvStopping Stop, EvStopped] \<or> r = PNotReady \<and> fin = [EvStopping Continue])"
proof -
  let ?ai = "quiet_actor dbg h s p" and ?c0 = "c\<lparr>c_flags := flag_remove (c_flags c) MODIFIED\<rparr>"
  have w0: "c_wait c = []" "\<not> bit (c_flags c) 2" "\<not> bit (c_flags c) 4" "\<not> ctx_waiting ?c0"
    using c(4) by (auto simp: ctx_waiting_def flag_simps)
  obtain k where k: "fuel = Suc k" using fuel(4) by (cases fuel) auto
  from quiet_mailbox_poll [of ?c0 us ms fuel dbg h s p cur] obtain c2 where 2: "ctx_mailbox_poll ?ai cur fuel ?c0 = Inr c2"
    "\<not> ctx_waiting c2" "c_act c2 \<noteq> None" "c_log c2 = c_log c @ map (\<lambda>e. EvMessage e False) (us @ ms)" "replayed h p c c2"
    "c_flags c2 = c_flags ?c0" "c_wait c2 = []" "c_items c2 = c_items c"
    "u_rep (unsync_msgs (c_mailbox c2)) []" "sync_holds (c_mailbox c2) []" "mailbox_reach (c_mailbox c2) = mailbox_reach (c_mailbox c)"
    using c(1) msgs fuel dbg w0 by (auto simp: replayed_def)
  have ns: "\<not> ctx_stopping c2" using 2(2) by (simp add: ctx_waiting_def ctx_stopping_def)
  obtain c3 its where 3: "items_loop ?ai fuel 0 c2 = Inr (False, c3)" "items_polled h p 0 c2 its c3"
    using quiet_items_loop [OF 2(3) ns 2(7), of 0 fuel dbg h s p] 2(8) fuel(3) by auto
  note i = 3(2) [unfolded items_polled_def]
  let ?c3 = "c3\<lparr>c_curr_handle := handle_default\<rparr>"
  have fl: "bit (c_flags ?c3) 1" "\<not> bit (c_flags ?c3) 2" "\<not> bit (c_flags ?c3) 4" "\<not> bit (c_flags ?c3) 5" "c_act ?c3 \<noteq> None"
    using i 2(6) c(3) w0 by (auto simp: flag_simps)
  obtain r c4 fin where 4: "check_state ?ai ?c3 = Inr (Some r, c4)" "c_log c4 = c_log c3 @ fin"
    "ctx_alive ?c3 \<longrightarrow> r = PNotReady \<and> fin = []"
    "\<not> ctx_alive ?c3 \<longrightarrow> r = PReady () \<and> fin = [EvStopping Stop, EvStopped] \<or> r = PNotReady \<and> fin = [EvStopping Continue]"
    "c_mailbox c4 = c_mailbox c3" "c_items c4 = c_items c3" "replayed h p c3 c4"
    using quiet_check_state [OF fl(5,1,2,4), of dbg h s p] by (auto simp: replayed_def)
  have "ctx_poll ?ai cur fuel c = poll_turns ?ai cur fuel fuel c"
    using c(1,2) by (auto simp: ctx_poll_def ctx_started_def)
  also have "\<dots> = Inr (r, c4)" using w0(1) 2(1,7) 3(1) 4(1) by (simp add: k)
  finally have "ctx_poll ?ai cur fuel c = Inr (r, c4)" .
  moreover have "ctx_alive ?c3 \<longleftrightarrow> mailbox_connected (c_mailbox c) \<or> c_items c4 \<noteq> []"
    using fl i 4(5,6) mailbox_connected_reach [OF 2(11)] by (simp add: ctx_alive_def flag_simps)
  moreover have "replayed h p c c4" using 2(5) i 4(7) replayed_trans by blast
  ultimately show ?thesis using 2 i 4 by (intro exI [of _ r] exI [of _ c4] exI [of _ its] exI [of _ fin]) auto
qed

text \<open>C9: A poll of an actor whose user code leaves the context alone always returns (the fuel needs only
  to exceed the number of messages in each receiver and of spawned futures).  It handles all messages of
  the single-thread receiver, then all of the thread-safe one, each once and in order, then polls
  every spawned future exactly once; the state of the actor is then the replay of exactly these events on its state
  before; and with addresses or futures left the poll returns \<^verbatim>\<open>NotReady\<close>, otherwise it asks \<^verbatim>\<open>stopping\<close>
  and stops the actor if that agrees.\<close>

theorem quiet_poll_complete:
  assumes c: "c_act c \<noteq> None" "ctx_started c" "bit (c_flags c) 1" "\<not> ctx_waiting c"
    and msgs: "u_rep (unsync_msgs (c_mailbox c)) us" "sync_holds (c_mailbox c) ms"
    and fuel: "length us < fuel" "length ms < fuel" "length (c_items c) < fuel" "2 \<le> fuel"
    and dbg: "dbg \<longrightarrow> length us + length ms < MAX_SYNC_POLLS"
  shows "\<exists>r c' its fin. ctx_poll (quiet_actor dbg h s p) cur fuel c = Inr (r, c') \<and>
    c_log c' = c_log c @ map (\<lambda>e. EvMessage e False) (us @ ms) @ map (\<lambda>(h, f). EvItemPoll h f) its @ fin \<and>
    mset its = mset (c_items c) \<and> mset (c_items c') \<subseteq># mset (c_items c) \<and> replayed h p c c' \<and>
    u_rep (unsync_msgs (c_mailbox c')) [] \<and> sync_holds (c_mailbox c') [] \<and>
    (mailbox_connected (c_mailbox c) \<or> c_items c' \<noteq> [] \<longrightarrow> r = PNotReady \<and> fin = []) \<and>
    (\<not> mailbox_connected (c_mailbox c) \<and> c_items c' = [] \<longrightarrow>
       r = PReady () \<and> fin = [EvStopping Stop, EvStopped] \<or> r = PNotReady \<and> fin = [EvStopping Continue])"
  by (rule quiet_poll [OF assms])

text \<open>
  A context that is running, with nothing spawned, reachable, and with the messages \<open>us\<close> and \<open>ms\<close> in its two receivers; its
  actor may or may not have been started.
\<close>

definition idle_ctx :: "('w, 'f, 'e) ContextImpl \<Rightarrow> 'w \<Rightarrow> 'e list \<Rightarrow> 'e list \<Rightarrow> bool" where
  "idle_ctx c w us ms \<longleftrightarrow>
     c_act c = Some w \<and> bit (c_flags c) 1 \<and> \<not> bit (c_flags c) 2 \<and> \<not> bit (c_flags c) 4 \<and> c_wait c = [] \<and> c_items c = [] \<and>
     u_rep (unsync_msgs (c_mailbox c)) us \<and> sync_holds (c_mailbox c) ms \<and> mailbox_connected (c_mailbox c)"

lemma fold_replay_messages: "fold (replay h p) (map (\<lambda>e. EvMessage e b) es) w = fold h es w"
  by (induction es arbitrary: w) simp_all

lemma quiet_poll_idle:
  assumes "idle_ctx c w us ms" and "length us < fuel" and "length ms < fuel" and "2 \<le> fuel"
    and "dbg \<longrightarrow> length us + length ms < MAX_SYNC_POLLS"
  shows "\<exists>c'. ctx_poll (quiet_actor dbg h s p) cur fuel c = Inr (PNotReady, c') \<and> c_act c' = Some (fold h (us @ ms) w)"
proof -
  have started: ?thesis if "idle_ctx c1 w us ms" "ctx_started c1"
    "ctx_poll (quiet_actor dbg h s p) cur fuel c = ctx_poll (quiet_actor dbg h s p) cur fuel c1" for c1
  proof -
    note i = that(1) [unfolded idle_ctx_def] and st = that(2)
    have nw: "\<not> ctx_waiting c1" using i by (simp add: ctx_waiting_def flag_simps)
    obtain r c' its fin where 1: "ctx_poll (quiet_actor dbg h s p) cur fuel c1 = Inr (r, c')"
      "c_log c' = c_log c1 @ map (\<lambda>e. EvMessage e False) (us @ ms) @ map (\<lambda>(h, f). EvItemPoll h f) its @ fin"
      "mset its = {#}" "replayed h p c1 c'" "r = PNotReady" "fin = []"
      using quiet_poll [of c1 us ms fuel dbg h s p cur] i nw st assms(2-5) by auto
    then have "c_act c' = Some (fold h (us @ ms) w)" using i by (auto simp: replayed_def fold_replay_messages simp del: map_append fold_append)
    then show ?thesis using 1 that(3) by auto
  qed
  show ?thesis
  proof (cases "ctx_started c")
    case False
    let ?c1 = "put_act w (put_log EvStarted (c\<lparr>c_flags := flag_insert (c_flags c) STARTED\<rparr>))"
    have "idle_ctx ?c1 w us ms" "ctx_started ?c1" using assms(1) by (auto simp: idle_ctx_def ctx_started_def put_log_def put_act_def flag_simps)
    moreover have "ctx_poll (quiet_actor dbg h s p) cur fuel c = ctx_poll (quiet_actor dbg h s p) cur fuel ?c1"
      using assms(1) False by (auto simp: ctx_poll_def ctx_started_def idle_ctx_def put_log_def put_act_def flag_simps call_act_unit_def)
    ultimately show ?thesis by (rule started)
  qed (use started assms(1) in blast)
qed

text \<open>In a build with debug assertions, an actor that finds \<^verbatim>\<open>MAX_SYNC_POLLS\<close> messages waiting in its
  single-thread mailbox panics while draining it, although no handler has sent anything.\<close>

theorem full_mailbox_debug_panic:
  assumes "c_act c \<noteq> None" "ctx_started c" "\<not> ctx_waiting c"
    and "u_rep (unsync_msgs (c_mailbox c)) us" and "MAX_SYNC_POLLS \<le> length us" and "length us < fuel"
  shows "ctx_poll (quiet_actor True h s p) cur fuel c = Inl Panicked"
proof -
  define ai where "ai = quiet_actor True h s p"
  define c0 where "c0 = c\<lparr>c_flags := flag_remove (c_flags c) MODIFIED\<rparr>"
  let ?fr = "(c_flags c0, c_wait c0, c_items c0, c_handle c0, c_curr_handle c0)"
  have w0: "c_wait c = []" "\<not> bit (c_flags c) 2" "\<not> bit (c_flags c) 4"
    using assms(3) by (auto simp: ctx_waiting_def flag_simps)
  have c0: "frame_ok ?fr c0 \<and> replayed h p c0 c0" "\<not> ctx_waiting c0" "u_rep (unsync_msgs (c_mailbox c0)) us"
    using assms w0 by (simp_all add: frame_ok_def c0_def ctx_waiting_def flag_simps)
  have "ctx_mailbox_poll ai cur fuel c0 = Inl Panicked"
    using qh.poll_overrun [OF c0(1,3,2) assms(6,5), of cur True s] by (simp add: ctx_mailbox_poll_def ai_def)
  moreover obtain k where "fuel = Suc k" using assms(6) by (cases fuel) auto
  ultimately have "poll_turns ai cur fuel fuel c = Inl Panicked" using w0 by (simp add: c0_def)
  then show ?thesis using assms(1,2) by (auto simp: ctx_poll_def ctx_started_def ai_def)
qed

section \<open>Witnesses\<close>

text \<open>A context of a started actor with one address, the messages 1 and 2, and two spawned futures.\<close>

definition busy_ctx :: "(nat list, nat, nat) ContextImpl" where
  "busy_ctx =
     \<lparr>c_act = Some [], c_flags = 0b00000011,
      c_mailbox = \<lparr>sync_msgs = None, unsync_msgs =
        \<lparr>rc_value = Some \<lparr>buffer = [1, 2], capacity = 16, blocked_senders = [], blocked_recv = None\<rparr>,
         rc_weak = 1, rc_woken = []\<rparr>\<rparr>,
      c_wait = [], c_items = [(1, 10), (2, 20)], c_handle = 2, c_curr_handle = 0, c_log = []\<rparr>"

abbreviation recorder :: "(nat list, nat, nat) actor_impl" where
  "recorder \<equiv> quiet_actor True (\<lambda>e w. w @ [e]) (\<lambda>_. Stop) (\<lambda>f w. (PReady (), w))"

lemma bit_3: "bit (3 :: u8) n \<longleftrightarrow> n = 0 \<or> n = 1"
  using bit_or_iff [of "1 :: u8" 2 n] by (auto simp: bit_1_iff bit_2_iff)

lemma busy_ctx_facts:
  "c_act busy_ctx \<noteq> None" "ctx_started busy_ctx" "bit (c_flags busy_ctx) 1" "\<not> ctx_waiting busy_ctx"
  "u_rep (unsync_msgs (c_mailbox busy_ctx)) [1, 2]" "sync_holds (c_mailbox busy_ctx) []" "\<not> ctx_stopping busy_ctx"
  "handles_wf busy_ctx" "c_log busy_ctx = []" "c_items busy_ctx = [(1, 10), (2, 20)]"
  by (auto simp: busy_ctx_def ctx_started_def ctx_waiting_def ctx_stopping_def u_rep_def sync_holds_def handles_wf_def
      flag_simps bit_3 word_le_nat_alt)

theorem quiet_poll_complete_witness:
  "\<exists>r c' its fin. ctx_poll recorder 0 5 busy_ctx = Inr (r, c') \<and>
     c_log c' = [EvMessage 1 False, EvMessage 2 False] @ map (\<lambda>(h, f). EvItemPoll h f) its @ fin \<and>
     mset its = {#(1, 10), (2, 20)#}"
  using quiet_poll_complete [OF busy_ctx_facts(1-6), of 5 True "\<lambda>e w. w @ [e]" "\<lambda>_. Stop" "\<lambda>f w. (PReady (), w)" 0]
  by (auto simp: busy_ctx_facts MAX_SYNC_POLLS_def)

lemma busy_poll: "\<exists>r c'. ctx_poll recorder 0 5 busy_ctx = Inr (r, c')"
  using quiet_poll [OF busy_ctx_facts(1-6), of 5 True "\<lambda>e w. w @ [e]" "\<lambda>_. Stop" "\<lambda>f w. (PReady (), w)" 0]
  by (auto simp: busy_ctx_facts MAX_SYNC_POLLS_def)

theorem ctx_poll_lifecycle_witness:
  "\<exists>r c' mids fin. ctx_poll recorder 0 5 busy_ctx = Inr (r, c') \<and> c_log c' = mids @ fin \<and>
     list_all mid_event mids \<and> final_events r fin"
proof -
  obtain r c' where r: "ctx_poll recorder 0 5 busy_ctx = Inr (r, c')" using busy_poll by blast
  show ?thesis using ctx_poll_lifecycle [OF r busy_ctx_facts(1)] r by (auto simp: busy_ctx_facts)
qed

theorem cancel_future_exact_witness:
  "\<exists>r c1 c2. ctx_poll recorder 0 5 busy_ctx = Inr (r, c1) \<and> handles_wf c1 \<and>
     ctx_cancel_future 2 c1 = Inr (2 \<in> fst ` set (c_items c1), c2)"
proof -
  obtain r c1 where r: "ctx_poll recorder 0 5 busy_ctx = Inr (r, c1)" using busy_poll by blast
  show ?thesis using cancel_future_exact [OF busy_ctx_facts(8) _ r, of 2] r by auto
qed

theorem wait_future_blocks_witness:
  "\<exists>c1. ctx_poll (quiet_actor True (\<lambda>e w. w @ [e]) (\<lambda>_. Stop) (\<lambda>f w. (PNotReady, w))) 0 (Suc 0)
       (busy_ctx\<lparr>c_wait := [7]\<rparr>) = Inr (PNotReady, c1) \<and> c_log c1 = [EvWaitPoll 7]"
proof -
  let ?ai = "quiet_actor True (\<lambda>e w. w @ [e]) (\<lambda>_. Stop) (\<lambda>f w. (PNotReady, w)) :: (nat list, nat, nat) actor_impl"
  let ?c = "busy_ctx\<lparr>c_wait := [7]\<rparr>"
  let ?c1 = "put_act [] (put_log (EvWaitPoll 7) (?c\<lparr>c_flags := flag_remove (c_flags ?c) MODIFIED\<rparr>))"
  have "wait_item_poll ?ai 7 (?c\<lparr>c_flags := flag_remove (c_flags ?c) MODIFIED\<rparr>) = Inr (NotReady, ?c1)"
    by (simp add: wait_item_poll_eq put_log_def busy_ctx_def put_act_def ctx_state_def state_alive_def flag_simps bit_3)
  moreover have "ctx_started ?c" "\<not> ctx_stopping ?c" "c_act ?c = Some []"
    by (simp_all add: busy_ctx_def ctx_started_def ctx_stopping_def flag_simps bit_3)
  ultimately show ?thesis using wait_future_blocks [of ?c "[]" 7 "[]" ?ai ?c1 0 0] by (simp add: busy_ctx_facts)
qed

theorem wait_future_lost_witness:
  "\<exists>c1. wait_loop (recorder\<lparr>a_poll := (\<lambda>f w. CtxWait 9 (Return (PReady (), w)))\<rparr>) (Suc 3) (busy_ctx\<lparr>c_wait := [7]\<rparr>) =
       wait_loop (recorder\<lparr>a_poll := (\<lambda>f w. CtxWait 9 (Return (PReady (), w)))\<rparr>) 3 c1 \<and>
     c_wait c1 = [7] \<and> c_log c1 = [EvWaitPoll 7]"
  using wait_future_lost [of "busy_ctx\<lparr>c_wait := [7]\<rparr>" "[]" 7 "[]"
      "recorder\<lparr>a_poll := (\<lambda>f w. CtxWait 9 (Return (PReady (), w)))\<rparr>" 9 "[]" 3]
  by (auto simp: busy_ctx_def ctx_stopping_def flag_simps bit_3)

theorem cancel_in_last_item_panics_witness:
  "items_loop (recorder\<lparr>a_poll := (\<lambda>f w. CtxCancel 1 (\<lambda>_. Return (PReady (), w)))\<rparr>) (Suc 3) 1 busy_ctx = Inl Panicked"
  using cancel_in_last_item_panics [of busy_ctx "[(1, 10)]" 2 20 1 "[]"
      "recorder\<lparr>a_poll := (\<lambda>f w. CtxCancel 1 (\<lambda>_. Return (PReady (), w)))\<rparr>" "[]" 3]
  by (simp add: busy_ctx_def ctx_stopping_def flag_simps bit_3)

theorem terminate_in_stopping_limbo_witness:
  "\<exists>c1. check_state (recorder\<lparr>a_stopping := (\<lambda>w. CtxTerminate (Return (Continue, w)))\<rparr>) (ctx_new (Some [])) =
       Inr (Some PNotReady, c1) \<and> ctx_state c1 = Stopped \<and> c_log c1 = [EvStopping Continue]"
  using terminate_in_stopping_limbo [of "ctx_new (Some [])" "[]"
      "recorder\<lparr>a_stopping := (\<lambda>w. CtxTerminate (Return (Continue, w)))\<rparr>" "[]"]
  by (auto simp: ctx_new_def flag_simps ctx_alive_def mailbox_connected_def mailbox_default_def urx_new_def urx_connected_def)


theorem full_mailbox_debug_panic_witness:
  "ctx_poll recorder 0 300 (busy_ctx\<lparr>c_mailbox := \<lparr>sync_msgs = None, unsync_msgs = \<lparr>rc_value =
     Some \<lparr>buffer = replicate 256 1, capacity = 16, blocked_senders = [], blocked_recv = None\<rparr>,
     rc_weak = 1, rc_woken = []\<rparr>\<rparr>\<rparr>) = Inl Panicked"
  by (rule full_mailbox_debug_panic [where us = "replicate 256 1"])
    (simp_all add: busy_ctx_def ctx_started_def ctx_waiting_def u_rep_def flag_simps bit_3 MAX_SYNC_POLLS_def)

end
