(* ===== verification/Supervisor.thy ===== *)
theory Supervisor
  imports Handlers Context_Properties
begin

text \<open>
  Starting actors (\<^verbatim>\<open>Actor::start\<close>, \<^verbatim>\<open>Actor::create\<close> of \<^verbatim>\<open>src/actor.rs\<close>, \<^verbatim>\<open>ActorAddress\<close> of
  \<^verbatim>\<open>src/address/mod.rs\<close>) and supervising them (\<^verbatim>\<open>src/supervisor.rs\<close>).  The reactor that runs the
  context or the supervisor is not modelled: starting gives the context it is handed.
\<close>

unbundle bit_operations_syntax

section \<open>Starting\<close>

text \<open>\<^verbatim>\<open>ActorAddress::get\<close>, by the type of address asked for.\<close>

datatype AddressKind = KindUnsync | KindSyn | KindBoth | KindUnit

definition address_get ::
  "AddressKind \<Rightarrow> ('w, 'f, 'e) ContextImpl \<Rightarrow> (SyncAddressSender option \<times> ('w, 'f, 'e) ContextImpl) exec" where
  "address_get kind c =
     (case kind of
        KindUnsync \<Rightarrow> Inr (None, ctx_unsync_address c)
      | KindSyn \<Rightarrow> bind_exec (ctx_sync_address c) (\<lambda>(tx, c'). Inr (Some tx, c'))
      | KindBoth \<Rightarrow> bind_exec (ctx_sync_address (ctx_unsync_address c)) (\<lambda>(tx, c'). Inr (Some tx, c'))
      | KindUnit \<Rightarrow> Inr (None, c))"

definition actor_start ::
  "AddressKind \<Rightarrow> 'w \<Rightarrow> (SyncAddressSender option \<times> ('w, 'f, 'e) ContextImpl) exec" where
  "actor_start kind a = address_get kind (ctx_new (Some a))"

definition actor_start_default ::
  "'w \<Rightarrow> AddressKind \<Rightarrow> (SyncAddressSender option \<times> ('w, 'f, 'e) ContextImpl) exec" where
  "actor_start_default dflt kind = actor_start kind dflt"

text \<open>\<^verbatim>\<open>Actor::create\<close>: the address is taken before the actor exists; \<open>f\<close> makes the actor, running on the
  context.\<close>

definition actor_create ::
  "bool \<Rightarrow> AddressKind \<Rightarrow> ('f, 'e, 'w) code \<Rightarrow> (SyncAddressSender option \<times> ('w, 'f, 'e) ContextImpl) exec" where
  "actor_create dbg kind f =
     bind_exec (address_get kind (ctx_new None)) (\<lambda>(addr, c).
       bind_exec (run_code dbg f c) (\<lambda>(a, c1). Inr (addr, ctx_set_actor a c1)))"

definition supervisor_start ::
  "bool \<Rightarrow> AddressKind \<Rightarrow> ('f, 'e, 'w) code \<Rightarrow> (SyncAddressSender option \<times> ('w, 'f, 'e) ContextImpl) exec" where
  "supervisor_start dbg kind f =
     bind_exec (run_code dbg f (ctx_new None)) (\<lambda>(a, c).
       bind_exec (address_get kind c) (\<lambda>(addr, c1). Inr (addr, ctx_set_actor a c1)))"

text \<open>\<^verbatim>\<open>start_in\<close>: the channel is made here, the rest runs in the arbiter.\<close>

definition supervisor_start_in ::
  "bool \<Rightarrow> ('f, 'e, 'w) code \<Rightarrow> (SyncAddressSender \<times> ('w, 'f, 'e) ContextImpl) exec" where
  "supervisor_start_in dbg f =
     bind_exec (channel DEFAULT_CAPACITY) (\<lambda>(tx, rx).
       bind_exec (run_code dbg f (ctx_with_receiver None rx)) (\<lambda>(a, c). Inr (tx, ctx_set_actor a c)))"

text \<open>\<^verbatim>\<open>Arbiter::start\<close>: the same in a new arbiter, without a supervisor.\<close>

definition arbiter_start ::
  "bool \<Rightarrow> ('f, 'e, 'w) code \<Rightarrow> (SyncAddressSender \<times> ('w, 'f, 'e) ContextImpl) exec" where
  "arbiter_start dbg f =
     bind_exec (channel DEFAULT_CAPACITY) (\<lambda>(stx, srx).
       bind_exec (run_code dbg f (ctx_with_receiver None srx)) (\<lambda>(act, ctx). Inr (stx, ctx_set_actor act ctx)))"

text \<open>The message \<^verbatim>\<open>StartActor\<close> carries a call of \<^verbatim>\<open>Actor::create\<close> to another arbiter.\<close>

datatype ('w, 'f, 'e) StartActor = StartActor "unit \<Rightarrow> (SyncAddressSender option \<times> ('w, 'f, 'e) ContextImpl) exec"

definition start_actor_new :: "bool \<Rightarrow> ('f, 'e, 'w) code \<Rightarrow> ('w, 'f, 'e) StartActor" where
  "start_actor_new dbg f = StartActor (\<lambda>_. actor_create dbg KindSyn f)"

fun start_actor_call :: "('w, 'f, 'e) StartActor \<Rightarrow> (SyncAddressSender option \<times> ('w, 'f, 'e) ContextImpl) exec" where
  "start_actor_call (StartActor call_box) = call_box ()"

definition arbiter_handle_start_actor ::
  "('w, 'f, 'e) StartActor \<Rightarrow> (SyncAddressSender option \<times> ('w, 'f, 'e) ContextImpl) exec" where
  "arbiter_handle_start_actor msg = start_actor_call msg"

section \<open>Supervising\<close>

fun supervisor_loop ::
  "('w, 'f, 'e) actor_impl \<Rightarrow> task \<Rightarrow> nat \<Rightarrow> nat \<Rightarrow> ('w, 'f, 'e) ContextImpl \<Rightarrow>
     ((unit, unit) Poll \<times> ('w, 'f, 'e) ContextImpl) exec" where
  "supervisor_loop ai cur inner 0 c = Inl OutOfFuel"
| "supervisor_loop ai cur inner (Suc k) c =
     bind_exec (ctx_poll ai cur inner c) (\<lambda>(r, c1).
       if r = PNotReady then Inr (PNotReady, c1)
       else bind_exec (ctx_restart ai c1) (\<lambda>(again, c2).
         if again then supervisor_loop ai cur inner k c2 else Inr (PReady (), c2)))"

definition supervisor_poll ::
  "('w, 'f, 'e) actor_impl \<Rightarrow> task \<Rightarrow> nat \<Rightarrow> nat \<Rightarrow> ('w, 'f, 'e) ContextImpl \<Rightarrow>
     ((unit, unit) Poll \<times> ('w, 'f, 'e) ContextImpl) exec" where
  "supervisor_poll ai cur inner fuel c = supervisor_loop ai cur inner fuel c"

lemmas start_defs = actor_create_def actor_start_def supervisor_start_def arbiter_start_def supervisor_start_in_def
  address_get_def ctx_set_actor_def ctx_new_def ctx_with_receiver_def ctx_unsync_address_def ctx_sync_address_def ctx_modify_def
  unsync_address_def remote_address_def mailbox_default_def mailbox_new_def urx_new_def urx_sender_def urx_capacity_def
  with_shared_def channel_def DEFAULT_CAPACITY_def mailbox_connected_def urx_connected_def sync_rx_connected_def flag_simps
  flag_insert_def

section \<open>An actor that dies on every message\<close>

definition mortal :: "bool \<Rightarrow> ('e \<Rightarrow> 'w \<Rightarrow> 'w) \<Rightarrow> ('w, 'f, 'e) actor_impl" where
  "mortal dbg h =
     \<lparr>debug_assertions = dbg, a_started = Return, a_stopping = (\<lambda>w. Return (Stop, w)), a_stopped = Return,
      a_restarting = Return, a_handle = (\<lambda>e w. CtxStop (Return (h e w))), a_poll = (\<lambda>f w. Return (PReady (), w))\<rparr>"

text \<open>A context as \<^verbatim>\<open>start\<close> and \<^verbatim>\<open>restart\<close> leave it: running, not started, no futures, with an address
  outside and the messages \<open>us\<close> waiting.\<close>

definition fresh_ctx :: "('w, 'f, 'e) ContextImpl \<Rightarrow> 'w \<Rightarrow> 'e list \<Rightarrow> bool" where
  "fresh_ctx c w us \<longleftrightarrow>
     c_act c = Some w \<and> bit (c_flags c) 1 \<and> \<not> bit (c_flags c) 0 \<and> \<not> bit (c_flags c) 2 \<and> \<not> bit (c_flags c) 4 \<and>
     c_wait c = [] \<and> c_items c = [] \<and> sync_msgs (c_mailbox c) = None \<and>
     u_rep (unsync_msgs (c_mailbox c)) us \<and> rc_weak (unsync_msgs (c_mailbox c)) \<noteq> 0"

lemma urx_poll_connected:
  assumes "rc_weak u \<noteq> 0"
  shows "u_rep u [] \<Longrightarrow> \<exists>u'. urx_poll cur u = Inr (PNotReady, u') \<and> u_rep u' [] \<and> rc_weak u' = rc_weak u"
    and "u_rep u (m # ms) \<Longrightarrow> \<exists>u'. urx_poll cur u = Inr (PReady (Some m), u') \<and> u_rep u' ms \<and> rc_weak u' = rc_weak u"
  using assms by (auto simp: u_rep_def urx_poll_def split: list.splits)

lemma mortal_sel [simp]:
  "debug_assertions (mortal dbg h) = dbg" "a_started (mortal dbg h) = Return"
  "a_stopping (mortal dbg h) w = Return (Stop, w)" "a_stopped (mortal dbg h) = Return"
  "a_restarting (mortal dbg h) = Return" "a_handle (mortal dbg h) e w = CtxStop (Return (h e w))"
  by (simp_all add: mortal_def)

lemma fresh_connected: "fresh_ctx c w us \<Longrightarrow> mailbox_connected (c_mailbox c)"
  by (simp add: fresh_ctx_def mailbox_connected_def urx_connected_def)

lemma mortal_idle:
  assumes "fresh_ctx c w []"
  shows "\<exists>c'. ctx_poll (mortal dbg h) cur (Suc (Suc k)) c = Inr (PNotReady, c') \<and> c_log c' = c_log c @ [EvStarted] \<and>
    c_act c' = Some w \<and> u_rep (unsync_msgs (c_mailbox c')) []"
proof -
  obtain u' where "urx_poll cur (unsync_msgs (c_mailbox c)) = Inr (PNotReady, u')" "u_rep u' []"
    "rc_weak u' = rc_weak (unsync_msgs (c_mailbox c))"
    using urx_poll_connected(1) [of "unsync_msgs (c_mailbox c)" cur] assms by (auto simp: fresh_ctx_def)
  then show ?thesis using assms
    by (auto simp: ctx_poll_def fresh_ctx_def flag_simps call_act_unit_def put_log_def put_act_def ctx_stopping_def
      ctx_mailbox_poll_def mailbox_poll_def ctx_waiting_def poll_unsync_def put_mailbox_def check_state_def ctx_alive_def
      mailbox_connected_def urx_connected_def)
qed

lemma mortal_dies:
  assumes "fresh_ctx c w (m # us)"
  shows "\<exists>c1 c2. ctx_poll (mortal dbg h) cur (Suc (Suc k)) c = Inr (PReady (), c1) \<and>
    ctx_restart (mortal dbg h) c1 = Inr (True, c2) \<and> fresh_ctx c2 (h m w) us \<and>
    c_log c2 = c_log c @ [EvStarted, EvMessage m False, EvStopping Stop, EvStopped, EvRestarting]"
proof -
  obtain u' where "urx_poll cur (unsync_msgs (c_mailbox c)) = Inr (PReady (Some m), u')" "u_rep u' us"
    "rc_weak u' = rc_weak (unsync_msgs (c_mailbox c))"
    using urx_poll_connected(2) [of "unsync_msgs (c_mailbox c)" m us cur] assms by (auto simp: fresh_ctx_def)
  then show ?thesis using assms
    by (auto simp: ctx_poll_def fresh_ctx_def flag_simps call_act_unit_def call_act_def put_log_def put_act_def ctx_stopping_def
      ctx_mailbox_poll_def mailbox_poll_def ctx_waiting_def poll_unsync_def put_mailbox_def check_state_def ctx_alive_def
      mailbox_connected_def urx_connected_def ctx_handle_message_def ctx_stop_def debug_count_def MAX_SYNC_POLLS_def
      ask_stopping_def finish_stop_def ctx_restart_def)
qed

text \<open>The events of one life of an actor that stops at its first message and is restarted.\<close>

definition life :: "'e \<Rightarrow> ('f, 'e) event list" where
  "life m = [EvStarted, EvMessage m False, EvStopping Stop, EvStopped, EvRestarting]"

lemma supervised_lives:
  "\<lbrakk>fresh_ctx c w us; length us < k\<rbrakk> \<Longrightarrow>
   \<exists>c'. supervisor_loop (mortal dbg h) cur (Suc (Suc i)) k c = Inr (PNotReady, c') \<and>
     c_log c' = c_log c @ concat (map life us) @ [EvStarted] \<and> c_act c' = Some (fold h us w) \<and>
     u_rep (unsync_msgs (c_mailbox c')) []"
proof (induction us arbitrary: c w k)
  case Nil
  then obtain j where "k = Suc j" by (cases k) auto
  then show ?case using mortal_idle [OF Nil.prems(1), of dbg h cur i] by auto
next
  case (Cons m us)
  then obtain j where j: "k = Suc j" "length us < j" by (cases k) auto
  obtain c1 c2 where 1: "ctx_poll (mortal dbg h) cur (Suc (Suc i)) c = Inr (PReady (), c1)"
    "ctx_restart (mortal dbg h) c1 = Inr (True, c2)" "fresh_ctx c2 (h m w) us" "c_log c2 = c_log c @ life m"
    using mortal_dies [OF Cons.prems(1), of dbg h cur i] by (auto simp: life_def)
  then show ?case using Cons.IH [OF 1(3) j(2)] j(1) by auto
qed

text \<open>C24: A supervised actor loses no message: when the actor stops itself while handling a message, the
  supervisor restarts it within the same poll and the next message is handled by the restarted
  actor; every message is handled exactly once, in order, each in a life of its own (\<^verbatim>\<open>started\<close>, the
  message, \<^verbatim>\<open>stopping\<close>, \<^verbatim>\<open>stopped\<close>, \<^verbatim>\<open>restarting\<close>), the state of the actor is carried from life to life, and
  the supervisor stays pending with an actor that waits for more.\<close>

theorem supervised_no_message_lost:
  assumes "fresh_ctx c w us" and "length us < fuel" and "2 \<le> inner"
  shows "\<exists>c'. supervisor_poll (mortal dbg h) cur inner fuel c = Inr (PNotReady, c') \<and>
    c_log c' = c_log c @ concat (map life us) @ [EvStarted] \<and> c_act c' = Some (fold h us w) \<and>
    u_rep (unsync_msgs (c_mailbox c')) []"
proof -
  obtain i where "inner = Suc (Suc i)" using assms(3) by (metis Suc_le_D numeral_2_eq_2 Suc_le_mono)
  then show ?thesis using supervised_lives [OF assms(1,2), of dbg h cur i] by (simp add: supervisor_poll_def)
qed

theorem supervised_no_message_lost_witness:
  "\<exists>c'. supervisor_poll (mortal True (\<lambda>e w. w @ [e]) :: (nat list, nat, nat) actor_impl) 0 2 3
      (busy_ctx\<lparr>c_flags := RUNNING, c_items := []\<rparr>) = Inr (PNotReady, c') \<and>
    c_log c' = life 1 @ life 2 @ [EvStarted] \<and> c_act c' = Some [1, 2]"
proof -
  have "fresh_ctx (busy_ctx\<lparr>c_flags := RUNNING, c_items := []\<rparr>) [] [1, 2]"
    by (simp add: fresh_ctx_def busy_ctx_def flag_simps u_rep_def)
  from supervised_no_message_lost [OF this, of 3 2 True "\<lambda>e w. w @ [e]" 0] show ?thesis
    by (auto simp: busy_ctx_facts)
qed



text \<open>The ways to start an actor agree: asking for an address of any kind, \<^verbatim>\<open>Actor::create\<close> and
  \<^verbatim>\<open>Supervisor::start\<close> with a closure that only returns the actor give the same address and the same
  context as \<^verbatim>\<open>Actor::start\<close>, and the actor in it can be reached; sending \<^verbatim>\<open>StartActor\<close> to an arbiter does
  what starting there with a thread-safe address does; \<^verbatim>\<open>Arbiter::start\<close> and \<^verbatim>\<open>Supervisor::start_in\<close> give the
  same context, in which the actor can be reached through the address returned.\<close>

theorem start_ways_agree:
  assumes "kind \<noteq> KindUnit"
  shows "actor_create dbg kind (Return a) = actor_start kind a \<and> supervisor_start dbg kind (Return a) = actor_start kind a \<and>
    arbiter_handle_start_actor (start_actor_new dbg (Return a)) = actor_start KindSyn a \<and>
    (\<exists>addr c. actor_start kind a = Inr (addr, c) \<and> mailbox_connected (c_mailbox c) \<and> c_act c = Some a) \<and>
    (\<exists>tx c. arbiter_start dbg (Return a) = Inr (tx, c) \<and> supervisor_start_in dbg (Return a) = Inr (tx, c) \<and>
      mailbox_connected (c_mailbox c) \<and> c_act c = Some a)"
proof -
  have b: "16 < MAX_BUFFER" by (simp add: MAX_BUFFER_def MAX_CAPACITY_def OPEN_MASK_eq)
  have create: "actor_create dbg k (Return a) = actor_start k a" if "k \<noteq> KindUnit" for k
    using that b by (cases k) (simp_all add: start_defs)
  then show ?thesis using assms b
    by (cases kind) (simp_all add: start_defs arbiter_handle_start_actor_def start_actor_new_def)
qed

theorem start_ways_agree_witness:
  "KindBoth \<noteq> KindUnit \<and> actor_create True KindBoth (Return [1 :: nat]) =
     (actor_start KindBoth [1] :: (SyncAddressSender option \<times> (nat list, nat, nat) ContextImpl) exec)"
  by (intro conjI start_ways_agree [THEN conjunct1]) simp_all

end
