(* ===== verification/Requests.thy ===== *)
theory Requests
  imports Sync_Channel Unsync_Channel
begin

text \<open>
  Sending through addresses and recipients (\<^verbatim>\<open>src/address/mod.rs\<close>, \<^verbatim>\<open>src/address/sync.rs\<close>,
  \<^verbatim>\<open>src/address/unsync.rs\<close>) and the future \<^verbatim>\<open>Request\<close> that a send returns (\<^verbatim>\<open>src/address/message.rs\<close>).

  The traits \<^verbatim>\<open>MessageDestination\<close> and \<^verbatim>\<open>MessageRecipient\<close> are records of operations, with an instance
  for the thread-safe channel (\<^verbatim>\<open>Syn\<close>) and one for the single-thread channel (\<^verbatim>\<open>Unsync\<close>), and the
  methods of \<^verbatim>\<open>Addr\<close> and \<^verbatim>\<open>Recipient\<close> go through them.  The state of the channel is passed
  explicitly; one-shot channels and timers (crates \<^verbatim>\<open>futures\<close>, \<^verbatim>\<open>tokio-core\<close>) are parameters:
  \<open>rxp\<close> polls the receiver of a response, \<open>tp\<close> polls a timer, both in a world \<open>'w\<close>.
\<close>

section \<open>Requests\<close>

record ('tx, 'm, 'rx, 't) Request =
  rq_rx :: "'rx option"
  rq_info :: "('tx \<times> 'm) option"
  rq_timeout :: "'t option"

definition request_new :: "'rx option \<Rightarrow> ('tx \<times> 'm) option \<Rightarrow> ('tx, 'm, 'rx, 't) Request" where
  "request_new rx info = \<lparr>rq_rx = rx, rq_info = info, rq_timeout = None\<rparr>"

definition request_timeout :: "'t \<Rightarrow> ('tx, 'm, 'rx, 't) Request \<Rightarrow> ('tx, 'm, 'rx, 't) Request" where
  "request_timeout timer rq = rq\<lparr>rq_timeout := Some timer\<rparr>"

definition poll_timeout ::
  "('t \<Rightarrow> 'w \<Rightarrow> (unit, unit) Poll \<times> 't) \<Rightarrow> ('tx, 'm, 'rx, 't) Request \<Rightarrow> 'w \<Rightarrow>
     (('r, MailboxError) Poll \<times> ('tx, 'm, 'rx, 't) Request) exec" where
  "poll_timeout tp rq w =
     (case rq_timeout rq of
        Some timer \<Rightarrow>
          (case tp timer w of
             (Inr (Ready _), timer') \<Rightarrow> Inr (PErr MailboxTimeout, rq\<lparr>rq_timeout := Some timer'\<rparr>)
           | (Inr NotReady, timer') \<Rightarrow> Inr (PNotReady, rq\<lparr>rq_timeout := Some timer'\<rparr>)
           | (Inl _, _) \<Rightarrow> Inl Panicked)
      | None \<Rightarrow> Inr (PNotReady, rq))"

text \<open>The second part of \<^verbatim>\<open>poll\<close>: the response.\<close>

definition request_poll_rx ::
  "('rx \<Rightarrow> 'w \<Rightarrow> ('r, unit) Poll \<times> 'rx) \<Rightarrow> ('t \<Rightarrow> 'w \<Rightarrow> (unit, unit) Poll \<times> 't) \<Rightarrow>
     ('tx, 'm, 'rx, 't) Request \<Rightarrow> 'w \<Rightarrow> (('r, MailboxError) Poll \<times> ('tx, 'm, 'rx, 't) Request) exec" where
  "request_poll_rx rxp tp rq w =
     (case rq_rx rq of
        Some rx \<Rightarrow>
          (let rq1 = rq\<lparr>rq_rx := None\<rparr> in
           case rxp rx w of
             (Inr (Ready item), _) \<Rightarrow> Inr (PReady item, rq1)
           | (Inr NotReady, rx') \<Rightarrow> poll_timeout tp (rq1\<lparr>rq_rx := Some rx'\<rparr>) w
           | (Inl _, _) \<Rightarrow> Inr (PErr MailboxClosed, rq1))
      | None \<Rightarrow> Inr (PErr MailboxClosed, rq))"

text \<open>
  \<^verbatim>\<open>Request::poll\<close>; \<open>send\<close> is the transport's \<^verbatim>\<open>send\<close>, \<open>txd\<close> its destructor, which runs at the end
  of the first block unless the sender is put back.
\<close>

definition request_poll ::
  "('tx \<Rightarrow> 'm \<Rightarrow> 'c \<Rightarrow> (('m SendError + 'rx) \<times> 'tx \<times> 'c) exec) \<Rightarrow> ('c \<Rightarrow> 'c) \<Rightarrow>
     ('rx \<Rightarrow> 'w \<Rightarrow> ('r, unit) Poll \<times> 'rx) \<Rightarrow> ('t \<Rightarrow> 'w \<Rightarrow> (unit, unit) Poll \<times> 't) \<Rightarrow>
     ('tx, 'm, 'rx, 't) Request \<Rightarrow> 'c \<Rightarrow> 'w \<Rightarrow>
     (('r, MailboxError) Poll \<times> ('tx, 'm, 'rx, 't) Request \<times> 'c) exec" where
  "request_poll send txd rxp tp rq c w =
     (case rq_info rq of
        Some (sender, msg) \<Rightarrow>
          (let rq1 = rq\<lparr>rq_info := None\<rparr> in
           bind_exec (send sender msg c) (\<lambda>(r, sender', c1).
             case r of
               Inr rx \<Rightarrow>
                 bind_exec (request_poll_rx rxp tp (rq1\<lparr>rq_rx := Some rx\<rparr>) w) (\<lambda>(p, rq2). Inr (p, rq2, txd c1))
             | Inl (Full msg') \<Rightarrow> Inr (PNotReady, rq1\<lparr>rq_info := Some (sender', msg')\<rparr>, c1)
             | Inl (Closed _) \<Rightarrow> Inr (PErr MailboxClosed, rq1, txd c1)))
      | None \<Rightarrow> bind_exec (request_poll_rx rxp tp rq w) (\<lambda>(p, rq2). Inr (p, rq2, c)))"

section \<open>Requests of recipients\<close>

text \<open>
  \<^verbatim>\<open>SyncRecipientRequest\<close> and \<^verbatim>\<open>UnsyncRecipientRequest\<close>, which a recipient's \<^verbatim>\<open>send\<close> returns; they hold the boxed sender.
\<close>

record ('m, 'rx, 't) SyncRecipientRequest =
  srr_rx :: "'rx option"
  srr_info :: "(SyncAddressSender \<times> 'm) option"
  srr_timeout :: "'t option"

definition srr_new :: "'rx option \<Rightarrow> (SyncAddressSender \<times> 'm) option \<Rightarrow> ('m, 'rx, 't) SyncRecipientRequest" where
  "srr_new rx info = \<lparr>srr_rx = rx, srr_info = info, srr_timeout = None\<rparr>"

definition srr_set_timeout :: "'t \<Rightarrow> ('m, 'rx, 't) SyncRecipientRequest \<Rightarrow> ('m, 'rx, 't) SyncRecipientRequest" where
  "srr_set_timeout timer rq = rq\<lparr>srr_timeout := Some timer\<rparr>"

definition srr_poll_timeout ::
  "('t \<Rightarrow> 'w \<Rightarrow> (unit, unit) Poll \<times> 't) \<Rightarrow> ('m, 'rx, 't) SyncRecipientRequest \<Rightarrow> 'w \<Rightarrow>
     (('r, MailboxError) Poll \<times> ('m, 'rx, 't) SyncRecipientRequest) exec" where
  "srr_poll_timeout tp rq w =
     (case srr_timeout rq of
        Some timer \<Rightarrow>
          (case tp timer w of
             (Inr (Ready _), timer') \<Rightarrow> Inr (PErr MailboxTimeout, rq\<lparr>srr_timeout := Some timer'\<rparr>)
           | (Inr NotReady, timer') \<Rightarrow> Inr (PNotReady, rq\<lparr>srr_timeout := Some timer'\<rparr>)
           | (Inl _, _) \<Rightarrow> Inl Panicked)
      | None \<Rightarrow> Inr (PNotReady, rq))"

definition srr_poll_rx ::
  "('rx \<Rightarrow> 'w \<Rightarrow> ('r, unit) Poll \<times> 'rx) \<Rightarrow> ('t \<Rightarrow> 'w \<Rightarrow> (unit, unit) Poll \<times> 't) \<Rightarrow>
     ('m, 'rx, 't) SyncRecipientRequest \<Rightarrow> 'w \<Rightarrow> (('r, MailboxError) Poll \<times> ('m, 'rx, 't) SyncRecipientRequest) exec" where
  "srr_poll_rx rxp tp rq w =
     (case srr_rx rq of
        Some rx \<Rightarrow>
          (case rxp rx w of
             (Inr (Ready item), _) \<Rightarrow> Inr (PReady item, rq\<lparr>srr_rx := None\<rparr>)
           | (Inr NotReady, rx') \<Rightarrow> srr_poll_timeout tp (rq\<lparr>srr_rx := Some rx'\<rparr>) w
           | (Inl _, _) \<Rightarrow> Inr (PErr MailboxClosed, rq\<lparr>srr_rx := None\<rparr>))
      | None \<Rightarrow> Inr (PErr MailboxClosed, rq))"

definition srr_poll ::
  "('m \<Rightarrow> 'otx option \<Rightarrow> 'e) \<Rightarrow> task \<Rightarrow> 'otx \<times> 'rx \<Rightarrow> ('rx \<Rightarrow> 'w \<Rightarrow> ('r, unit) Poll \<times> 'rx) \<Rightarrow>
     ('t \<Rightarrow> 'w \<Rightarrow> (unit, unit) Poll \<times> 't) \<Rightarrow> ('m, 'rx, 't) SyncRecipientRequest \<Rightarrow> 'e Chan \<Rightarrow> 'w \<Rightarrow>
     (('r, MailboxError) Poll \<times> ('m, 'rx, 't) SyncRecipientRequest \<times> 'e Chan) exec" where
  "srr_poll pack cur oneshot rxp tp rq c w =
     (case srr_info rq of
        Some (sender, msg) \<Rightarrow>
          bind_exec (sync_send pack cur oneshot msg sender c) (\<lambda>(r, sender', c1).
            case r of
              Inr rx \<Rightarrow>
                bind_exec (srr_poll_rx rxp tp (rq\<lparr>srr_info := None, srr_rx := Some rx\<rparr>) w) (\<lambda>(p, rq2). Inr (p, rq2, sync_tx_drop c1))
            | Inl (Full msg') \<Rightarrow> Inr (PNotReady, rq\<lparr>srr_info := Some (sender', msg')\<rparr>, c1)
            | Inl (Closed _) \<Rightarrow> Inr (PErr MailboxClosed, rq\<lparr>srr_info := None\<rparr>, sync_tx_drop c1))
      | None \<Rightarrow> bind_exec (srr_poll_rx rxp tp rq w) (\<lambda>(p, rq2). Inr (p, rq2, c)))"

text \<open>The sender of a single-thread channel is only a weak reference to it, so it has no state of its own.\<close>

definition unsync_transport_send ::
  "('m \<Rightarrow> 'otx option \<Rightarrow> 'e) \<Rightarrow> task \<Rightarrow> 'otx \<times> 'rx \<Rightarrow> unit \<Rightarrow> 'm \<Rightarrow> 'e RcShared \<Rightarrow>
     (('m SendError + 'rx) \<times> unit \<times> 'e RcShared) exec" where
  "unsync_transport_send pack cur oneshot tx msg u = (let (r, u') = usend pack cur oneshot msg u in Inr (r, (), u'))"

record ('m, 'rx, 't) UnsyncRecipientRequest =
  urr_rx :: "'rx option"
  urr_info :: "(unit \<times> 'm) option"
  urr_timeout :: "'t option"

definition urr_new :: "'rx option \<Rightarrow> (unit \<times> 'm) option \<Rightarrow> ('m, 'rx, 't) UnsyncRecipientRequest" where
  "urr_new rx info = \<lparr>urr_rx = rx, urr_info = info, urr_timeout = None\<rparr>"

definition urr_set_timeout :: "'t \<Rightarrow> ('m, 'rx, 't) UnsyncRecipientRequest \<Rightarrow> ('m, 'rx, 't) UnsyncRecipientRequest" where
  "urr_set_timeout timer rq = rq\<lparr>urr_timeout := Some timer\<rparr>"

definition urr_poll_timeout ::
  "('t \<Rightarrow> 'w \<Rightarrow> (unit, unit) Poll \<times> 't) \<Rightarrow> ('m, 'rx, 't) UnsyncRecipientRequest \<Rightarrow> 'w \<Rightarrow>
     (('r, MailboxError) Poll \<times> ('m, 'rx, 't) UnsyncRecipientRequest) exec" where
  "urr_poll_timeout tp rq w =
     (case urr_timeout rq of
        Some timer \<Rightarrow>
          (case tp timer w of
             (Inr (Ready _), timer') \<Rightarrow> Inr (PErr MailboxTimeout, rq\<lparr>urr_timeout := Some timer'\<rparr>)
           | (Inr NotReady, timer') \<Rightarrow> Inr (PNotReady, rq\<lparr>urr_timeout := Some timer'\<rparr>)
           | (Inl _, _) \<Rightarrow> Inl Panicked)
      | None \<Rightarrow> Inr (PNotReady, rq))"

definition urr_poll_rx ::
  "('rx \<Rightarrow> 'w \<Rightarrow> ('r, unit) Poll \<times> 'rx) \<Rightarrow> ('t \<Rightarrow> 'w \<Rightarrow> (unit, unit) Poll \<times> 't) \<Rightarrow>
     ('m, 'rx, 't) UnsyncRecipientRequest \<Rightarrow> 'w \<Rightarrow> (('r, MailboxError) Poll \<times> ('m, 'rx, 't) UnsyncRecipientRequest) exec" where
  "urr_poll_rx rxp tp rq w =
     (case urr_rx rq of
        Some rx \<Rightarrow>
          (case rxp rx w of
             (Inr (Ready item), _) \<Rightarrow> Inr (PReady item, rq\<lparr>urr_rx := None\<rparr>)
           | (Inr NotReady, rx') \<Rightarrow> urr_poll_timeout tp (rq\<lparr>urr_rx := Some rx'\<rparr>) w
           | (Inl _, _) \<Rightarrow> Inr (PErr MailboxClosed, rq\<lparr>urr_rx := None\<rparr>))
      | None \<Rightarrow> Inr (PErr MailboxClosed, rq))"

definition urr_poll ::
  "('m \<Rightarrow> 'otx option \<Rightarrow> 'e) \<Rightarrow> task \<Rightarrow> 'otx \<times> 'rx \<Rightarrow> ('rx \<Rightarrow> 'w \<Rightarrow> ('r, unit) Poll \<times> 'rx) \<Rightarrow>
     ('t \<Rightarrow> 'w \<Rightarrow> (unit, unit) Poll \<times> 't) \<Rightarrow> ('m, 'rx, 't) UnsyncRecipientRequest \<Rightarrow> 'e RcShared \<Rightarrow> 'w \<Rightarrow>
     (('r, MailboxError) Poll \<times> ('m, 'rx, 't) UnsyncRecipientRequest \<times> 'e RcShared) exec" where
  "urr_poll pack cur oneshot rxp tp rq u w =
     (case urr_info rq of
        Some (sender, msg) \<Rightarrow>
          bind_exec (unsync_transport_send pack cur oneshot sender msg u) (\<lambda>(r, sender', u1).
            case r of
              Inr rx \<Rightarrow>
                bind_exec (urr_poll_rx rxp tp (rq\<lparr>urr_info := None, urr_rx := Some rx\<rparr>) w) (\<lambda>(p, rq2). Inr (p, rq2, utx_drop u1))
            | Inl (Full msg') \<Rightarrow> Inr (PNotReady, rq\<lparr>urr_info := Some (sender', msg')\<rparr>, u1)
            | Inl (Closed _) \<Rightarrow> Inr (PErr MailboxClosed, rq\<lparr>urr_info := None\<rparr>, utx_drop u1))
      | None \<Rightarrow> bind_exec (urr_poll_rx rxp tp rq w) (\<lambda>(p, rq2). Inr (p, rq2, u)))"

section \<open>Destinations and recipients\<close>

text \<open>\<^verbatim>\<open>MessageDestination\<close>; the sender is passed back, since its park flag may change.\<close>

record ('tx, 'm, 'rx, 't, 'c) MessageDestination =
  dst_connected :: "'tx \<Rightarrow> 'c \<Rightarrow> bool"
  dst_do_send :: "'tx \<Rightarrow> 'm \<Rightarrow> 'c \<Rightarrow> 'c exec"
  dst_try_send :: "'tx \<Rightarrow> 'm \<Rightarrow> 'c \<Rightarrow> (('m SendError + unit) \<times> 'tx \<times> 'c) exec"
  dst_send :: "'tx \<Rightarrow> 'm \<Rightarrow> 'c \<Rightarrow> (('tx, 'm, 'rx, 't) Request \<times> 'tx \<times> 'c) exec"
  dst_clone :: "'tx \<Rightarrow> 'c \<Rightarrow> ('tx \<times> 'c) exec"

record ('tx, 'm, 'rq, 'c) MessageRecipient =
  rcp_do_send :: "'tx \<Rightarrow> 'm \<Rightarrow> 'c \<Rightarrow> (('m SendError + unit) \<times> 'c) exec"
  rcp_try_send :: "'tx \<Rightarrow> 'm \<Rightarrow> 'c \<Rightarrow> (('m SendError + unit) \<times> 'tx \<times> 'c) exec"
  rcp_send :: "'tx \<Rightarrow> 'm \<Rightarrow> 'c \<Rightarrow> ('rq \<times> 'tx \<times> 'c) exec"
  rcp_clone :: "'tx \<Rightarrow> 'c \<Rightarrow> ('tx \<times> 'c) exec"

text \<open>The body of \<^verbatim>\<open>send\<close>, the same in the four implementations: \<open>mk\<close> makes the request, \<open>cl\<close> copies the sender.\<close>

definition request_of_send ::
  "('rx option \<Rightarrow> ('tx \<times> 'm) option \<Rightarrow> 'rq) \<Rightarrow> ('tx \<Rightarrow> 'c \<Rightarrow> ('tx \<times> 'c) exec) \<Rightarrow> ('m SendError + 'rx) \<times> 'tx \<times> 'c \<Rightarrow>
     ('rq \<times> 'tx \<times> 'c) exec" where
  "request_of_send mk cl res =
     (case res of (r, tx, c) \<Rightarrow>
        case r of
          Inr rx \<Rightarrow> Inr (mk (Some rx) None, tx, c)
        | Inl (Full msg) \<Rightarrow> bind_exec (cl tx c) (\<lambda>(tx', c'). Inr (mk None (Some (tx', msg)), tx, c'))
        | Inl (Closed _) \<Rightarrow> Inr (mk None None, tx, c))"

subsection \<open>Syn\<close>

definition syn_transport_send ::
  "('m \<Rightarrow> 'otx option \<Rightarrow> 'e) \<Rightarrow> task \<Rightarrow> 'otx \<times> 'rx \<Rightarrow> SyncAddressSender \<Rightarrow> 'm \<Rightarrow> 'e Chan \<Rightarrow>
     (('m SendError + 'rx) \<times> SyncAddressSender \<times> 'e Chan) exec" where
  "syn_transport_send pack cur oneshot tx msg c = sync_send pack cur oneshot msg tx c"

definition syn_do_send :: "('m \<Rightarrow> 'otx option \<Rightarrow> 'e) \<Rightarrow> SyncAddressSender \<Rightarrow> 'm \<Rightarrow> 'e Chan \<Rightarrow> 'e Chan exec" where
  "syn_do_send pack tx msg c = bind_exec (sync_do_send pack msg c) (\<lambda>(_, c'). Inr c')"

definition syn_try_send ::
  "('m \<Rightarrow> 'otx option \<Rightarrow> 'e) \<Rightarrow> task \<Rightarrow> SyncAddressSender \<Rightarrow> 'm \<Rightarrow> 'e Chan \<Rightarrow>
     (('m SendError + unit) \<times> SyncAddressSender \<times> 'e Chan) exec" where
  "syn_try_send pack cur tx msg c = sync_try_send pack cur msg False tx c"

definition syn_send ::
  "('m \<Rightarrow> 'otx option \<Rightarrow> 'e) \<Rightarrow> task \<Rightarrow> 'otx \<times> 'rx \<Rightarrow> SyncAddressSender \<Rightarrow> 'm \<Rightarrow> 'e Chan \<Rightarrow>
     ((SyncAddressSender, 'm, 'rx, 't) Request \<times> SyncAddressSender \<times> 'e Chan) exec" where
  "syn_send pack cur oneshot tx msg c =
     bind_exec (syn_transport_send pack cur oneshot tx msg c) (request_of_send request_new (\<lambda>_. sync_clone))"

definition syn_destination ::
  "('m \<Rightarrow> 'otx option \<Rightarrow> 'e) \<Rightarrow> task \<Rightarrow> 'otx \<times> 'rx \<Rightarrow> (SyncAddressSender, 'm, 'rx, 't, 'e Chan) MessageDestination" where
  "syn_destination pack cur oneshot =
     \<lparr>dst_connected = (\<lambda>_. sync_tx_connected), dst_do_send = syn_do_send pack, dst_try_send = syn_try_send pack cur,
      dst_send = syn_send pack cur oneshot, dst_clone = (\<lambda>_. sync_clone)\<rparr>"

text \<open>The trait object \<^verbatim>\<open>SyncSender\<close>: its \<^verbatim>\<open>try_send\<close> parks, \<^verbatim>\<open>boxed\<close> clones.\<close>

definition sync_sender_try_send ::
  "('m \<Rightarrow> 'otx option \<Rightarrow> 'e) \<Rightarrow> task \<Rightarrow> SyncAddressSender \<Rightarrow> 'm \<Rightarrow> 'e Chan \<Rightarrow>
     (('m SendError + unit) \<times> SyncAddressSender \<times> 'e Chan) exec" where
  "sync_sender_try_send pack cur tx msg c = sync_try_send pack cur msg True tx c"

definition syn_recipient ::
  "('m \<Rightarrow> 'otx option \<Rightarrow> 'e) \<Rightarrow> task \<Rightarrow> 'otx \<times> 'rx \<Rightarrow> (SyncAddressSender, 'm, ('m, 'rx, 't) SyncRecipientRequest, 'e Chan) MessageRecipient" where
  "syn_recipient pack cur oneshot =
     \<lparr>rcp_do_send = (\<lambda>_. sync_do_send pack), rcp_try_send = sync_sender_try_send pack cur,
      rcp_send = (\<lambda>tx msg c. bind_exec (sync_send pack cur oneshot msg tx c) (request_of_send srr_new (\<lambda>_. sync_clone))),
      rcp_clone = (\<lambda>_. sync_clone)\<rparr>"

subsection \<open>Unsync\<close>

text \<open>The sender is only a weak reference to the channel, so it has no state of its own.\<close>

definition unsync_do_send :: "('m \<Rightarrow> 'otx option \<Rightarrow> 'e) \<Rightarrow> unit \<Rightarrow> 'm \<Rightarrow> 'e RcShared \<Rightarrow> 'e RcShared exec" where
  "unsync_do_send pack tx msg u = Inr (snd (udo_send pack msg u))"

definition unsync_try_send ::
  "('m \<Rightarrow> 'otx option \<Rightarrow> 'e) \<Rightarrow> task \<Rightarrow> unit \<Rightarrow> 'm \<Rightarrow> 'e RcShared \<Rightarrow>
     (('m SendError + unit) \<times> unit \<times> 'e RcShared) exec" where
  "unsync_try_send pack cur tx msg u = (let (r, u') = utry_send pack cur msg False u in Inr (r, (), u'))"

definition unsync_clone :: "unit \<Rightarrow> 'e RcShared \<Rightarrow> (unit \<times> 'e RcShared) exec" where
  "unsync_clone tx u = Inr ((), uclone u)"

definition unsync_send ::
  "('m \<Rightarrow> 'otx option \<Rightarrow> 'e) \<Rightarrow> task \<Rightarrow> 'otx \<times> 'rx \<Rightarrow> unit \<Rightarrow> 'm \<Rightarrow> 'e RcShared \<Rightarrow>
     ((unit, 'm, 'rx, 't) Request \<times> unit \<times> 'e RcShared) exec" where
  "unsync_send pack cur oneshot tx msg u =
     bind_exec (unsync_transport_send pack cur oneshot tx msg u) (request_of_send request_new unsync_clone)"

definition unsync_destination ::
  "('m \<Rightarrow> 'otx option \<Rightarrow> 'e) \<Rightarrow> task \<Rightarrow> 'otx \<times> 'rx \<Rightarrow> (unit, 'm, 'rx, 't, 'e RcShared) MessageDestination" where
  "unsync_destination pack cur oneshot =
     \<lparr>dst_connected = (\<lambda>_. uconnected), dst_do_send = unsync_do_send pack, dst_try_send = unsync_try_send pack cur,
      dst_send = unsync_send pack cur oneshot, dst_clone = unsync_clone\<rparr>"

definition unsync_recipient ::
  "('m \<Rightarrow> 'otx option \<Rightarrow> 'e) \<Rightarrow> task \<Rightarrow> 'otx \<times> 'rx \<Rightarrow> (unit, 'm, ('m, 'rx, 't) UnsyncRecipientRequest, 'e RcShared) MessageRecipient" where
  "unsync_recipient pack cur oneshot =
     \<lparr>rcp_do_send = (\<lambda>_ msg u. Inr (udo_send pack msg u)),
      rcp_try_send = (\<lambda>_ msg u. let (r, u') = unsync_sender_try_send pack cur msg u in Inr (r, (), u')),
      rcp_send = (\<lambda>tx msg u. bind_exec (unsync_transport_send pack cur oneshot tx msg u) (request_of_send urr_new unsync_clone)),
      rcp_clone = unsync_clone\<rparr>"

subsection \<open>Addresses\<close>

record 'tx Addr =
  addr_tx :: 'tx

definition addr_new :: "'tx \<Rightarrow> 'tx Addr" where
  "addr_new tx = \<lparr>addr_tx = tx\<rparr>"

definition addr_connected :: "('tx, 'm, 'rx, 't, 'c) MessageDestination \<Rightarrow> 'tx Addr \<Rightarrow> 'c \<Rightarrow> bool" where
  "addr_connected D a c = dst_connected D (addr_tx a) c"

definition addr_do_send :: "('tx, 'm, 'rx, 't, 'c) MessageDestination \<Rightarrow> 'tx Addr \<Rightarrow> 'm \<Rightarrow> 'c \<Rightarrow> 'c exec" where
  "addr_do_send D a msg c = dst_do_send D (addr_tx a) msg c"

definition addr_send ::
  "('tx, 'm, 'rx, 't, 'c) MessageDestination \<Rightarrow> 'tx Addr \<Rightarrow> 'm \<Rightarrow> 'c \<Rightarrow>
     (('tx, 'm, 'rx, 't) Request \<times> 'tx Addr \<times> 'c) exec" where
  "addr_send D a msg c =
     bind_exec (dst_send D (addr_tx a) msg c) (\<lambda>(rq, tx, c'). Inr (rq, a\<lparr>addr_tx := tx\<rparr>, c'))"

definition addr_try_send ::
  "('tx, 'm, 'rx, 't, 'c) MessageDestination \<Rightarrow> 'tx Addr \<Rightarrow> 'm \<Rightarrow> 'c \<Rightarrow>
     (('m SendError + unit) \<times> 'tx Addr \<times> 'c) exec" where
  "addr_try_send D a msg c =
     bind_exec (dst_try_send D (addr_tx a) msg c) (\<lambda>(r, tx, c'). Inr (r, a\<lparr>addr_tx := tx\<rparr>, c'))"

definition addr_clone ::
  "('tx, 'm, 'rx, 't, 'c) MessageDestination \<Rightarrow> 'tx Addr \<Rightarrow> 'c \<Rightarrow> ('tx Addr \<times> 'c) exec" where
  "addr_clone D a c = bind_exec (dst_clone D (addr_tx a) c) (\<lambda>(tx, c'). Inr (\<lparr>addr_tx = tx\<rparr>, c'))"

record 'tx Recipient =
  rec_tx :: 'tx

definition recipient_new :: "'tx \<Rightarrow> 'tx Recipient" where
  "recipient_new tx = \<lparr>rec_tx = tx\<rparr>"

definition addr_recipient :: "'tx Addr \<Rightarrow> 'tx Recipient" where
  "addr_recipient a = recipient_new (addr_tx a)"

definition recipient_do_send ::
  "('tx, 'm, 'rq, 'c) MessageRecipient \<Rightarrow> 'tx Recipient \<Rightarrow> 'm \<Rightarrow> 'c \<Rightarrow> (('m SendError + unit) \<times> 'c) exec" where
  "recipient_do_send R a msg c = rcp_do_send R (rec_tx a) msg c"

definition recipient_try_send ::
  "('tx, 'm, 'rq, 'c) MessageRecipient \<Rightarrow> 'tx Recipient \<Rightarrow> 'm \<Rightarrow> 'c \<Rightarrow>
     (('m SendError + unit) \<times> 'tx Recipient \<times> 'c) exec" where
  "recipient_try_send R a msg c =
     bind_exec (rcp_try_send R (rec_tx a) msg c) (\<lambda>(r, tx, c'). Inr (r, a\<lparr>rec_tx := tx\<rparr>, c'))"

definition recipient_send ::
  "('tx, 'm, 'rq, 'c) MessageRecipient \<Rightarrow> 'tx Recipient \<Rightarrow> 'm \<Rightarrow> 'c \<Rightarrow>
     ('rq \<times> 'tx Recipient \<times> 'c) exec" where
  "recipient_send R a msg c =
     bind_exec (rcp_send R (rec_tx a) msg c) (\<lambda>(rq, tx, c'). Inr (rq, a\<lparr>rec_tx := tx\<rparr>, c'))"

definition recipient_clone ::
  "('tx, 'm, 'rq, 'c) MessageRecipient \<Rightarrow> 'tx Recipient \<Rightarrow> 'c \<Rightarrow> ('tx Recipient \<times> 'c) exec" where
  "recipient_clone R a c = bind_exec (rcp_clone R (rec_tx a) c) (\<lambda>(tx, c'). Inr (\<lparr>rec_tx = tx\<rparr>, c'))"

lemmas address_defs =
  addr_new_def addr_connected_def addr_do_send_def addr_send_def addr_try_send_def addr_clone_def recipient_new_def
  addr_recipient_def recipient_do_send_def recipient_try_send_def recipient_send_def recipient_clone_def
  syn_destination_def syn_recipient_def unsync_destination_def unsync_recipient_def syn_do_send_def syn_try_send_def
  syn_send_def syn_transport_send_def sync_sender_try_send_def unsync_do_send_def unsync_try_send_def unsync_send_def
  unsync_clone_def unsync_transport_send_def unsync_sender_try_send_def

subsection \<open>The three kinds of request agree\<close>

text \<open>The code of the three futures is the same; seen as a \<^verbatim>\<open>Request\<close> on the transport of its kind, a request of a recipient
  polls as one.\<close>

definition srr_request :: "('m, 'rx, 't) SyncRecipientRequest \<Rightarrow> (SyncAddressSender, 'm, 'rx, 't) Request" where
  "srr_request rq = \<lparr>rq_rx = srr_rx rq, rq_info = srr_info rq, rq_timeout = srr_timeout rq\<rparr>"

definition urr_request :: "('m, 'rx, 't) UnsyncRecipientRequest \<Rightarrow> (unit, 'm, 'rx, 't) Request" where
  "urr_request rq = \<lparr>rq_rx = urr_rx rq, rq_info = urr_info rq, rq_timeout = urr_timeout rq\<rparr>"

lemma srr_poll_rx_request:
  "request_poll_rx rxp tp (srr_request rq) w = bind_exec (srr_poll_rx rxp tp rq w) (\<lambda>(p, rq'). Inr (p, srr_request rq'))"
  by (auto simp: srr_poll_rx_def request_poll_rx_def srr_poll_timeout_def poll_timeout_def srr_request_def Let_def
      split: option.splits prod.splits sum.splits Async.splits)

lemma urr_poll_rx_request:
  "request_poll_rx rxp tp (urr_request rq) w = bind_exec (urr_poll_rx rxp tp rq w) (\<lambda>(p, rq'). Inr (p, urr_request rq'))"
  by (auto simp: urr_poll_rx_def request_poll_rx_def urr_poll_timeout_def poll_timeout_def urr_request_def Let_def
      split: option.splits prod.splits sum.splits Async.splits)

lemma srr_poll_request:
  "request_poll (syn_transport_send pack cur oneshot) sync_tx_drop rxp tp (srr_request rq) c w =
     bind_exec (srr_poll pack cur oneshot rxp tp rq c w) (\<lambda>(p, rq', c'). Inr (p, srr_request rq', c'))"
proof (cases "srr_info rq")
  case None
  then show ?thesis using srr_poll_rx_request [of rxp tp rq w]
    by (simp add: srr_poll_def request_poll_def srr_request_def bind_exec_assoc split_def)
next
  case (Some sm)
  obtain tx m where sm: "sm = (tx, m)" by (cases sm)
  have rx: "request_poll_rx rxp tp \<lparr>rq_rx = Some rx, rq_info = None, rq_timeout = srr_timeout rq\<rparr> w =
      bind_exec (srr_poll_rx rxp tp (rq\<lparr>srr_info := None, srr_rx := Some rx\<rparr>) w) (\<lambda>(p, rq'). Inr (p, srr_request rq'))" for rx
    using srr_poll_rx_request [of rxp tp "rq\<lparr>srr_info := None, srr_rx := Some rx\<rparr>" w] by (simp add: srr_request_def)
  have i: "rq_info (srr_request rq) = Some (tx, m)" using Some sm by (simp add: srr_request_def)
  show ?thesis
  proof (cases "sync_send pack cur oneshot m tx c")
    case (Inl x)
    then show ?thesis using Some sm i by (simp add: srr_poll_def request_poll_def Let_def syn_transport_send_def)
  next
    case (Inr a)
    obtain r tx' c1 where a: "a = (r, tx', c1)" by (metis prod_cases3)
    show ?thesis
    proof (cases r)
      case (Inl e)
      then show ?thesis using Some sm i Inr a
        by (cases e) (simp_all add: srr_poll_def request_poll_def Let_def srr_request_def syn_transport_send_def)
    next
      case (Inr rx1)
      then show ?thesis using Some sm i \<open>sync_send pack cur oneshot m tx c = Inr a\<close> a rx [of rx1]
        by (simp add: srr_poll_def request_poll_def Let_def srr_request_def bind_exec_assoc split_def syn_transport_send_def)
    qed
  qed
qed

lemma urr_poll_request:
  "request_poll (unsync_transport_send pack cur oneshot) utx_drop rxp tp (urr_request rq) c w =
     bind_exec (urr_poll pack cur oneshot rxp tp rq c w) (\<lambda>(p, rq', c'). Inr (p, urr_request rq', c'))"
proof (cases "urr_info rq")
  case None
  then show ?thesis using urr_poll_rx_request [of rxp tp rq w]
    by (simp add: urr_poll_def request_poll_def urr_request_def bind_exec_assoc split_def)
next
  case (Some sm)
  obtain tx m where sm: "sm = (tx, m)" by (cases sm)
  have rx: "request_poll_rx rxp tp \<lparr>rq_rx = Some rx, rq_info = None, rq_timeout = urr_timeout rq\<rparr> w =
      bind_exec (urr_poll_rx rxp tp (rq\<lparr>urr_info := None, urr_rx := Some rx\<rparr>) w) (\<lambda>(p, rq'). Inr (p, urr_request rq'))" for rx
    using urr_poll_rx_request [of rxp tp "rq\<lparr>urr_info := None, urr_rx := Some rx\<rparr>" w] by (simp add: urr_request_def)
  have i: "rq_info (urr_request rq) = Some (tx, m)" using Some sm by (simp add: urr_request_def)
  show ?thesis
  proof (cases "unsync_transport_send pack cur oneshot tx m c")
    case (Inl x)
    then show ?thesis using Some sm i by (simp add: urr_poll_def request_poll_def Let_def)
  next
    case (Inr a)
    obtain r tx' c1 where a: "a = (r, tx', c1)" by (metis prod_cases3)
    show ?thesis
    proof (cases r)
      case (Inl e)
      then show ?thesis using Some sm i Inr a
        by (cases e) (simp_all add: urr_poll_def request_poll_def Let_def urr_request_def)
    next
      case (Inr rx1)
      then show ?thesis using Some sm i \<open>unsync_transport_send pack cur oneshot tx m c = Inr a\<close> a rx [of rx1]
        by (simp add: urr_poll_def request_poll_def Let_def urr_request_def bind_exec_assoc split_def)
    qed
  qed
qed

section \<open>The life of a request\<close>

text \<open>
  A request polled again and again: the channel and the world as each poll finds them, the results
  and the channel as each poll leaves it.  Between two polls the channel may change in any way.
\<close>

fun request_polls ::
  "('tx \<Rightarrow> 'm \<Rightarrow> 'c \<Rightarrow> (('m SendError + 'rx) \<times> 'tx \<times> 'c) exec) \<Rightarrow> ('c \<Rightarrow> 'c) \<Rightarrow>
     ('rx \<Rightarrow> 'w \<Rightarrow> ('r, unit) Poll \<times> 'rx) \<Rightarrow> ('t \<Rightarrow> 'w \<Rightarrow> (unit, unit) Poll \<times> 't) \<Rightarrow>
     ('tx, 'm, 'rx, 't) Request \<Rightarrow> ('c \<times> 'w) list \<Rightarrow> (('r, MailboxError) Poll \<times> 'c) list exec" where
  "request_polls send txd rxp tp rq [] = Inr []"
| "request_polls send txd rxp tp rq ((c, w) # cws) =
     bind_exec (request_poll send txd rxp tp rq c w) (\<lambda>(p, rq', c').
       bind_exec (request_polls send txd rxp tp rq' cws) (\<lambda>l. Inr ((p, c') # l)))"

text \<open>The same for any kind of request, given its poll, and kinds that poll alike.\<close>

fun polls_of ::
  "('rq \<Rightarrow> 'c \<Rightarrow> 'w \<Rightarrow> (('r, MailboxError) Poll \<times> 'rq \<times> 'c) exec) \<Rightarrow> 'rq \<Rightarrow> ('c \<times> 'w) list \<Rightarrow> (('r, MailboxError) Poll \<times> 'c) list exec" where
  "polls_of poll rq [] = Inr []"
| "polls_of poll rq ((c, w) # cws) =
     bind_exec (poll rq c w) (\<lambda>(p, rq', c'). bind_exec (polls_of poll rq' cws) (\<lambda>l. Inr ((p, c') # l)))"

text \<open>What makes a future a kind of request: seen as a \<^verbatim>\<open>Request\<close> it polls as one.  Then its life is that of a \<^verbatim>\<open>Request\<close>.\<close>

locale request_kind =
  fixes poll :: "'rq \<Rightarrow> 'c \<Rightarrow> 'w \<Rightarrow> (('r, MailboxError) Poll \<times> 'rq \<times> 'c) exec"
    and as_request :: "'rq \<Rightarrow> ('tx, 'm, 'rx, 't) Request"
    and send :: "'tx \<Rightarrow> 'm \<Rightarrow> 'c \<Rightarrow> (('m SendError + 'rx) \<times> 'tx \<times> 'c) exec"
    and txd :: "'c \<Rightarrow> 'c"
    and rxp :: "'rx \<Rightarrow> 'w \<Rightarrow> ('r, unit) Poll \<times> 'rx"
    and tp :: "'t \<Rightarrow> 'w \<Rightarrow> (unit, unit) Poll \<times> 't"
  assumes poll_as_request: "request_poll send txd rxp tp (as_request rq) c w =
      bind_exec (poll rq c w) (\<lambda>(p, rq', c'). Inr (p, as_request rq', c'))"
begin

lemma polls_as_request: "request_polls send txd rxp tp (as_request rq) cws = polls_of poll rq cws"
proof (induction cws arbitrary: rq)
  case (Cons cw cws)
  then show ?case by (cases cw; cases "poll rq (fst cw) (snd cw)") (auto simp: poll_as_request split_def)
qed simp

end

interpretation addr_rq: request_kind "request_poll send txd rxp tp" "\<lambda>rq. rq" send txd rxp tp for send txd rxp tp
proof unfold_locales
  fix rq c w
  show "request_poll send txd rxp tp rq c w = bind_exec (request_poll send txd rxp tp rq c w) (\<lambda>(p, rq', c'). Inr (p, rq', c'))"
    by (cases "request_poll send txd rxp tp rq c w") auto
qed

interpretation sync_rq: request_kind "srr_poll pack cur oneshot rxp tp" srr_request "syn_transport_send pack cur oneshot" sync_tx_drop rxp tp
  for pack cur oneshot rxp tp
  by unfold_locales (rule srr_poll_request)

interpretation unsync_rq: request_kind "urr_poll pack cur oneshot rxp tp" urr_request "unsync_transport_send pack cur oneshot" utx_drop rxp tp
  for pack cur oneshot rxp tp
  by unfold_locales (rule urr_poll_request)

text \<open>
  What a life should look like: polls that leave the message with the request, at most one that
  puts it on the channel or finds the channel closed, then polls that do not touch the channel.
\<close>

inductive one_delivery ::
  "('c \<Rightarrow> 'c \<Rightarrow> bool) \<Rightarrow> ('c \<Rightarrow> 'c \<Rightarrow> bool) \<Rightarrow> ('c \<times> 'w) list \<Rightarrow> (('r, MailboxError) Poll \<times> 'c) list \<Rightarrow> bool"
  for keeps delivers where
  unsent: "one_delivery keeps delivers [] []"
| waits: "keeps c c' \<Longrightarrow> one_delivery keeps delivers cws l \<Longrightarrow>
    one_delivery keeps delivers ((c, w) # cws) ((PNotReady, c') # l)"
| delivered: "delivers c c' \<Longrightarrow> map snd l = map fst cws \<Longrightarrow>
    one_delivery keeps delivers ((c, w) # cws) ((p, c') # l)"
| closed: "keeps c c' \<Longrightarrow> map snd l = map fst cws \<Longrightarrow>
    one_delivery keeps delivers ((c, w) # cws) ((PErr MailboxClosed, c') # l)"

definition timer_ok :: "('t \<Rightarrow> 'w \<Rightarrow> (unit, unit) Poll \<times> 't) \<Rightarrow> bool" where
  "timer_ok tp \<longleftrightarrow> (\<forall>t w. fst (tp t w) \<noteq> PErr ())"

lemma poll_rx_total:
  assumes "timer_ok tp"
  shows "\<exists>p rq'. request_poll_rx rxp tp rq w = Inr (p, rq') \<and> rq_info rq' = rq_info rq"
proof -
  have t: "\<exists>p rq'. poll_timeout tp rq w = Inr (p, rq') \<and> rq_info rq' = rq_info rq" for rq
    using assms by (auto simp: poll_timeout_def timer_ok_def split: option.splits prod.splits sum.splits Async.splits)
      (metis fst_conv old.unit.exhaust)
  show ?thesis
  proof (cases "rq_rx rq")
    case (Some rx)
    obtain r rx' where "rxp rx w = (r, rx')" by force
    then show ?thesis using Some t [of "rq\<lparr>rq_rx := Some rx'\<rparr>"]
      by (cases r rule: poll_exhaust) (auto simp: request_poll_rx_def)
  qed (simp add: request_poll_rx_def)
qed

text \<open>The messages on the channel stay, or get one more at the end.\<close>

definition queue_kept :: "('c \<Rightarrow> 'e list \<Rightarrow> bool) \<Rightarrow> nat \<Rightarrow> 'c \<Rightarrow> 'c \<Rightarrow> bool" where
  "queue_kept queued limit c c' \<longleftrightarrow> (\<forall>ms. queued c ms \<longrightarrow> length ms < limit \<longrightarrow> queued c' ms)"

definition queue_extended :: "('c \<Rightarrow> 'e list \<Rightarrow> bool) \<Rightarrow> nat \<Rightarrow> 'e \<Rightarrow> 'c \<Rightarrow> 'c \<Rightarrow> bool" where
  "queue_extended queued limit e c c' \<longleftrightarrow> (\<forall>ms. queued c ms \<longrightarrow> length ms < limit \<longrightarrow> queued c' (ms @ [e]))"

text \<open>What the future needs of the transport.\<close>

locale transport =
  fixes send :: "'tx \<Rightarrow> 'm \<Rightarrow> 'c \<Rightarrow> (('m SendError + 'rx) \<times> 'tx \<times> 'c) exec"
    and txd :: "'c \<Rightarrow> 'c"
    and queued :: "'c \<Rightarrow> 'e list \<Rightarrow> bool"
    and packed :: "'m \<Rightarrow> 'e"
    and limit :: nat
  assumes send_total: "queued c ms \<Longrightarrow> length ms < limit \<Longrightarrow> \<exists>r tx' c'. send tx m c = Inr (r, tx', c') \<and>
      (case r of Inr _ \<Rightarrow> queued c' (ms @ [packed m]) | Inl e \<Rightarrow> send_error_into_inner e = m \<and> queued c' ms)"
    and drop_keeps: "queued c ms \<Longrightarrow> queued (txd c) ms"
begin

abbreviation keeps :: "'c \<Rightarrow> 'c \<Rightarrow> bool" where
  "keeps \<equiv> queue_kept queued limit"

abbreviation delivers :: "'m \<Rightarrow> 'c \<Rightarrow> 'c \<Rightarrow> bool" where
  "delivers m \<equiv> queue_extended queued limit (packed m)"

lemma send_cases:
  assumes "queued c ms" and "length ms < limit"
  obtains rx tx' c' where "send tx m c = Inr (Inr rx, tx', c')" "delivers m c c'"
  | tx' c' where "send tx m c = Inr (Inl (Full m), tx', c')" "keeps c c'"
  | tx' c' where "send tx m c = Inr (Inl (Closed m), tx', c')" "keeps c c'"
proof -
  obtain r tx' c' where s: "send tx m c = Inr (r, tx', c')" using send_total [OF assms] by blast
  have all: "case r of Inr _ \<Rightarrow> queued c' (ms @ [packed m]) | Inl e \<Rightarrow> send_error_into_inner e = m \<and> queued c' ms"
    if "queued c ms" "length ms < limit" for ms
    using send_total [OF that, of tx m] s by auto
  show thesis
  proof (cases r)
    case (Inr rx)
    then have "delivers m c c'" using all by (auto simp: queue_extended_def)
    then show thesis using that(1) s Inr by blast
  next
    case (Inl e)
    then have "keeps c c'" "send_error_into_inner e = m" using all assms by (auto simp: queue_kept_def)
    then show thesis using that(2,3) s Inl by (cases e) auto
  qed
qed

lemma polls_after:
  assumes "timer_ok tp"
  shows "rq_info rq = None \<Longrightarrow> \<exists>l. request_polls send txd rxp tp rq cws = Inr l \<and> map snd l = map fst cws"
proof (induction cws arbitrary: rq)
  case (Cons cw cws)
  obtain c w where cw: "cw = (c, w)" by force
  obtain p rq' where 1: "request_poll_rx rxp tp rq w = Inr (p, rq')" "rq_info rq' = None"
    using poll_rx_total [OF assms, of rxp rq w] Cons.prems by auto
  then show ?case using Cons.IH [OF 1(2)] Cons.prems cw by (auto simp: request_poll_def)
qed simp

lemma one_life:
  assumes "timer_ok tp"
  shows "\<lbrakk>rq_info rq = Some (tx, m); \<forall>(c, w) \<in> set cws. \<exists>ms. queued c ms \<and> length ms < limit\<rbrakk> \<Longrightarrow>
    \<exists>l. request_polls send txd rxp tp rq cws = Inr l \<and> one_delivery keeps (delivers m) cws l"
proof (induction cws arbitrary: rq tx)
  case Nil
  then show ?case by (auto intro: unsent)
next
  case (Cons cw cws)
  obtain c w where cw: "cw = (c, w)" by force
  obtain ms where ms: "queued c ms" "length ms < limit" using Cons.prems(2) cw by auto
  show ?case
  proof (rule send_cases [OF ms, of tx m])
    fix rx tx' c'
    assume s: "send tx m c = Inr (Inr rx, tx', c')" "delivers m c c'"
    obtain p rq' where 1: "request_poll_rx rxp tp (rq\<lparr>rq_info := None, rq_rx := Some rx\<rparr>) w = Inr (p, rq')" "rq_info rq' = None"
      using poll_rx_total [OF assms, of rxp "rq\<lparr>rq_info := None, rq_rx := Some rx\<rparr>" w] by auto
    obtain l where "request_polls send txd rxp tp rq' cws = Inr l" "map snd l = map fst cws"
      using polls_after [OF assms 1(2)] by blast
    moreover have "delivers m c (txd c')" using s(2) drop_keeps by (auto simp: queue_extended_def)
    ultimately show ?thesis using s(1) 1(1) Cons.prems(1) cw by (auto simp: request_poll_def intro!: delivered)
  next
    fix tx' c'
    assume s: "send tx m c = Inr (Inl (Full m), tx', c')" "keeps c c'"
    then show ?thesis using Cons.IH [of "rq\<lparr>rq_info := Some (tx', m)\<rparr>" tx'] Cons.prems cw
      by (auto simp: request_poll_def intro!: waits)
  next
    fix tx' c'
    assume s: "send tx m c = Inr (Inl (Closed m), tx', c')" "keeps c c'"
    obtain l where "request_polls send txd rxp tp (rq\<lparr>rq_info := None\<rparr>) cws = Inr l" "map snd l = map fst cws"
      using polls_after [OF assms, of "rq\<lparr>rq_info := None\<rparr>"] by auto
    moreover have "keeps c (txd c')" using s(2) drop_keeps by (auto simp: queue_kept_def)
    ultimately show ?thesis using s(1) Cons.prems(1) cw by (auto simp: request_poll_def intro!: closed)
  qed
qed

end

text \<open>Both transports keep the contract.\<close>

definition syn_queued :: "'e Chan \<Rightarrow> 'e list \<Rightarrow> bool" where
  "syn_queued c ms \<longleftrightarrow> (\<exists>ps. chan_wf c ms ps)"

definition unsync_queued :: "'e RcShared \<Rightarrow> 'e list \<Rightarrow> bool" where
  "unsync_queued u ms \<longleftrightarrow> (case rc_value u of None \<Rightarrow> ms = [] | Some sh \<Rightarrow> buffer sh = ms)"

lemma sync_tx_drop_wf: "chan_wf c ms ps \<Longrightarrow> chan_wf (sync_tx_drop c) ms ps"
  by (auto simp: sync_tx_drop_def chan_wf_def signal_def chan_open_def msg_count_def Let_def)

interpretation st: transport "syn_transport_send pack cur (otx, rx)" sync_tx_drop syn_queued "\<lambda>m. pack m (Some otx)" "2 ^ 63 - 1"
  for pack :: "'m \<Rightarrow> 'otx option \<Rightarrow> 'e" and cur and otx and rx :: 'rx
proof unfold_locales
  fix c :: "'e Chan" and ms tx m
  assume "syn_queued c ms" and l: "length ms < 2 ^ 63 - 1"
  then obtain ps where wf: "chan_wf c ms ps" by (auto simp: syn_queued_def)
  have l': "length ms + 1 < 2 ^ 63" using l by simp
  consider "sender_blocked tx c" | "\<not> sender_blocked tx c" "\<not> chan_open c"
    | "\<not> sender_blocked tx c" "chan_open c" "chan_full c"
    | "\<not> sender_blocked tx c" "chan_open c" "\<not> chan_full c" by blast
  then show "\<exists>r tx' c'. syn_transport_send pack cur (otx, rx) tx m c = Inr (r, tx', c') \<and>
      (case r of Inl e \<Rightarrow> send_error_into_inner e = m \<and> syn_queued c' ms | Inr _ \<Rightarrow> syn_queued c' (ms @ [pack m (Some otx)]))"
  proof cases
    case 1
    then show ?thesis using wf by (auto simp: syn_transport_send_def sync_send_blocked syn_queued_def chan_wf_def chan_open_def msg_count_def)
  next
    case 2
    then show ?thesis using wf by (auto simp: syn_transport_send_def sync_send_closed syn_queued_def)
  next
    case 3
    then show ?thesis using sync_send_full [OF wf 3, of pack cur "(otx, rx)" m]
      by (auto simp: syn_transport_send_def syn_queued_def)
  next
    case 4
    then show ?thesis using sync_send_room [OF wf 4 l', of pack cur otx rx m]
      by (auto simp: syn_transport_send_def syn_queued_def)
  qed
qed (auto simp: syn_queued_def intro: sync_tx_drop_wf)

interpretation ut: transport "unsync_transport_send pack cur (otx, rx)" utx_drop unsync_queued "\<lambda>m. pack m (Some otx)" limit
  for pack cur otx rx limit
  by unfold_locales (auto simp: unsync_transport_send_def unsync_queued_def usend_def upush_def wake_def utx_drop_def
      split: option.splits)

section \<open>Properties\<close>


definition one_slot :: "nat RcShared" where
  "one_slot = \<lparr>rc_value = Some \<lparr>buffer = [7], capacity = 1, blocked_senders = [], blocked_recv = None\<rparr>,
     rc_weak = 1, rc_woken = []\<rparr>"

definition never :: "'a \<Rightarrow> unit \<Rightarrow> (unit, unit) Poll \<times> 'a" where
  "never x w = (PNotReady, x)"




text \<open>A timeout does not run while the mailbox is full: a poll that finds the mailbox full is pending,
  also when the timer of the request has already fired.  The timer is looked at only once the
  message is in the mailbox.\<close>

theorem full_mailbox_ignores_timeout:
  assumes "chan_wf c ms ps" and "\<not> sender_blocked tx c" and "chan_open c" and "chan_full c"
    and "\<And>w. tp timer w = (PReady (), timer')"
  shows "\<exists>rq' c'. request_poll (syn_transport_send pack cur (otx, rx)) sync_tx_drop rxp tp
      (request_timeout timer (request_new None (Some (tx, m)))) c w = Inr (PNotReady, rq', c') \<and> rq_timeout rq' = Some timer \<and>
    poll_timeout tp rq' w = Inr (PErr MailboxTimeout, rq'\<lparr>rq_timeout := Some timer'\<rparr>)"
  using sync_send_full [OF assms(1-4), of pack cur "(otx, rx)" m] assms(5)
  by (auto simp: request_poll_def request_timeout_def request_new_def syn_transport_send_def poll_timeout_def)

definition fired :: "unit \<Rightarrow> unit \<Rightarrow> (unit, unit) Poll \<times> unit" where
  "fired t w = (PReady (), t)"

theorem full_mailbox_ignores_timeout_witness:
  "\<exists>c rq' c'. sync_do_send (\<lambda>m (tx :: unit option). m) 1 example_chan = Inr (Inr (), c) \<and>
     request_poll (syn_transport_send (\<lambda>m tx. m) 3 ((), ())) sync_tx_drop never fired
       (request_timeout () (request_new None (Some (\<lparr>s_cell = 0, s_maybe_parked = False\<rparr>, 42)))) c () =
       Inr (PNotReady :: (unit, MailboxError) Poll, rq', c') \<and> rq_timeout rq' = Some ()"
proof -
  let ?s = "\<lparr>s_cell = 0, s_maybe_parked = False\<rparr>"
  obtain c where c: "sync_do_send (\<lambda>m (tx :: unit option). m) 1 example_chan = Inr (Inr (), c)" "chan_wf c [1] []" "chan_open c"
    "i_buffer c = i_buffer example_chan" "ch_cells c = ch_cells example_chan"
    using sync_do_send_open [OF example_chan_wf(1,2), of "\<lambda>m (tx :: unit option). m" 1] by auto
  have f: "chan_full c" "\<not> sender_blocked ?s c"
    using c by (auto simp: chan_full_def chan_wfD(3) example_chan_def sender_blocked_def)
  from full_mailbox_ignores_timeout [OF c(2) f(2) c(3) f(1), of fired "()" "()" "\<lambda>m tx. m" 3 "()" "()" never 42 "()"] c(1)
  show ?thesis by (auto simp: fired_def)
qed

text \<open>\<^verbatim>\<open>try_send\<close> of an address and of a recipient differ when the mailbox is full: both fail with the
  message, but only the recipient registers the current task to be notified of a free
  slot.\<close>

theorem try_send_registers_only_recipient:
  assumes "rc_value u = Some sh" and "capacity sh \<noteq> 0" and "unat (capacity sh) \<le> length (buffer sh)"
  shows "addr_try_send (unsync_destination pack cur oneshot) (addr_new ()) m u = Inr (Inl (Full m), addr_new (), u) \<and>
    (\<exists>u'. recipient_try_send (unsync_recipient pack cur oneshot) (addr_recipient (addr_new ())) m u =
        Inr (Inl (Full m), addr_recipient (addr_new ()), u') \<and>
      (\<exists>sh'. rc_value u' = Some sh' \<and> blocked_senders sh' = blocked_senders sh @ [cur] \<and> buffer sh' = buffer sh))"
  using assms by (auto simp: address_defs utry_send_def)

theorem try_send_registers_only_recipient_witness:
  "addr_try_send (unsync_destination (\<lambda>m _. m) 5 ((), ()) :: (unit, nat, unit, unit, nat RcShared) MessageDestination)
     (addr_new ()) 42 one_slot = Inr (Inl (Full 42), addr_new (), one_slot)"
  by (rule try_send_registers_only_recipient [THEN conjunct1, of _ "the (rc_value one_slot)"]) (simp_all add: one_slot_def)

end
