(* ===== verification/Io_Writer.thy ===== *)
theory Io_Writer
  imports Handlers
begin

text \<open>
  Buffered writers of an actor (\<^verbatim>\<open>src/io.rs\<close>): \<^verbatim>\<open>Writer\<close> and \<^verbatim>\<open>FramedWrite\<close>, the future that writes the
  buffer out (\<^verbatim>\<open>WriterFut\<close>) and the one the context waits for while the buffer is above the high
  watermark (\<^verbatim>\<open>WriterDrain\<close>).  All share one \<^verbatim>\<open>InnerWriter\<close> through an \<^verbatim>\<open>Rc<UnsafeCell>\<close>; the user's
  callbacks can reach it too, so it is passed to them and back.  The sink (\<^verbatim>\<open>AsyncWrite\<close>) and the encoder
  (crate \<^verbatim>\<open>tokio-io\<close>) are parameters.
\<close>

unbundle bit_operations_syntax

section \<open>State\<close>

definition CLOSING :: u8 where "CLOSING = 0b00000001"

definition CLOSED :: u8 where "CLOSED = 0b00000010"

definition LOW_WATERMARK :: usize where
  "LOW_WATERMARK = 4 * 1024"

definition HIGH_WATERMARK :: usize where
  "HIGH_WATERMARK = 4 * LOW_WATERMARK"

text \<open>\<^verbatim>\<open>io::Error\<close>, by the kinds the code looks at.\<close>

datatype io_error = WouldBlock | WriteZero | OtherError nat

record ('io, 'er) InnerWriter =
  iw_flags :: u8
  iw_io :: 'io
  iw_buffer :: "u8 list"
  iw_error :: "'er option"
  iw_low :: usize
  iw_high :: usize
  iw_handle :: SpawnHandle

text \<open>
  The environment of a writer: the sink, the conversion of its errors, the \<^verbatim>\<open>WriteHandler\<close> of the actor,
  and the boxed futures the context is given.
\<close>

record ('io, 'er, 'w, 'f, 'e) writer_env =
  io_write :: "'io \<Rightarrow> u8 list \<Rightarrow> (io_error + usize) \<times> 'io"
  io_flush :: "'io \<Rightarrow> (io_error + unit) \<times> 'io"
  io_into :: "io_error \<Rightarrow> 'er"
  wh_error :: "'er \<Rightarrow> ('io, 'er) InnerWriter \<Rightarrow> 'w \<Rightarrow> ('f, 'e, Running \<times> ('io, 'er) InnerWriter \<times> 'w) code"
  wh_finished :: "('io, 'er) InnerWriter \<Rightarrow> 'w \<Rightarrow> ('f, 'e, ('io, 'er) InnerWriter \<times> 'w) code"
  fut_box :: 'f
  drain_box :: 'f

text \<open>The default methods of \<^verbatim>\<open>WriteHandler\<close>.\<close>

definition default_write_error ::
  "'er \<Rightarrow> ('io, 'er) InnerWriter \<Rightarrow> 'w \<Rightarrow> ('f, 'e, Running \<times> ('io, 'er) InnerWriter \<times> 'w) code" where
  "default_write_error err iw w = Return (Stop, iw, w)"

definition default_write_finished ::
  "('io, 'er) InnerWriter \<Rightarrow> 'w \<Rightarrow> ('f, 'e, ('io, 'er) InnerWriter \<times> 'w) code" where
  "default_write_finished iw w = CtxStop (Return (iw, w))"

section \<open>Writer\<close>

definition inner_writer :: "'io \<Rightarrow> u8 list \<Rightarrow> ('io, 'er) InnerWriter" where
  "inner_writer io buf =
     \<lparr>iw_flags = 0, iw_io = io, iw_buffer = buf, iw_error = None, iw_low = LOW_WATERMARK, iw_high = HIGH_WATERMARK,
      iw_handle = handle_default\<rparr>"

definition writer_new :: "('io, 'er, 'w, 'f, 'e) writer_env \<Rightarrow> 'io \<Rightarrow> ('f, 'e, ('io, 'er) InnerWriter) code" where
  "writer_new env io = CtxSpawn (fut_box env) (\<lambda>h. Return ((inner_writer io [])\<lparr>iw_handle := h\<rparr>))"

definition writer_close :: "('io, 'er) InnerWriter \<Rightarrow> ('io, 'er) InnerWriter" where
  "writer_close iw = iw\<lparr>iw_flags := flag_insert (iw_flags iw) CLOSING\<rparr>"

definition writer_closed :: "('io, 'er) InnerWriter \<Rightarrow> bool" where
  "writer_closed iw = flag_contains (iw_flags iw) CLOSED"

definition writer_set_buffer_capacity :: "usize \<Rightarrow> usize \<Rightarrow> ('io, 'er) InnerWriter \<Rightarrow> ('io, 'er) InnerWriter" where
  "writer_set_buffer_capacity low high iw = iw\<lparr>iw_low := low, iw_high := high\<rparr>"

definition writer_write :: "u8 list \<Rightarrow> ('io, 'er) InnerWriter \<Rightarrow> ('io, 'er) InnerWriter" where
  "writer_write msg iw = iw\<lparr>iw_buffer := iw_buffer iw @ msg\<rparr>"

definition writer_handle :: "('io, 'er) InnerWriter \<Rightarrow> SpawnHandle" where
  "writer_handle iw = iw_handle iw"

section \<open>The writing future\<close>

text \<open>Report an error: \<open>fin\<close> is returned when the actor answers \<^verbatim>\<open>Stop\<close>, \<open>k\<close> goes on otherwise.\<close>

definition report_error ::
  "('io, 'er, 'w, 'f, 'e) writer_env \<Rightarrow> 'r \<Rightarrow> 'er \<Rightarrow> ('io, 'er) InnerWriter \<Rightarrow> 'w \<Rightarrow>
     (('io, 'er) InnerWriter \<Rightarrow> 'w \<Rightarrow> ('f, 'e, 'r \<times> ('io, 'er) InnerWriter \<times> 'w) code) \<Rightarrow>
     ('f, 'e, 'r \<times> ('io, 'er) InnerWriter \<times> 'w) code" where
  "report_error env fin err iw w k =
     code_bind (wh_error env err iw w) (\<lambda>(running, iw1, w1).
       if running = Stop
       then code_bind (wh_finished env iw1 w1) (\<lambda>(iw2, w2). Return (fin, iw2, w2))
       else k iw1 w1)"

text \<open>\<^verbatim>\<open>BytesMut::split_to(n)\<close>, which panics when there are fewer than \<open>n\<close> bytes.\<close>

definition split_to :: "usize \<Rightarrow> ('io, 'er) InnerWriter \<Rightarrow> ('io, 'er) InnerWriter option" where
  "split_to n iw = (if unat n \<le> length (iw_buffer iw) then Some (iw\<lparr>iw_buffer := drop (unat n) (iw_buffer iw)\<rparr>) else None)"

text \<open>The loop over the buffer; \<open>None\<close> when it ends with an empty buffer.\<close>

fun writer_loop ::
  "('io, 'er, 'w, 'f, 'e) writer_env \<Rightarrow> nat \<Rightarrow> ('io, 'er) InnerWriter \<Rightarrow> 'w \<Rightarrow>
     ('f, 'e, (unit, unit) Poll option \<times> ('io, 'er) InnerWriter \<times> 'w) code" where
  "writer_loop env 0 iw w = Fault OutOfFuel"
| "writer_loop env (Suc k) iw w =
     (if iw_buffer iw = [] then Return (None, iw, w)
      else case io_write env (iw_io iw) (iw_buffer iw) of (r, io') \<Rightarrow>
        (let iw1 = iw\<lparr>iw_io := io'\<rparr>;
             advance = (\<lambda>n iw2 w2. case split_to n iw2 of None \<Rightarrow> Fault Panicked | Some iw3 \<Rightarrow> writer_loop env k iw3 w2)
         in case r of
              Inr n \<Rightarrow>
                if n = 0 then report_error env (Some (PReady ())) (io_into env WriteZero) iw1 w (advance n) else advance n iw1 w
            | Inl WouldBlock \<Rightarrow>
                if unat (iw_high iw1) < length (iw_buffer iw1)
                then CtxWait (drain_box env) (Return (Some PNotReady, iw1, w))
                else Return (Some PNotReady, iw1, w)
            | Inl e \<Rightarrow> report_error env (Some (PReady ())) (io_into env e) iw1 w (writer_loop env k)))"

text \<open>Close if closing and there is nothing to flush.\<close>

definition writer_finish ::
  "('io, 'er, 'w, 'f, 'e) writer_env \<Rightarrow> ('io, 'er) InnerWriter \<Rightarrow> 'w \<Rightarrow>
     ('f, 'e, (unit, unit) Poll \<times> ('io, 'er) InnerWriter \<times> 'w) code" where
  "writer_finish env iw w =
     (if flag_contains (iw_flags iw) CLOSING
      then code_bind (wh_finished env (iw\<lparr>iw_flags := iw_flags iw OR CLOSED\<rparr>) w) (\<lambda>(iw2, w2). Return (PReady (), iw2, w2))
      else Return (PNotReady, iw, w))"

definition writer_flush ::
  "('io, 'er, 'w, 'f, 'e) writer_env \<Rightarrow> ('io, 'er) InnerWriter \<Rightarrow> 'w \<Rightarrow>
     ('f, 'e, (unit, unit) Poll \<times> ('io, 'er) InnerWriter \<times> 'w) code" where
  "writer_flush env iw w =
     (case io_flush env (iw_io iw) of (r, io') \<Rightarrow>
        (let iw1 = iw\<lparr>iw_io := io'\<rparr> in
         case r of
           Inr _ \<Rightarrow> writer_finish env iw1 w
         | Inl WouldBlock \<Rightarrow> Return (PNotReady, iw1, w)
         | Inl e \<Rightarrow> report_error env (PReady ()) (io_into env e) iw1 w (writer_finish env)))"

definition writer_work ::
  "('io, 'er, 'w, 'f, 'e) writer_env \<Rightarrow> nat \<Rightarrow> ('io, 'er) InnerWriter \<Rightarrow> 'w \<Rightarrow>
     ('f, 'e, (unit, unit) Poll \<times> ('io, 'er) InnerWriter \<times> 'w) code" where
  "writer_work env k iw w =
     code_bind (writer_loop env k iw w) (\<lambda>(r, iw1, w1).
       case r of Some p \<Rightarrow> Return (p, iw1, w1) | None \<Rightarrow> writer_flush env iw1 w1)"

definition writer_fut_poll ::
  "('io, 'er, 'w, 'f, 'e) writer_env \<Rightarrow> nat \<Rightarrow> ('io, 'er) InnerWriter \<Rightarrow> 'w \<Rightarrow>
     ('f, 'e, (unit, unit) Poll \<times> ('io, 'er) InnerWriter \<times> 'w) code" where
  "writer_fut_poll env k iw w =
     (let iw0 = iw\<lparr>iw_error := None\<rparr> in
      case iw_error iw of
        Some err \<Rightarrow> report_error env (PReady ()) err iw0 w (writer_work env k)
      | None \<Rightarrow> writer_work env k iw0 w)"

section \<open>The draining future\<close>

fun writer_drain_loop ::
  "('io, 'er, 'w, 'f, 'e) writer_env \<Rightarrow> nat \<Rightarrow> ('io, 'er) InnerWriter \<Rightarrow>
     ((unit, unit) Poll \<times> ('io, 'er) InnerWriter) exec" where
  "writer_drain_loop env 0 iw = Inl OutOfFuel"
| "writer_drain_loop env (Suc k) iw =
     (if iw_buffer iw = [] then Inr (PReady (), iw)
      else case io_write env (iw_io iw) (iw_buffer iw) of (r, io') \<Rightarrow>
        (let iw1 = iw\<lparr>iw_io := io'\<rparr> in
         case r of
           Inr n \<Rightarrow>
             if n = 0 then Inr (PErr (), iw1\<lparr>iw_error := Some (io_into env WriteZero)\<rparr>)
             else (case split_to n iw1 of None \<Rightarrow> Inl Panicked | Some iw2 \<Rightarrow> writer_drain_loop env k iw2)
         | Inl WouldBlock \<Rightarrow>
             if length (iw_buffer iw1) < unat (iw_low iw1) then Inr (PReady (), iw1) else Inr (PNotReady, iw1)
         | Inl e \<Rightarrow> Inr (PErr (), iw1\<lparr>iw_error := Some (io_into env e)\<rparr>)))"

definition writer_drain_poll ::
  "('io, 'er, 'w, 'f, 'e) writer_env \<Rightarrow> nat \<Rightarrow> ('io, 'er) InnerWriter \<Rightarrow>
     ((unit, unit) Poll \<times> ('io, 'er) InnerWriter) exec" where
  "writer_drain_poll env k iw = (if iw_error iw \<noteq> None then Inr (PReady (), iw) else writer_drain_loop env k iw)"

section \<open>Framed writers\<close>

record ('u, 'io, 'er) FramedWrite =
  fw_enc :: 'u
  fw_inner :: "('io, 'er) InnerWriter"

definition framed_new ::
  "('io, 'er, 'w, 'f, 'e) writer_env \<Rightarrow> 'io \<Rightarrow> 'u \<Rightarrow> ('f, 'e, ('u, 'io, 'er) FramedWrite) code" where
  "framed_new env io enc =
     CtxSpawn (fut_box env) (\<lambda>h. Return \<lparr>fw_enc = enc, fw_inner = (inner_writer io [])\<lparr>iw_handle := h\<rparr>\<rparr>)"

definition framed_from_buffer ::
  "('io, 'er, 'w, 'f, 'e) writer_env \<Rightarrow> 'io \<Rightarrow> 'u \<Rightarrow> u8 list \<Rightarrow> ('f, 'e, ('u, 'io, 'er) FramedWrite) code" where
  "framed_from_buffer env io enc buf =
     CtxSpawn (fut_box env) (\<lambda>h. Return \<lparr>fw_enc = enc, fw_inner = (inner_writer io buf)\<lparr>iw_handle := h\<rparr>\<rparr>)"

text \<open>\<open>encode\<close> appends to the buffer and may fail; its error is kept for the next poll.\<close>

definition framed_write ::
  "('u \<Rightarrow> 'i \<Rightarrow> u8 list \<Rightarrow> ('er + unit) \<times> 'u \<times> u8 list) \<Rightarrow> 'i \<Rightarrow> ('u, 'io, 'er) FramedWrite \<Rightarrow> ('u, 'io, 'er) FramedWrite" where
  "framed_write encode item fw =
     (case encode (fw_enc fw) item (iw_buffer (fw_inner fw)) of (r, enc', buf) \<Rightarrow>
        (let iw1 = (fw_inner fw)\<lparr>iw_buffer := buf\<rparr> in
         \<lparr>fw_enc = enc', fw_inner = (case r of Inr _ \<Rightarrow> iw1 | Inl e \<Rightarrow> iw1\<lparr>iw_error := Some e\<rparr>)\<rparr>))"

definition framed_handle :: "('u, 'io, 'er) FramedWrite \<Rightarrow> SpawnHandle" where
  "framed_handle fw = iw_handle (fw_inner fw)"

definition framed_close :: "('u, 'io, 'er) FramedWrite \<Rightarrow> ('u, 'io, 'er) FramedWrite" where
  "framed_close fw = fw\<lparr>fw_inner := (fw_inner fw)\<lparr>iw_flags := flag_insert (iw_flags (fw_inner fw)) CLOSING\<rparr>\<rparr>"

definition framed_closed :: "('u, 'io, 'er) FramedWrite \<Rightarrow> bool" where
  "framed_closed fw = flag_contains (iw_flags (fw_inner fw)) CLOSED"

definition framed_set_buffer_capacity :: "usize \<Rightarrow> usize \<Rightarrow> ('u, 'io, 'er) FramedWrite \<Rightarrow> ('u, 'io, 'er) FramedWrite" where
  "framed_set_buffer_capacity low high fw = fw\<lparr>fw_inner := (fw_inner fw)\<lparr>iw_low := low, iw_high := high\<rparr>\<rparr>"

section \<open>Outcomes of user code\<close>

text \<open>
  \<open>code_all P k\<close>: however the calls that \<open>k\<close> makes on the context are answered, it does not panic by
  itself, and the value it returns satisfies \<open>P\<close>.
\<close>

primrec code_all :: "('r \<Rightarrow> bool) \<Rightarrow> ('f, 'e, 'r) code \<Rightarrow> bool" where
  "code_all P (Return r) \<longleftrightarrow> P r"
| "code_all P (Fault x) \<longleftrightarrow> x = OutOfFuel"
| "code_all P (CtxStop k) \<longleftrightarrow> code_all P k"
| "code_all P (CtxTerminate k) \<longleftrightarrow> code_all P k"
| "code_all P (CtxState k) \<longleftrightarrow> (\<forall>s. code_all P (k s))"
| "code_all P (CtxWaiting k) \<longleftrightarrow> (\<forall>b. code_all P (k b))"
| "code_all P (CtxHandle k) \<longleftrightarrow> (\<forall>h. code_all P (k h))"
| "code_all P (CtxSpawn f k) \<longleftrightarrow> (\<forall>h. code_all P (k h))"
| "code_all P (CtxWait f k) \<longleftrightarrow> code_all P k"
| "code_all P (CtxCancel h k) \<longleftrightarrow> (\<forall>b. code_all P (k b))"
| "code_all P (CtxSetCapacity n k) \<longleftrightarrow> code_all P k"
| "code_all P (CtxUnsyncAddress k) \<longleftrightarrow> code_all P k"
| "code_all P (CtxSyncAddress k) \<longleftrightarrow> (\<forall>tx. code_all P (k tx))"
| "code_all P (AddrDoSend e k) \<longleftrightarrow> code_all P k"
| "code_all P (AddrClone k) \<longleftrightarrow> code_all P k"
| "code_all P (AddrDrop k) \<longleftrightarrow> code_all P k"
| "code_all P (SynDoSend e k) \<longleftrightarrow> code_all P k"
| "code_all P (SynDrop k) \<longleftrightarrow> code_all P k"

lemma code_all_bind: "code_all P (code_bind k g) \<longleftrightarrow> code_all (\<lambda>r. code_all P (g r)) k"
  by (induction k) auto

lemma code_all_mono: "code_all P k \<Longrightarrow> (\<And>r. P r \<Longrightarrow> Q r) \<Longrightarrow> code_all Q k"
  by (induction k) auto

lemma code_all_run: "code_all P k \<Longrightarrow> run_code dbg k c = Inr (r, c') \<Longrightarrow> P r"
  by (induction k arbitrary: c) (auto simp: bind_exec_eq_Inr)

section \<open>Properties\<close>

text \<open>
  What the code relies on of the sink: it accepts a prefix of what it is given and says how long it
  was, or fails and accepts nothing.  \<open>sent\<close> is what it has accepted so far.
\<close>

definition sink_ok :: "('io, 'er, 'w, 'f, 'e) writer_env \<Rightarrow> ('io \<Rightarrow> u8 list) \<Rightarrow> bool" where
  "sink_ok env sent \<longleftrightarrow>
     (\<forall>io b. case io_write env io b of
        (Inr n, io') \<Rightarrow> unat n \<le> length b \<and> sent io' = sent io @ take (unat n) b
      | (Inl _, io') \<Rightarrow> sent io' = sent io) \<and>
     (\<forall>io. sent (snd (io_flush env io)) = sent io)"

text \<open>Every byte the actor has written (\<open>written\<close>) is with the sink or in the buffer, in order.\<close>

definition accounted :: "('io \<Rightarrow> u8 list) \<Rightarrow> ('w \<Rightarrow> u8 list) \<Rightarrow> ('io, 'er) InnerWriter \<Rightarrow> 'w \<Rightarrow> bool" where
  "accounted sent written iw w \<longleftrightarrow> sent (iw_io iw) @ iw_buffer iw = written w"

definition handlers_ok :: "('io, 'er, 'w, 'f, 'e) writer_env \<Rightarrow> (('io, 'er) InnerWriter \<Rightarrow> 'w \<Rightarrow> bool) \<Rightarrow> bool" where
  "handlers_ok env A \<longleftrightarrow>
     (\<forall>e iw w. A iw w \<longrightarrow> code_all (\<lambda>(_, iw', w'). A iw' w') (wh_error env e iw w)) \<and>
     (\<forall>iw w. A iw w \<longrightarrow> code_all (\<lambda>(iw', w'). A iw' w') (wh_finished env iw w))"

lemma sink_write:
  assumes "sink_ok env sent" and "io_write env (iw_io iw) (iw_buffer iw) = (r, io')"
  shows "r = Inl e \<Longrightarrow> accounted sent written (iw\<lparr>iw_io := io'\<rparr>) w = accounted sent written iw w"
    and "r = Inr n \<Longrightarrow> unat n \<le> length (iw_buffer iw)"
    and "r = Inr n \<Longrightarrow> accounted sent written (iw\<lparr>iw_io := io', iw_buffer := drop (unat n) (iw_buffer iw)\<rparr>) w =
      accounted sent written iw w"
    and "r = Inr 0 \<Longrightarrow> accounted sent written (iw\<lparr>iw_io := io'\<rparr>) w = accounted sent written iw w"
  using assms by (auto simp: sink_ok_def accounted_def split: prod.splits sum.splits)
    (metis assms(2) append.assoc append_take_drop_id sum.inject(2) prod.inject)+

lemma sink_flush:
  assumes "sink_ok env sent" and "io_flush env io = (r, io')"
  shows "sent io' = sent io"
  using spec [OF conjunct2 [OF assms(1) [unfolded sink_ok_def]], of io] assms(2) by simp

lemma report_error_ok:
  assumes "handlers_ok env A" and "A iw w" and "\<And>iw w. A iw w \<Longrightarrow> code_all (\<lambda>(_, iw', w'). A iw' w') (k iw w)"
  shows "code_all (\<lambda>(_, iw', w'). A iw' w') (report_error env fin err iw w k)"
proof -
  have fin: "code_all (\<lambda>(iw', w'). A iw' w') (wh_finished env iw w)" if "A iw w" for iw w
    using assms(1) that by (auto simp: handlers_ok_def)
  have "code_all (\<lambda>(_, iw', w'). A iw' w') (wh_error env err iw w)"
    using assms(1,2) by (auto simp: handlers_ok_def)
  then show ?thesis unfolding report_error_def code_all_bind
    by (rule code_all_mono) (auto simp: code_all_bind intro: assms(3) code_all_mono [OF fin])
qed

lemma writer_finish_ok:
  assumes "handlers_ok env (accounted sent written)" and "accounted sent written iw w"
  shows "code_all (\<lambda>(_, iw', w'). accounted sent written iw' w') (writer_finish env iw w)"
proof -
  have "accounted sent written (iw\<lparr>iw_flags := iw_flags iw OR CLOSED\<rparr>) w" using assms(2) by (simp add: accounted_def)
  then have "code_all (\<lambda>(iw', w'). accounted sent written iw' w') (wh_finished env (iw\<lparr>iw_flags := iw_flags iw OR CLOSED\<rparr>) w)"
    using assms(1) by (simp add: handlers_ok_def)
  then show ?thesis using assms(2) by (auto simp: writer_finish_def code_all_bind split_def elim: code_all_mono)
qed

lemma writer_flush_ok:
  assumes "sink_ok env sent" and "handlers_ok env (accounted sent written)" and "accounted sent written iw w"
  shows "code_all (\<lambda>(_, iw', w'). accounted sent written iw' w') (writer_flush env iw w)"
proof -
  obtain r io' where f: "io_flush env (iw_io iw) = (r, io')" by force
  then have "sent io' = sent (iw_io iw)" by (rule sink_flush [OF assms(1)])
  then have a: "accounted sent written (iw\<lparr>iw_io := io'\<rparr>) w" using assms(3) by (simp add: accounted_def)
  have "code_all (\<lambda>(_, iw', w'). accounted sent written iw' w')
      (report_error env (PReady ()) (io_into env e) (iw\<lparr>iw_io := io'\<rparr>) w (writer_finish env))" for e
    by (rule report_error_ok [OF assms(2) a writer_finish_ok [OF assms(2)]])
  then show ?thesis using writer_finish_ok [OF assms(2) a] a f
    by (auto simp: writer_flush_def Let_def split: sum.splits io_error.splits)
qed

lemma writer_loop_ok:
  assumes "sink_ok env sent" and "handlers_ok env (accounted sent written)"
  shows "accounted sent written iw w \<Longrightarrow> code_all (\<lambda>(_, iw', w'). accounted sent written iw' w') (writer_loop env k iw w)"
proof (induction k arbitrary: iw w)
  case (Suc k)
  obtain r io' where io: "io_write env (iw_io iw) (iw_buffer iw) = (r, io')" by force
  let ?iw = "iw\<lparr>iw_io := io'\<rparr>"
  show ?case
  proof (cases r)
    case (Inl e)
    then have a: "accounted sent written ?iw w" by (rule sink_write(1) [OF assms(1) io, THEN iffD2, OF _ Suc.prems])
    have "code_all (\<lambda>(_, iw', w'). accounted sent written iw' w') (report_error env (Some (PReady ())) (io_into env e) ?iw w (writer_loop env k))"
      by (rule report_error_ok [OF assms(2) a Suc.IH])
    then show ?thesis using Suc.prems a io Inl by (auto simp: Let_def split: io_error.splits)
  next
    case (Inr n)
    have l: "unat n \<le> length (iw_buffer iw)" using sink_write(2) [OF assms(1) io] Inr by simp
    have a: "accounted sent written (iw\<lparr>iw_io := io', iw_buffer := drop (unat n) (iw_buffer iw)\<rparr>) w"
      using Suc.prems by (simp add: sink_write(3) [OF assms(1) io Inr])
    show ?thesis
    proof (cases "n = 0")
      case True
      have a0: "accounted sent written ?iw w" using Suc.prems by (simp add: sink_write(4) [OF assms(1) io] Inr True)
      have "code_all (\<lambda>(_, iw', w'). accounted sent written iw' w')
          (report_error env (Some (PReady ())) (io_into env WriteZero) ?iw w (writer_loop env k))"
        by (rule report_error_ok [OF assms(2) a0 Suc.IH])
      then show ?thesis using Suc.prems io Inr True by (simp add: split_to_def)
    next
      case False
      then show ?thesis using Suc.IH [OF a] Suc.prems io Inr l by (simp add: split_to_def)
    qed
  qed
qed simp

lemma writer_work_ok:
  assumes "sink_ok env sent" and "handlers_ok env (accounted sent written)" and "accounted sent written iw w"
  shows "code_all (\<lambda>(_, iw', w'). accounted sent written iw' w') (writer_work env k iw w)"
  unfolding writer_work_def code_all_bind
  by (rule code_all_mono [OF writer_loop_ok [OF assms]])
    (auto split: option.splits intro: writer_flush_ok [OF assms(1,2)])

lemma writer_drain_ok:
  assumes "sink_ok env sent"
  shows "accounted sent written iw w \<Longrightarrow> length (iw_buffer iw) < k \<Longrightarrow>
    \<exists>p iw'. writer_drain_loop env k iw = Inr (p, iw') \<and> accounted sent written iw' w \<and> iw_low iw' = iw_low iw \<and>
      (p = PReady () \<longrightarrow> iw_buffer iw' = [] \<or> length (iw_buffer iw') < unat (iw_low iw)) \<and>
      (p = PNotReady \<longrightarrow> unat (iw_low iw) \<le> length (iw_buffer iw')) \<and> (p = PErr () \<longrightarrow> iw_error iw' \<noteq> None)"
proof (induction k arbitrary: iw)
  case (Suc k)
  obtain r io' where io: "io_write env (iw_io iw) (iw_buffer iw) = (r, io')" by force
  show ?case
  proof (cases "iw_buffer iw = []")
    case True
    then show ?thesis using Suc.prems by simp
  next
    case False
    show ?thesis
    proof (cases r)
      case (Inl e)
      then have "accounted sent written (iw\<lparr>iw_io := io'\<rparr>) w" by (rule sink_write(1) [OF assms io, THEN iffD2, OF _ Suc.prems(1)])
      then show ?thesis using False io Inl by (cases e) (auto simp: Let_def accounted_def)
    next
      case (Inr n)
      have l: "unat n \<le> length (iw_buffer iw)" using sink_write(2) [OF assms io] Inr by simp
      have a: "accounted sent written (iw\<lparr>iw_io := io', iw_buffer := drop (unat n) (iw_buffer iw)\<rparr>) w"
        using Suc.prems by (simp add: sink_write(3) [OF assms io Inr])
      show ?thesis
      proof (cases "n = 0")
        case True
        then have "accounted sent written (iw\<lparr>iw_io := io'\<rparr>) w" using Suc.prems by (simp add: sink_write(4) [OF assms io] Inr)
        then show ?thesis using False io Inr True by (simp add: accounted_def)
      next
        case nz: False
        then have "length (drop (unat n) (iw_buffer iw)) < k"
          using Suc.prems(2) l False by (simp add: unat_gt_0) (metis nz diff_less length_greater_0_conv less_Suc_eq_le order_less_le_trans unat_gt_0)
        then show ?thesis using Suc.IH [OF a] False io Inr nz l by (simp add: split_to_def)
      qed
    qed
  qed
qed simp


text \<open>A sink that takes one byte at a time, and an actor with the default callbacks.\<close>

definition byte_sink :: "(u8 list, io_error, u8 list, unit, unit) writer_env" where
  "byte_sink =
     \<lparr>io_write = (\<lambda>io b. (Inr (if b = [] then 0 else 1), io @ take 1 b)),
      io_flush = (\<lambda>io. (Inr (), io)), io_into = (\<lambda>e. e), wh_error = default_write_error,
      wh_finished = default_write_finished, fut_box = (), drain_box = ()\<rparr>"

lemma byte_sink_ok: "sink_ok byte_sink id" "handlers_ok byte_sink (accounted id id)"
  by (auto simp: sink_ok_def byte_sink_def handlers_ok_def default_write_error_def default_write_finished_def neq_Nil_conv)


lemma writer_loop_live:
  assumes "sink_ok env sent" and "\<And>io b. b \<noteq> [] \<Longrightarrow> \<exists>n io'. io_write env io b = (Inr n, io') \<and> n \<noteq> 0"
  shows "length (iw_buffer iw) < k \<Longrightarrow> \<exists>iw'. writer_loop env k iw w = Return (None, iw', w) \<and> iw_buffer iw' = [] \<and>
    sent (iw_io iw') = sent (iw_io iw) @ iw_buffer iw \<and> iw_flags iw' = iw_flags iw"
proof (induction k arbitrary: iw)
  case (Suc k)
  show ?case
  proof (cases "iw_buffer iw = []")
    case False
    obtain n io' where io: "io_write env (iw_io iw) (iw_buffer iw) = (Inr n, io')" "n \<noteq> 0" using assms(2) [OF False] by blast
    have s: "unat n \<le> length (iw_buffer iw)" "sent io' = sent (iw_io iw) @ take (unat n) (iw_buffer iw)"
      using assms(1) io(1) by (auto simp: sink_ok_def split: prod.splits sum.splits)
    let ?iw = "iw\<lparr>iw_io := io', iw_buffer := drop (unat n) (iw_buffer iw)\<rparr>"
    have "0 < unat n" using io(2) by (simp add: unat_gt_0)
    then have "length (iw_buffer ?iw) < k" using Suc.prems s(1) by simp
    from Suc.IH [OF this] show ?thesis using False io s by (simp add: split_to_def)
  qed simp
qed simp





text \<open>A sink that keeps accepting nothing blocks the thread: if every write returns \<^verbatim>\<open>Ok(0)\<close> and the actor
  answers \<^verbatim>\<open>Continue\<close> to the errors it is told of, a poll with bytes in the buffer never returns,
  whatever the number of turns it is given.\<close>

theorem write_zero_spins:
  assumes "\<And>io b. io_write env io b = (Inr 0, io)" and "\<And>e iw w. wh_error env e iw w = Return (Continue, iw, w)"
    and "iw_buffer iw \<noteq> []"
  shows "run_code dbg (writer_fut_poll env k iw w) c = Inl OutOfFuel"
proof -
  have "iw_buffer iw \<noteq> [] \<Longrightarrow> writer_loop env k iw w = Fault OutOfFuel" for iw
  proof (induction k arbitrary: iw)
    case (Suc k)
    then show ?case using assms(1,2) by (simp add: report_error_def split_to_def)
  qed simp
  then have "writer_work env k iw w = Fault OutOfFuel" if "iw_buffer iw \<noteq> []" for iw
    using that by (simp add: writer_work_def)
  then show ?thesis using assms(2,3)
    by (cases "iw_error iw") (simp_all add: writer_fut_poll_def report_error_def)
qed

theorem write_zero_spins_witness:
  "run_code True (writer_fut_poll (byte_sink\<lparr>io_write := (\<lambda>io b. (Inr 0, io)), wh_error := (\<lambda>e iw w. Return (Continue, iw, w))\<rparr>)
     1000 (inner_writer [] [1]) []) (ctx_new (Some ()) :: (unit, unit, unit) ContextImpl) = Inl OutOfFuel"
  by (rule write_zero_spins) (simp_all add: inner_writer_def)

end
