(* ===== verification/Resolver.thy ===== *)
theory Resolver
  imports Actor_Futures
begin

text \<open>
  The connector actor (\<^verbatim>\<open>src/actors/resolver.rs\<close>): resolving a host name, and connecting to the first of a
  list of addresses that answers.  DNS lookups (crate \<^verbatim>\<open>trust-dns-resolver\<close>), sockets and timers
  (crate \<^verbatim>\<open>tokio-core\<close>) are parameters, and so is the standard library's parser of socket addresses, of
  which nothing is assumed.
\<close>

section \<open>Messages and errors\<close>

record Resolve =
  rs_name :: string
  rs_port :: "u16 option"

definition resolve_host :: "string \<Rightarrow> Resolve" where
  "resolve_host host = \<lparr>rs_name = host, rs_port = None\<rparr>"

definition resolve_host_and_port :: "string \<Rightarrow> u16 \<Rightarrow> Resolve" where
  "resolve_host_and_port host port = \<lparr>rs_name = host, rs_port = Some port\<rparr>"

record Connect =
  cn_name :: string
  cn_port :: "u16 option"

definition connect_host :: "string \<Rightarrow> Connect" where
  "connect_host host = \<lparr>cn_name = host, cn_port = None\<rparr>"

definition connect_host_and_port :: "string \<Rightarrow> u16 \<Rightarrow> Connect" where
  "connect_host_and_port host port = \<lparr>cn_name = host, cn_port = Some port\<rparr>"

datatype 'ip ConnectAddr = ConnectAddr "'ip \<times> u16"

datatype 'ioe ConnectorError = ErrResolver string | ErrInvalidInput string | ErrTimeout | ErrIo 'ioe

section \<open>Parsing\<close>

text \<open>\<^verbatim>\<open>str::splitn(2, d)\<close> and \<^verbatim>\<open>u16::from_str\<close> of the standard library.\<close>

definition splitn2 :: "char \<Rightarrow> string \<Rightarrow> string list" where
  "splitn2 d s =
     (case dropWhile (\<lambda>c. c \<noteq> d) s of
        [] \<Rightarrow> [s]
      | _ # rest \<Rightarrow> [takeWhile (\<lambda>c. c \<noteq> d) s, rest])"

definition digit_val :: "char \<Rightarrow> nat option" where
  "digit_val c = (let n = of_char c :: nat in if 48 \<le> n \<and> n \<le> 57 then Some (n - 48) else None)"

fun parse_digits :: "nat \<Rightarrow> string \<Rightarrow> nat option" where
  "parse_digits acc [] = Some acc"
| "parse_digits acc (c # cs) =
     (case digit_val c of
        None \<Rightarrow> None
      | Some d \<Rightarrow> if acc * 10 + d < 2 ^ 16 then parse_digits (acc * 10 + d) cs else None)"

fun u16_from_str :: "string \<Rightarrow> u16 option" where
  "u16_from_str [] = None"
| "u16_from_str (c # cs) =
     map_option of_nat (if c = CHR ''+'' \<and> cs \<noteq> [] then parse_digits 0 cs else parse_digits 0 (c # cs))"

text \<open>\<^verbatim>\<open>Resolver::parse\<close>.\<close>

definition resolver_parse :: "string \<Rightarrow> u16 \<Rightarrow> 'ioe ConnectorError + (string \<times> u16)" where
  "resolver_parse addr port =
     (case splitn2 CHR '':'' addr of
        [] \<Rightarrow> Inl (ErrInvalidInput ''invalid socket address'')
      | host # parts \<Rightarrow>
          (let port_str = (case parts of [] \<Rightarrow> '''' | p # _ \<Rightarrow> p) in
           Inr (host, case u16_from_str port_str of Some p \<Rightarrow> p | None \<Rightarrow> port)))"

section \<open>The resolving future\<close>

record ('l, 'ip, 'ioe) Resolver =
  r_lookup :: "'l option"
  r_port :: u16
  r_addrs :: "('ip \<times> u16) list option"
  r_error :: "'ioe ConnectorError option"

definition resolver_new ::
  "(string \<Rightarrow> ('ip \<times> u16) option) \<Rightarrow> (string \<Rightarrow> 'l) \<Rightarrow> string \<Rightarrow> u16 \<Rightarrow> ('l, 'ip, 'ioe) Resolver" where
  "resolver_new parse_addr lookup_ip addr port =
     (case parse_addr addr of
        Some a \<Rightarrow> \<lparr>r_lookup = None, r_port = port, r_addrs = Some [a], r_error = None\<rparr>
      | None \<Rightarrow>
          (case resolver_parse addr port of
             Inr (host, p) \<Rightarrow> \<lparr>r_lookup = Some (lookup_ip host), r_port = p, r_addrs = None, r_error = None\<rparr>
           | Inl err \<Rightarrow> \<lparr>r_lookup = None, r_port = port, r_addrs = None, r_error = Some err\<rparr>))"

text \<open>\<open>lp\<close> polls the lookup; its errors are formatted to strings.\<close>

definition resolver_poll ::
  "('l \<Rightarrow> 'w \<Rightarrow> ('ip list, string) Poll \<times> 'l) \<Rightarrow>
     (('l, 'ip, 'ioe) Resolver, 'w, ('ip \<times> u16) list, 'ioe ConnectorError) fut_poll" where
  "resolver_poll lp m w =
     (case r_error m of
        Some err \<Rightarrow> Inr (PErr err, m\<lparr>r_error := None\<rparr>, w)
      | None \<Rightarrow>
          (case r_addrs m of
             Some addrs \<Rightarrow> Inr (PReady addrs, m\<lparr>r_addrs := None\<rparr>, w)
           | None \<Rightarrow>
               (case r_lookup m of
                  None \<Rightarrow> Inl Panicked
                | Some l \<Rightarrow>
                    (let (r, l') = lp l w; m1 = m\<lparr>r_lookup := Some l'\<rparr> in
                     case r of
                       Inr NotReady \<Rightarrow> Inr (PNotReady, m1, w)
                     | Inr (Ready ips) \<Rightarrow>
                         (let addrs = map (\<lambda>ip. (ip, r_port m1)) ips in
                          if addrs = [] then Inr (PErr (ErrResolver ''Expect at least one A dns record''), m1, w)
                          else Inr (PReady addrs, m1, w))
                     | Inl err \<Rightarrow> Inr (PErr (ErrResolver err), m1, w)))))"

section \<open>The connecting future\<close>

record ('ip, 't, 'st) TcpConnector =
  tc_addrs :: "('ip \<times> u16) list"
  tc_timeout :: 't
  tc_stream :: "'st option"

definition tcp_with_timeout :: "('ip \<times> u16) list \<Rightarrow> 't \<Rightarrow> ('ip, 't, 'st) TcpConnector" where
  "tcp_with_timeout addrs timer = \<lparr>tc_addrs = addrs, tc_timeout = timer, tc_stream = None\<rparr>"

text \<open>\<open>second\<close> is a timer of one second, the default.\<close>

definition tcp_new :: "'t \<Rightarrow> ('ip \<times> u16) list \<Rightarrow> ('ip, 't, 'st) TcpConnector" where
  "tcp_new second addrs = tcp_with_timeout addrs second"

text \<open>Poll the connection in progress; \<open>None\<close> when the next address is to be tried.\<close>

definition stream_verdict ::
  "('st \<Rightarrow> 'w \<Rightarrow> ('sock, 'ioe) Poll \<times> 'st) \<Rightarrow> 'w \<Rightarrow> ('ip \<times> u16) list \<Rightarrow> 'st option \<Rightarrow>
     (('sock, 'ioe ConnectorError) Poll \<times> 'st) option" where
  "stream_verdict sp w addrs stream =
     (case stream of
        None \<Rightarrow> None
      | Some new \<Rightarrow>
          (case sp new w of
             (Inr (Ready sock), new') \<Rightarrow> Some (PReady sock, new')
           | (Inr NotReady, new') \<Rightarrow> Some (PNotReady, new')
           | (Inl err, new') \<Rightarrow> if addrs = [] then Some (PErr (ErrIo err), new') else None))"

fun connect_loop ::
  "('ip \<times> u16 \<Rightarrow> 'w \<Rightarrow> 'st) \<Rightarrow> ('st \<Rightarrow> 'w \<Rightarrow> ('sock, 'ioe) Poll \<times> 'st) \<Rightarrow> 'w \<Rightarrow> ('ip \<times> u16) list \<Rightarrow> 'st option \<Rightarrow>
     (('sock, 'ioe ConnectorError) Poll \<times> ('ip \<times> u16) list \<times> 'st option) exec" where
  "connect_loop connect sp w addrs stream =
     (case stream_verdict sp w addrs stream of
        Some (p, new') \<Rightarrow> Inr (p, addrs, Some new')
      | None \<Rightarrow>
          (case addrs of
             [] \<Rightarrow> Inl Panicked
           | addr # rest \<Rightarrow> connect_loop connect sp w rest (Some (connect addr w))))"

declare connect_loop.simps [simp del]

definition tcp_poll ::
  "('ip \<times> u16 \<Rightarrow> 'w \<Rightarrow> 'st) \<Rightarrow> ('st \<Rightarrow> 'w \<Rightarrow> ('sock, 'ioe) Poll \<times> 'st) \<Rightarrow> ('t \<Rightarrow> 'w \<Rightarrow> (unit, unit) Poll \<times> 't) \<Rightarrow>
     (('ip, 't, 'st) TcpConnector, 'w, 'sock, 'ioe ConnectorError) fut_poll" where
  "tcp_poll connect sp tp m w =
     (let (r, t') = tp (tc_timeout m) w; m1 = m\<lparr>tc_timeout := t'\<rparr> in
      if r = PReady () then Inr (PErr ErrTimeout, m1, w)
      else bind_exec (connect_loop connect sp w (tc_addrs m1) (tc_stream m1)) (\<lambda>(p, addrs, stream).
        Inr (p, m1\<lparr>tc_addrs := addrs, tc_stream := stream\<rparr>, w)))"

section \<open>Handlers of the connector\<close>

text \<open>
  The connector and its \<^verbatim>\<open>default\<close>: on Unix the DNS client is made from the configuration of the system if there is
  one that can be read, elsewhere from the built-in configuration.  \<open>from_system_conf\<close> and \<open>with_defaults\<close> are what the DNS crate gives.
\<close>

record 'c Connector =
  con_resolver :: 'c

fun connector_default :: "bool \<Rightarrow> 'e + 'c \<Rightarrow> 'c \<Rightarrow> 'c Connector" where
  "connector_default unix from_system_conf with_defaults =
     (if unix then (case from_system_conf of Inr resolver \<Rightarrow> \<lparr>con_resolver = resolver\<rparr> | Inl _ \<Rightarrow> \<lparr>con_resolver = with_defaults\<rparr>)
      else \<lparr>con_resolver = with_defaults\<rparr>)"

definition handle_resolve ::
  "(string \<Rightarrow> ('ip \<times> u16) option) \<Rightarrow> (string \<Rightarrow> 'l) \<Rightarrow> Resolve \<Rightarrow> ('l, 'ip, 'ioe) Resolver" where
  "handle_resolve parse_addr lookup_ip msg =
     resolver_new parse_addr lookup_ip (rs_name msg) (case rs_port msg of Some p \<Rightarrow> p | None \<Rightarrow> 0)"

definition handle_connect ::
  "(string \<Rightarrow> ('ip \<times> u16) option) \<Rightarrow> (string \<Rightarrow> 'l) \<Rightarrow> ('w \<Rightarrow> 't) \<Rightarrow> Connect \<Rightarrow>
     (('l, 'ip, 'ioe) Resolver, ('ip, 't, 'st) TcpConnector, ('ip \<times> u16) list \<Rightarrow> 'w \<Rightarrow> ('ip, 't, 'st) TcpConnector \<times> 'w) Chain" where
  "handle_connect parse_addr lookup_ip new_timer msg =
     act_and_then (resolver_new parse_addr lookup_ip (cn_name msg) (case cn_port msg of Some p \<Rightarrow> p | None \<Rightarrow> 0))
       (\<lambda>addrs w. (tcp_new (new_timer w) addrs, w))"

fun handle_connect_addr :: "'t \<Rightarrow> 'ip ConnectAddr \<Rightarrow> ('ip, 't, 'st) TcpConnector" where
  "handle_connect_addr second (ConnectAddr a) = tcp_new second [a]"

section \<open>Properties\<close>

fun decimal :: "nat \<Rightarrow> string" where
  "decimal n = (if n < 10 then [char_of (48 + n)] else decimal (n div 10) @ [char_of (48 + n mod 10)])"

declare decimal.simps [simp del]

lemma digit_val_char: "d < 10 \<Longrightarrow> digit_val (char_of (48 + d)) = Some d"
  by (simp add: digit_val_def)

lemma parse_digits_append: "parse_digits acc (xs @ ys) = Option.bind (parse_digits acc xs) (\<lambda>a. parse_digits a ys)"
  by (induction xs arbitrary: acc) (auto split: option.splits)

lemma parse_digits_decimal: "parse_digits 0 (decimal n) = (if n < 2 ^ 16 then Some n else None)"
proof (induction n rule: decimal.induct)
  case (1 n)
  show ?case
  proof (cases "n < 10")
    case True
    then show ?thesis by (simp add: decimal.simps digit_val_char)
  next
    case False
    have m: "n div 10 * 10 + n mod 10 = n" by simp
    have "parse_digits 0 (decimal n) = Option.bind (parse_digits 0 (decimal (n div 10))) (\<lambda>a. parse_digits a [char_of (48 + n mod 10)])"
      using False by (simp add: decimal.simps [of n] parse_digits_append)
    also have "\<dots> = (if n div 10 < 2 ^ 16 then parse_digits (n div 10) [char_of (48 + n mod 10)] else None)"
      using 1 False by simp
    also have "\<dots> = (if n < 2 ^ 16 then Some n else None)" using m by (auto simp: digit_val_char)
    finally show ?thesis .
  qed
qed

lemma decimal_no_plus: "CHR ''+'' \<notin> set (decimal n)"
proof (induction n rule: decimal.induct)
  case (1 n)
  have "digit_val CHR ''+'' = None" by (simp add: digit_val_def)
  then have "CHR ''+'' \<noteq> char_of (48 + d)" if "d < 10" for d :: nat
    using digit_val_char [OF that] by auto
  then show ?case using 1 by (cases "n < 10") (auto simp: decimal.simps [of n])
qed

lemma u16_decimal: "u16_from_str (decimal n) = (if n < 2 ^ 16 then Some (of_nat n) else None)"
proof -
  obtain c cs where d: "decimal n = c # cs" by (cases "decimal n") (auto simp: decimal.simps [of n] split: if_splits)
  then have "c \<noteq> CHR ''+''" using decimal_no_plus [of n] by auto
  then have "u16_from_str (decimal n) = map_option of_nat (parse_digits 0 (decimal n))" using d by simp
  then show ?thesis by (simp add: parse_digits_decimal)
qed

lemma splitn2_colon: "CHR '':'' \<notin> set host \<Longrightarrow> splitn2 CHR '':'' (host @ CHR '':'' # rest) = [host, rest]"
proof -
  assume "CHR '':'' \<notin> set host"
  then have h: "\<And>c. c \<in> set host \<Longrightarrow> c \<noteq> CHR '':''" by auto
  show ?thesis by (simp add: splitn2_def dropWhile_append2 [OF h] takeWhile_append2 [OF h])
qed

lemma splitn2_none: "CHR '':'' \<notin> set addr \<Longrightarrow> splitn2 CHR '':'' addr = [addr]"
proof -
  assume "CHR '':'' \<notin> set addr"
  then have "dropWhile (\<lambda>c. c \<noteq> CHR '':'') addr = []" by (auto simp: dropWhile_eq_Nil_conv)
  then show ?thesis by (simp add: splitn2_def del: dropWhile_eq_Nil_conv)
qed

text \<open>C31: Parsing a host with a port: a host name without a colon, followed by a colon and a decimal number,
  is split into the host and the port when the number is below 65536; a larger number is
  silently replaced by the default port, and so is a missing one.  Parsing never fails: the
  error for invalid input is never produced.\<close>

theorem resolver_parse_spec:
  "\<exists>host port. resolver_parse addr d = Inr (host, port) \<and> CHR '':'' \<notin> set host \<and>
     (addr = host \<and> port = d \<or>
      (\<exists>rest. addr = host @ CHR '':'' # rest \<and>
        port = (case u16_from_str rest of Some p \<Rightarrow> p | None \<Rightarrow> d) \<and>
        (\<forall>n. rest = decimal n \<longrightarrow> port = (if n < 2 ^ 16 then of_nat n else d))))"
proof (cases "CHR '':'' \<in> set addr")
  case True
  then obtain host rest where "addr = host @ CHR '':'' # rest" "CHR '':'' \<notin> set host" by (metis split_list_first)
  then show ?thesis by (auto simp: resolver_parse_def splitn2_colon u16_decimal)
next
  case False
  then show ?thesis by (simp add: resolver_parse_def splitn2_none)
qed

theorem resolver_parse_spec_witness:
  "\<exists>port. (resolver_parse ''h:70000'' 80 :: unit ConnectorError + string \<times> u16) = Inr (''h'', port) \<and> port = 80"
proof -
  from resolver_parse_spec [of "''h:70000''" 80] obtain host port where
    r: "(resolver_parse ''h:70000'' 80 :: unit ConnectorError + string \<times> u16) = Inr (host, port)" "CHR '':'' \<notin> set host"
    and c: "''h:70000'' = host \<and> port = 80 \<or> (\<exists>rest. ''h:70000'' = host @ CHR '':'' # rest \<and>
      port = (case u16_from_str rest of Some p \<Rightarrow> p | None \<Rightarrow> 80) \<and> (\<forall>n. rest = decimal n \<longrightarrow> port = (if n < 2 ^ 16 then of_nat n else 80)))"
    by blast
  have "''h:70000'' \<noteq> host" using r(2) by auto
  with c obtain rest where s: "''h:70000'' = host @ CHR '':'' # rest"
    and n: "\<And>n. rest = decimal n \<Longrightarrow> port = (if n < 2 ^ 16 then of_nat n else 80)" by blast
  from r(2) s have "host = ''h''" "rest = decimal 70000" by (auto simp: Cons_eq_append_conv decimal.simps char_of_def bit_iff_odd)
  with r(1) n show ?thesis by auto
qed

text \<open>
  What connecting should do: \<open>st\<close> is the connection in progress, pending in the worlds it is polled in
  until it succeeds or fails; when it fails the next address is tried, in the same world.
\<close>

inductive tries ::
  "('ip \<times> u16 \<Rightarrow> 'w \<Rightarrow> 'st) \<Rightarrow> ('st \<Rightarrow> 'w \<Rightarrow> ('sock, 'ioe) Poll \<times> 'st) \<Rightarrow> 'st \<Rightarrow> ('ip \<times> u16) list \<Rightarrow> 'w list \<Rightarrow>
     'ioe + 'sock \<Rightarrow> bool"
  for connect sp where
  connected: "sp st w = (PReady sock, st') \<Longrightarrow> tries connect sp st addrs [w] (Inr sock)"
| exhausted: "sp st w = (PErr e, st') \<Longrightarrow> tries connect sp st [] [w] (Inl e)"
| waits: "sp st w = (PNotReady, st') \<Longrightarrow> tries connect sp st' addrs ws r \<Longrightarrow> tries connect sp st addrs (w # ws) r"
| next_addr: "sp st w = (PErr e, st') \<Longrightarrow> tries connect sp (connect a w) addrs (w # ws) r \<Longrightarrow>
    tries connect sp st (a # addrs) (w # ws) r"

lemma connect_loop_step:
  "sp st w = (PReady sock, st') \<Longrightarrow> connect_loop connect sp w addrs (Some st) = Inr (PReady sock, addrs, Some st')"
  "sp st w = (PNotReady, st') \<Longrightarrow> connect_loop connect sp w addrs (Some st) = Inr (PNotReady, addrs, Some st')"
  "sp st w = (PErr e, st') \<Longrightarrow> connect_loop connect sp w [] (Some st) = Inr (PErr (ErrIo e), [], Some st')"
  "sp st w = (PErr e, st') \<Longrightarrow> connect_loop connect sp w (a # addrs) (Some st) = connect_loop connect sp w addrs (Some (connect a w))"
  "connect_loop connect sp w (a # addrs) None = connect_loop connect sp w addrs (Some (connect a w))"
  by (simp_all add: connect_loop.simps [of connect sp w] stream_verdict_def)

lemma timer_pends_step:
  assumes "timer_pends tp t (w # ws) \<noteq> None"
  obtains t' where "tp t w = (PNotReady, t')" "timer_pends tp t' ws \<noteq> None"
  using assms by (auto split: sum.splits Async.splits prod.splits)

lemma tcp_poll_pending_timer:
  "tp t w = (PNotReady, t') \<Longrightarrow> tcp_poll connect sp tp \<lparr>tc_addrs = addrs, tc_timeout = t, tc_stream = stream\<rparr> w =
     bind_exec (connect_loop connect sp w addrs stream) (\<lambda>(p, addrs', stream').
       Inr (p, \<lparr>tc_addrs = addrs', tc_timeout = t', tc_stream = stream'\<rparr>, w))"
  by (simp add: tcp_poll_def)

lemma resolves_same_poll: "pf f w = pf f2 w \<Longrightarrow> resolves pf f2 (w # ws) r w' \<Longrightarrow> resolves pf f (w # ws) r w'"
  by (simp add: resolves_Cons)

lemma tcp_tries:
  "\<lbrakk>tries connect sp st addrs ws r; timer_pends tp t ws \<noteq> None\<rbrakk> \<Longrightarrow>
   resolves (tcp_poll connect sp tp) \<lparr>tc_addrs = addrs, tc_timeout = t, tc_stream = Some st\<rparr> ws (map_sum ErrIo id r) (last ws)"
proof (induction arbitrary: t rule: tries.induct)
  case (connected st w sock st' addrs)
  obtain t' where "tp t w = (PNotReady, t')" using timer_pends_step [OF connected.prems] .
  then show ?case using connected by (simp add: resolves_Cons tcp_poll_pending_timer connect_loop_step(1))
next
  case (exhausted st w e st')
  obtain t' where "tp t w = (PNotReady, t')" using timer_pends_step [OF exhausted.prems] .
  then show ?case using exhausted by (simp add: resolves_Cons tcp_poll_pending_timer connect_loop_step(3))
next
  case (waits st w st' addrs ws r)
  obtain t' where t: "tp t w = (PNotReady, t')" "timer_pends tp t' ws \<noteq> None" using timer_pends_step [OF waits.prems] .
  have "ws \<noteq> []" using waits.hyps(2) by (auto elim: tries.cases)
  then show ?case using waits.hyps t(1) waits.IH [OF t(2)]
    by (simp add: resolves_Cons tcp_poll_pending_timer connect_loop_step(2))
next
  case (next_addr st w e st' a addrs ws r)
  obtain t' where t: "tp t w = (PNotReady, t')" using timer_pends_step [OF next_addr.prems] .
  have "resolves (tcp_poll connect sp tp) \<lparr>tc_addrs = addrs, tc_timeout = t, tc_stream = Some (connect a w)\<rparr> (w # ws)
      (map_sum ErrIo id r) (last (w # ws))" using next_addr by blast
  then show ?case
    by (rule resolves_same_poll [rotated]) (simp add: t next_addr.hyps(1) tcp_poll_pending_timer connect_loop_step(4))
qed

text \<open>C32: Connecting tries the addresses in order: it connects to the first address, and as long as attempts
  fail to the next one, in the same poll in which the failure is seen; it completes with the first
  connection that is established, or, when there is no address left, with the error of the last
  attempt, in exactly these polls as long as the timer has not fired.  When it fires, the
  future fails with a timeout, whatever the connection does.\<close>

theorem connector_tries_in_order:
  assumes "tries connect sp (connect a w) addrs (w # ws) r" and "timer_pends tp t (w # ws) \<noteq> None"
  shows "resolves (tcp_poll connect sp tp) (tcp_with_timeout (a # addrs) t) (w # ws) (map_sum ErrIo id r) (last (w # ws)) \<and>
    (\<forall>m w t'. tp (tc_timeout m) w = (PReady (), t') \<longrightarrow>
      tcp_poll connect sp tp m w = Inr (PErr ErrTimeout, m\<lparr>tc_timeout := t'\<rparr>, w))"
proof -
  obtain t' where t: "tp t w = (PNotReady, t')" using timer_pends_step [OF assms(2)] .
  have "resolves (tcp_poll connect sp tp) (tcp_with_timeout (a # addrs) t) (w # ws) (map_sum ErrIo id r) (last (w # ws))"
    by (rule resolves_same_poll [OF _ tcp_tries [OF assms]])
      (simp add: tcp_with_timeout_def t tcp_poll_pending_timer connect_loop_step(5))
  then show ?thesis by (simp add: tcp_poll_def)
qed

text \<open>Two addresses, the first refused at once, the second connected at its second poll.\<close>

definition sample_connect :: "nat \<times> u16 \<Rightarrow> nat \<Rightarrow> nat \<times> nat" where
  "sample_connect a w = (fst a, 0)"

definition sample_poll :: "nat \<times> nat \<Rightarrow> nat \<Rightarrow> (nat, string) Poll \<times> nat \<times> nat" where
  "sample_poll st w =
     (case st of (ip, n) \<Rightarrow>
        if ip = 1 then (PErr ''refused'', st) else if n = 0 then (PNotReady, (ip, 1)) else (PReady ip, st))"

theorem connector_tries_in_order_witness:
  "resolves (tcp_poll sample_connect sample_poll (\<lambda>t w. (PNotReady, t))) (tcp_with_timeout [(1, 80), (2, 80)] ()) [10, 11] (Inr 2) 11"
proof -
  have "tries sample_connect sample_poll (sample_connect (1, 80) 10) [(2, 80)] [10, 11] (Inr 2)"
    by (rule next_addr [where e = "''refused''"], simp add: sample_poll_def sample_connect_def,
        rule waits, simp add: sample_poll_def sample_connect_def, rule connected, simp add: sample_poll_def)
  from connector_tries_in_order [OF this, of "\<lambda>t w. (PNotReady, t)" "()"] show ?thesis by simp
qed

definition tcp_busy :: "('ip, 't, 'st) TcpConnector \<Rightarrow> bool" where
  "tcp_busy m \<longleftrightarrow> tc_addrs m \<noteq> [] \<or> tc_stream m \<noteq> None"

lemma connect_loop_busy:
  "addrs \<noteq> [] \<or> stream \<noteq> None \<Longrightarrow> \<exists>p addrs' st. connect_loop connect sp w addrs stream = Inr (p, addrs', Some st)"
proof (induction addrs arbitrary: stream)
  case Nil
  then obtain st where s: "stream = Some st" by auto
  obtain r st' where "sp st w = (r, st')" by force
  then show ?case using s by (cases r rule: poll_exhaust) (auto simp: connect_loop.simps [of connect sp w "[]"] stream_verdict_def)
next
  case (Cons a addrs)
  have IH: "\<exists>p addrs' st. connect_loop connect sp w addrs (Some (connect a w)) = Inr (p, addrs', Some st)"
    using Cons.IH [of "Some (connect a w)"] by simp
  show ?case
  proof (cases "stream_verdict sp w (a # addrs) stream")
    case None
    then show ?thesis using IH by (simp add: connect_loop.simps [of connect sp w "a # addrs"])
  next
    case (Some v)
    then show ?thesis by (cases v) (simp add: connect_loop.simps [of connect sp w "a # addrs"])
  qed
qed

lemma resolver_parse_total: "\<exists>host port. resolver_parse addr d = Inr (host, port)"
  by (simp add: resolver_parse_def splitn2_def split: list.splits)

lemma resolver_lookup_resolves:
  "\<lbrakk>resolves (resolver_poll lp) m ws r w'; r_error m = None; r_addrs m = None; r = Inr addrs\<rbrakk> \<Longrightarrow>
   addrs \<noteq> [] \<and> (\<forall>a \<in> set addrs. snd a = r_port m)"
proof (induction rule: resolves.induct)
  case (completes m w r m' w')
  then show ?case by (auto simp: resolver_poll_def Let_def split: option.splits prod.splits sum.splits Async.splits if_splits)
next
  case (pending m w m1 w1 ws r w')
  then have "r_error m1 = None \<and> r_addrs m1 = None \<and> r_port m1 = r_port m"
    by (auto simp: resolver_poll_def Let_def split: option.splits prod.splits sum.splits Async.splits if_splits)
  then show ?case using pending by auto
qed

lemma resolver_resolves:
  fixes lookup_ip :: "string \<Rightarrow> 'l" and parse_addr :: "string \<Rightarrow> ('ip \<times> u16) option"
  assumes "resolves (resolver_poll lp) (resolver_new parse_addr lookup_ip addr port :: ('l, 'ip, 'ioe) Resolver) ws (Inr addrs) w'"
  shows "addrs \<noteq> [] \<and> (parse_addr addr = None \<longrightarrow> (\<exists>host p. resolver_parse addr port = (Inr (host, p) :: 'ioe ConnectorError + string \<times> u16) \<and>
        (\<forall>a \<in> set addrs. snd a = p)))"
proof (cases "parse_addr addr")
  case None
  obtain host p where hp: "resolver_parse addr port = (Inr (host, p) :: 'ioe ConnectorError + string \<times> u16)"
    using resolver_parse_total by blast
  then show ?thesis using resolver_lookup_resolves [OF assms] None by (auto simp: resolver_new_def)
next
  case (Some a)
  then have "addrs = [a]" using assms by (auto simp: resolver_new_def resolver_poll_def elim: resolvesE)
  then show ?thesis using Some by simp
qed

lemma tcp_busy_poll:
  assumes "tcp_busy m"
  shows "\<exists>p m'. tcp_poll connect sp tp m w = Inr (p, m', w) \<and> (p = PNotReady \<longrightarrow> tcp_busy m')"
proof -
  obtain r t' where "tp (tc_timeout m) w = (r, t')" by force
  moreover obtain p addrs st where "connect_loop connect sp w (tc_addrs m) (tc_stream m) = Inr (p, addrs, Some st)"
    using connect_loop_busy [of "tc_addrs m" "tc_stream m" connect sp w] assms by (auto simp: tcp_busy_def)
  ultimately show ?thesis by (cases "r = PReady ()") (simp_all add: tcp_poll_def tcp_busy_def)
qed

text \<open>Connecting does not panic.  The resolver, made from any input, completes with an error or with at
  least one address, all with the port that was parsed or given when they come from a lookup; a
  connector that still has an address or a connection in progress does not panic in a poll, and
  is in such a state again when it is pending.  A connector made with no address at all panics
  at its first poll.\<close>

theorem connecting_does_not_panic:
  fixes lookup_ip :: "string \<Rightarrow> 'l" and parse_addr :: "string \<Rightarrow> ('ip \<times> u16) option"
  shows "(resolves (resolver_poll lp) (resolver_new parse_addr lookup_ip addr port :: ('l, 'ip, 'ioe) Resolver) ws (Inr addrs) w' \<longrightarrow>
      addrs \<noteq> [] \<and>
      (parse_addr addr = None \<longrightarrow> (\<exists>host p. resolver_parse addr port = (Inr (host, p) :: 'ioe ConnectorError + string \<times> u16) \<and>
        (\<forall>a \<in> set addrs. snd a = p)))) \<and>
   (tcp_busy m \<longrightarrow> (\<exists>p m'. tcp_poll connect sp tp m w = Inr (p, m', w) \<and> (p = PNotReady \<longrightarrow> tcp_busy m'))) \<and>
   (tp t w = (PNotReady, t') \<longrightarrow> tcp_poll connect sp tp (tcp_with_timeout [] t) w = Inl Panicked)"
  by (rule conjI [OF impI [OF resolver_resolves] conjI [OF impI [OF tcp_busy_poll]]], assumption+)
    (simp add: tcp_poll_def tcp_with_timeout_def connect_loop.simps [of connect sp w "[]"] stream_verdict_def)

theorem connecting_does_not_panic_witness:
  "tcp_poll sample_connect sample_poll (\<lambda>t w. (PNotReady, t)) (tcp_with_timeout [] ()) 0 = Inl Panicked \<and>
   (\<exists>p m'. tcp_poll sample_connect sample_poll (\<lambda>t w. (PNotReady, t)) (tcp_with_timeout [(1, 80)] ()) 0 = Inr (p, m', 0))"
  using connecting_does_not_panic [where m = "tcp_with_timeout [(1, 80)] ()" and connect = sample_connect and sp = sample_poll
      and tp = "\<lambda>t w. (PNotReady, t)" and t = "()" and w = 0 and t' = "()" and lp = "\<lambda>l w. (PNotReady, l)"
      and parse_addr = "\<lambda>_. None :: (nat \<times> u16) option" and lookup_ip = "\<lambda>_. ()" and ws = "[]" and addrs = "[]" and w' = 0
      and addr = "''''" and port = 0]
  by (auto simp: tcp_busy_def tcp_with_timeout_def)

end
