(* ===== verification/Sync_Arbiter.thy ===== *)
theory Sync_Arbiter
  imports Handlers
begin

text \<open>
  Synchronous actors (\<^verbatim>\<open>src/sync.rs\<close>): the arbiter that forwards the messages of a channel to a queue
  shared by worker threads (\<^verbatim>\<open>SyncArbiter\<close>), and the loop each worker runs (\<^verbatim>\<open>SyncContext\<close>).  The queue
  (crate \<^verbatim>\<open>crossbeam-channel\<close>) is a first-in-first-out list; what a worker receives is
  \<^verbatim>\<open>Stop\<close>, an envelope, or the error of a queue whose sending side is gone.  Callbacks can call \<^verbatim>\<open>stop\<close>,
  \<^verbatim>\<open>terminate\<close> and \<^verbatim>\<open>state\<close> of their context.
\<close>

section \<open>The context of a worker\<close>

datatype 'e SyncContextProtocol = ProtoStop | ProtoEnvelope 'e

record 'a SyncContext =
  sx_act :: 'a
  sx_stopping :: bool
  sx_state :: ActorState

definition sync_context_new :: "'a \<Rightarrow> 'a SyncContext" where
  "sync_context_new act = \<lparr>sx_act = act, sx_stopping = False, sx_state = Started\<rparr>"

definition sync_stop :: "'a SyncContext \<Rightarrow> 'a SyncContext" where
  "sync_stop c = c\<lparr>sx_stopping := True, sx_state := Stopping\<rparr>"

definition sync_terminate :: "'a SyncContext \<Rightarrow> 'a SyncContext" where
  "sync_terminate c = c\<lparr>sx_stopping := True, sx_state := Stopping\<rparr>"

definition sync_state :: "'a SyncContext \<Rightarrow> ActorState" where
  "sync_state c = sx_state c"

text \<open>A callback: the calls it makes on its context, and the value it returns.\<close>

datatype 'r scode =
    SReturn 'r
  | SStop "'r scode"
  | STerminate "'r scode"
  | SState "ActorState \<Rightarrow> 'r scode"

primrec run_scode :: "'r scode \<Rightarrow> 'a SyncContext \<Rightarrow> 'r \<times> 'a SyncContext" where
  "run_scode (SReturn r) = (\<lambda>c. (r, c))"
| "run_scode (SStop k) = (\<lambda>c. run_scode k (sync_stop c))"
| "run_scode (STerminate k) = (\<lambda>c. run_scode k (sync_terminate c))"
| "run_scode (SState k) = (\<lambda>c. run_scode (k (sync_state c)) c)"

text \<open>The user's part of a synchronous actor; \<open>'r\<close> is the result of a message.\<close>

record ('a, 'm, 'r) sync_actor =
  sa_factory :: 'a
  sa_started :: "'a \<Rightarrow> 'a scode"
  sa_stopping :: "'a \<Rightarrow> (Running \<times> 'a) scode"
  sa_stopped :: "'a \<Rightarrow> 'a scode"
  sa_handle :: "'m \<Rightarrow> 'a \<Rightarrow> ('r \<times> 'a) scode"

text \<open>What a worker does, in order: the callbacks it runs, and the results it sends.\<close>

datatype ('m, 'tx, 'r) sync_event =
    SvStarted
  | SvMessage 'm
  | SvReply 'tx 'r
  | SvStopping
  | SvStopped

text \<open>\<^verbatim>\<open>SyncContextEnvelope\<close>; \<open>canceled\<close> tells which response channels have been dropped.\<close>

record ('m, 'tx) SyncContextEnvelope =
  se_msg :: "'m option"
  se_tx :: "'tx option"

definition sync_envelope_new :: "'m \<Rightarrow> 'tx option \<Rightarrow> ('m, 'tx) SyncContextEnvelope" where
  "sync_envelope_new msg tx = \<lparr>se_msg = Some msg, se_tx = tx\<rparr>"

text \<open>\<^verbatim>\<open>ToEnvelope::pack\<close> of \<^verbatim>\<open>SyncContext\<close>.\<close>

definition sync_context_pack :: "'m \<Rightarrow> 'tx option \<Rightarrow> ('m, 'tx) SyncContextEnvelope" where
  "sync_context_pack msg tx = sync_envelope_new msg tx"

definition call_sync ::
  "('a \<Rightarrow> ('x \<times> 'a) scode) \<Rightarrow> 'a SyncContext \<Rightarrow> 'x \<times> 'a SyncContext" where
  "call_sync cb c = (let ((x, a), c1) = run_scode (cb (sx_act c)) c in (x, c1\<lparr>sx_act := a\<rparr>))"

definition call_sync_unit :: "('a \<Rightarrow> 'a scode) \<Rightarrow> 'a SyncContext \<Rightarrow> 'a SyncContext" where
  "call_sync_unit cb c = (let (a, c1) = run_scode (cb (sx_act c)) c in c1\<lparr>sx_act := a\<rparr>)"

definition sync_envelope_handle ::
  "('tx \<Rightarrow> bool) \<Rightarrow> ('a, 'm, 'r) sync_actor \<Rightarrow> ('m, 'tx) SyncContextEnvelope \<Rightarrow> 'a SyncContext \<Rightarrow>
     ('m, 'tx, 'r) sync_event list \<times> 'a SyncContext" where
  "sync_envelope_handle canceled sa env c =
     (let tx = se_tx env in
      if tx \<noteq> None \<and> canceled (the tx) then ([], c)
      else case se_msg env of
        None \<Rightarrow> ([], c)
      | Some msg \<Rightarrow>
          (let (r, c1) = call_sync (sa_handle sa msg) c in
           (SvMessage msg # (case tx of None \<Rightarrow> [] | Some t \<Rightarrow> [SvReply t r]), c1)))"

section \<open>The loop of a worker\<close>

text \<open>One turn: what is received (\<open>None\<close> for an error), whether the worker returns, what it does.\<close>

definition worker_restart ::
  "('a, 'm, 'r) sync_actor \<Rightarrow> 'a SyncContext \<Rightarrow> ('m, 'tx, 'r) sync_event list \<times> 'a SyncContext" where
  "worker_restart sa c =
     (if sx_stopping c then
        (let c1 = snd (call_sync (sa_stopping sa) (c\<lparr>sx_stopping := False\<rparr>));
             c2 = call_sync_unit (sa_stopped sa) (c1\<lparr>sx_state := Stopped\<rparr>);
             c3 = call_sync_unit (sa_started sa) (c2\<lparr>sx_state := Started, sx_act := sa_factory sa\<rparr>)
         in ([SvStopping, SvStopped, SvStarted], c3\<lparr>sx_state := StateRunning\<rparr>))
      else ([], c))"

fun worker_turn ::
  "('tx \<Rightarrow> bool) \<Rightarrow> ('a, 'm, 'r) sync_actor \<Rightarrow> ('m, 'tx) SyncContextEnvelope SyncContextProtocol option \<Rightarrow>
     'a SyncContext \<Rightarrow> bool \<times> ('m, 'tx, 'r) sync_event list \<times> 'a SyncContext" where
  "worker_turn canceled sa (Some ProtoStop) c =
     (let c1 = snd (call_sync (sa_stopping sa) (c\<lparr>sx_state := Stopping\<rparr>));
          c2 = call_sync_unit (sa_stopped sa) (c1\<lparr>sx_state := Stopped\<rparr>)
      in (True, [SvStopping, SvStopped], c2))"
| "worker_turn canceled sa (Some (ProtoEnvelope env)) c =
     (let (evs, c1) = sync_envelope_handle canceled sa env c;
          (evs2, c2) = worker_restart sa c1
      in (False, evs @ evs2, c2))"
| "worker_turn canceled sa None c = (let (evs, c1) = worker_restart sa c in (False, evs, c1))"

definition worker_start ::
  "('a, 'm, 'r) sync_actor \<Rightarrow> ('m, 'tx, 'r) sync_event list \<times> 'a SyncContext" where
  "worker_start sa =
     (let c1 = call_sync_unit (sa_started sa) (sync_context_new (sa_factory sa))
      in ([SvStarted], c1\<lparr>sx_state := StateRunning\<rparr>))"

text \<open>\<^verbatim>\<open>SyncContext::run\<close> on the results of \<^verbatim>\<open>recv\<close>; \<open>False\<close> when they end before the worker returns, which
  is then blocked in \<^verbatim>\<open>recv\<close>.\<close>

fun worker_loop ::
  "('tx \<Rightarrow> bool) \<Rightarrow> ('a, 'm, 'r) sync_actor \<Rightarrow> ('m, 'tx) SyncContextEnvelope SyncContextProtocol option list \<Rightarrow>
     'a SyncContext \<Rightarrow> bool \<times> ('m, 'tx, 'r) sync_event list \<times> 'a SyncContext" where
  "worker_loop canceled sa [] c = (False, [], c)"
| "worker_loop canceled sa (m # ms) c =
     (case worker_turn canceled sa m c of (ret, evs, c1) \<Rightarrow>
        if ret then (True, evs, c1)
        else (case worker_loop canceled sa ms c1 of (ret2, evs2, c2) \<Rightarrow> (ret2, evs @ evs2, c2)))"

definition worker_run ::
  "('tx \<Rightarrow> bool) \<Rightarrow> ('a, 'm, 'r) sync_actor \<Rightarrow> ('m, 'tx) SyncContextEnvelope SyncContextProtocol option list \<Rightarrow>
     bool \<times> ('m, 'tx, 'r) sync_event list \<times> 'a SyncContext" where
  "worker_run canceled sa ms =
     (let (evs, c) = worker_start sa; (ret, evs2, c2) = worker_loop canceled sa ms c in (ret, evs @ evs2, c2))"

section \<open>The arbiter\<close>

record 'e SyncArbiter =
  ar_queue :: "'e SyncContextProtocol list"
  ar_msgs :: "'e Chan"
  ar_threads :: nat

text \<open>\<^verbatim>\<open>SyncArbiter::start\<close>: the threads are started on the queue, the channel is unbounded.\<close>

definition sync_arbiter_start :: "nat \<Rightarrow> (SyncAddressSender \<times> 'e SyncArbiter) exec" where
  "sync_arbiter_start threads =
     bind_exec (channel 0) (\<lambda>(tx, rx). Inr (tx, \<lparr>ar_queue = [], ar_msgs = rx, ar_threads = threads\<rparr>))"

fun arbiter_forward :: "nat \<Rightarrow> task \<Rightarrow> 'e SyncArbiter \<Rightarrow> 'e SyncArbiter exec" where
  "arbiter_forward 0 cur ar = Inl OutOfFuel"
| "arbiter_forward (Suc k) cur ar =
     bind_exec (sync_poll cur (ar_msgs ar)) (\<lambda>(r, rx).
       let ar1 = ar\<lparr>ar_msgs := rx\<rparr> in
       case r of
         Inr (Ready (Some msg)) \<Rightarrow> arbiter_forward k cur (ar1\<lparr>ar_queue := ar_queue ar1 @ [ProtoEnvelope msg]\<rparr>)
       | Inr NotReady \<Rightarrow> Inr ar1
       | _ \<Rightarrow> Inl Panicked)"

definition sync_arbiter_poll :: "nat \<Rightarrow> task \<Rightarrow> 'e SyncArbiter \<Rightarrow> ((unit, unit) Poll \<times> 'e SyncArbiter) exec" where
  "sync_arbiter_poll k cur ar =
     bind_exec (arbiter_forward k cur ar) (\<lambda>ar1.
       if sync_rx_connected (ar_msgs ar1) then Inr (PNotReady, ar1)
       else Inr (PReady (), ar1\<lparr>ar_queue := ar_queue ar1 @ replicate (ar_threads ar1) ProtoStop\<rparr>))"

section \<open>Forwarding\<close>

lemma arbiter_forward_all:
  "\<lbrakk>chan_wf (ar_msgs ar) ms ps; chan_open (ar_msgs ar); length ms < k\<rbrakk> \<Longrightarrow>
   \<exists>rx ps'. arbiter_forward k cur ar = Inr (ar\<lparr>ar_msgs := rx, ar_queue := ar_queue ar @ map ProtoEnvelope ms\<rparr>) \<and>
     chan_wf rx [] ps' \<and> chan_open rx \<and> i_num_senders rx = i_num_senders (ar_msgs ar)"
proof (induction ms arbitrary: ar ps k)
  case Nil
  then obtain j where "k = Suc j" by (cases k) auto
  let ?rx = "(ar_msgs ar)\<lparr>i_recv_task := \<lparr>rt_unparked = False, rt_task = Some cur\<rparr>\<rparr>"
  have "chan_wf ?rx [] ps \<and> chan_open ?rx" using Nil.prems by (simp add: chan_wf_def chan_open_def msg_count_def)
  then show ?case using sync_poll_empty [OF Nil.prems(1), of cur] \<open>k = Suc j\<close>
    by (intro exI [of _ ?rx] exI [of _ ps]) simp
next
  case (Cons m ms)
  then obtain j where k: "k = Suc j" "length ms < j" by (cases k) auto
  obtain rx where rx: "sync_poll cur (ar_msgs ar) = Inr (PReady (Some m), rx)" "chan_wf rx ms (tl ps)" "chan_open rx"
    using sync_poll_data [OF Cons.prems(1,2), of cur] by blast
  then show ?case
    using Cons.IH [of "ar\<lparr>ar_msgs := rx, ar_queue := ar_queue ar @ [ProtoEnvelope m]\<rparr>" "tl ps" j] k sync_poll_senders [OF rx(1)]
    by auto
qed

text \<open>The arbiter forwards every message once, in order, and never panics: a poll moves all waiting
  messages to the queue of the workers; if there is still an address it is pending, and otherwise it
  adds one \<^verbatim>\<open>Stop\<close> for every thread, after all messages, and completes.\<close>

theorem sync_arbiter_forwards_all:
  assumes "chan_wf (ar_msgs ar) ms ps" and "chan_open (ar_msgs ar)" and "length ms < k"
  shows "\<exists>rx. sync_arbiter_poll k cur ar =
      (if sync_rx_connected (ar_msgs ar)
       then Inr (PNotReady, ar\<lparr>ar_msgs := rx, ar_queue := ar_queue ar @ map ProtoEnvelope ms\<rparr>)
       else Inr (PReady (), ar\<lparr>ar_msgs := rx, ar_queue := ar_queue ar @ map ProtoEnvelope ms @ replicate (ar_threads ar) ProtoStop\<rparr>)) \<and>
    (\<exists>ps'. chan_wf rx [] ps')"
proof -
  obtain rx ps' where "arbiter_forward k cur ar = Inr (ar\<lparr>ar_msgs := rx, ar_queue := ar_queue ar @ map ProtoEnvelope ms\<rparr>)"
    "chan_wf rx [] ps'" "i_num_senders rx = i_num_senders (ar_msgs ar)"
    using arbiter_forward_all [OF assms, of cur] by blast
  then show ?thesis by (intro exI [of _ rx]) (auto simp: sync_arbiter_poll_def sync_rx_connected_def)
qed

theorem sync_arbiter_forwards_all_witness:
  "\<exists>rx. sync_arbiter_poll 1 0 \<lparr>ar_queue = [], ar_msgs = example_chan, ar_threads = 2\<rparr> =
     (if sync_rx_connected example_chan
      then Inr (PNotReady, \<lparr>ar_queue = [], ar_msgs = rx, ar_threads = 2\<rparr>)
      else Inr (PReady (), \<lparr>ar_queue = [ProtoStop, ProtoStop], ar_msgs = rx, ar_threads = 2\<rparr>))"
  using sync_arbiter_forwards_all [of "\<lparr>ar_queue = [], ar_msgs = example_chan, ar_threads = 2\<rparr>" "[]" "[]" 1 0]
    example_chan_wf by (auto simp: numeral_2_eq_2)

section \<open>Workers\<close>

text \<open>The order in which the callbacks of a worker may run.\<close>

datatype phase = PhNew | PhRunning | PhStopping | PhStopped

fun sv_step :: "phase \<Rightarrow> ('m, 'tx, 'r) sync_event \<Rightarrow> phase option" where
  "sv_step PhNew SvStarted = Some PhRunning"
| "sv_step PhRunning (SvMessage m) = Some PhRunning"
| "sv_step PhRunning (SvReply t r) = Some PhRunning"
| "sv_step PhRunning SvStopping = Some PhStopping"
| "sv_step PhStopping SvStopped = Some PhStopped"
| "sv_step PhStopped SvStarted = Some PhRunning"
| "sv_step _ _ = None"

fun sv_run :: "phase \<Rightarrow> ('m, 'tx, 'r) sync_event list \<Rightarrow> phase option" where
  "sv_run p [] = Some p"
| "sv_run p (e # es) = Option.bind (sv_step p e) (\<lambda>p'. sv_run p' es)"

lemma sv_run_append: "sv_run p (xs @ ys) = Option.bind (sv_run p xs) (\<lambda>p'. sv_run p' ys)"
  by (induction xs arbitrary: p) (auto split: option.splits)

lemma sv_envelope:
  "sync_envelope_handle canceled sa env c = (evs, c') \<Longrightarrow> sv_run PhRunning evs = Some PhRunning"
  by (auto simp: sync_envelope_handle_def Let_def split: if_splits option.splits prod.splits)

lemma sv_restart: "worker_restart sa c = (evs, c') \<Longrightarrow> sv_run PhRunning evs = Some PhRunning"
  by (auto simp: worker_restart_def Let_def split: if_splits)

lemma sv_turn:
  "worker_turn canceled sa m c = (ret, evs, c') \<Longrightarrow> sv_run PhRunning evs = Some (if ret then PhStopped else PhRunning)"
proof (induction canceled sa m c rule: worker_turn.induct)
  case (2 canceled sa env c)
  then show ?case by (auto simp: sv_run_append dest!: sv_envelope sv_restart split: prod.splits)
next
  case (3 canceled sa c)
  then show ?case by (auto dest: sv_restart split: prod.splits)
qed (auto simp: Let_def)

lemma sv_loop:
  "worker_loop canceled sa ms c = (ret, evs, c') \<Longrightarrow> sv_run PhRunning evs = Some (if ret then PhStopped else PhRunning)"
proof (induction ms arbitrary: c ret evs c')
  case (Cons m ms)
  obtain r1 e1 c1 where 1: "worker_turn canceled sa m c = (r1, e1, c1)" by (metis prod_cases3)
  obtain r2 e2 c2 where 2: "worker_loop canceled sa ms c1 = (r2, e2, c2)" by (metis prod_cases3)
  show ?case using Cons.prems Cons.IH [OF 2] sv_turn [OF 1] 1 2 by (auto simp: sv_run_append split: if_splits)
qed simp


text \<open>An actor that sums the messages and stops at zero.\<close>

definition summer :: "(nat, nat, nat) sync_actor" where
  "summer = \<lparr>sa_factory = 0, sa_started = SReturn, sa_stopping = (\<lambda>a. SReturn (Stop, a)), sa_stopped = SReturn,
     sa_handle = (\<lambda>m a. if m = 0 then SStop (SReturn (a, a)) else SReturn (a + m, a + m))\<rparr>"


text \<open>A worker whose queue has been disconnected does not end: when the sending side of the queue is gone
  without a \<^verbatim>\<open>Stop\<close> for the worker, every \<^verbatim>\<open>recv\<close> fails at once, and however often the loop turns, the
  worker neither returns nor does anything.\<close>

theorem disconnected_worker_spins:
  assumes "\<not> sx_stopping c"
  shows "worker_loop canceled sa (replicate n None) c = (False, [], c)"
  using assms by (induction n) (simp_all add: worker_restart_def)

theorem disconnected_worker_spins_witness:
  "worker_loop (\<lambda>_ :: nat. False) summer (replicate 1000 None) (sync_context_new 0) = (False, [], sync_context_new 0)"
  by (rule disconnected_worker_spins) (simp add: sync_context_new_def)

section \<open>The pool\<close>

text \<open>
  The workers of a pool on their shared queue: a schedule says which worker receives next.  \<open>None\<close>
  when a worker that has returned, or does not exist, or would block, is scheduled; the log has the
  worker, what it received and what it did.
\<close>

fun pool_run ::
  "('tx \<Rightarrow> bool) \<Rightarrow> ('a, 'm, 'r) sync_actor \<Rightarrow> nat list \<Rightarrow> ('m, 'tx) SyncContextEnvelope SyncContextProtocol list \<Rightarrow>
     'a SyncContext option list \<Rightarrow>
     ((nat \<times> ('m, 'tx) SyncContextEnvelope SyncContextProtocol \<times> ('m, 'tx, 'r) sync_event list) list \<times>
       ('m, 'tx) SyncContextEnvelope SyncContextProtocol list \<times> 'a SyncContext option list) option" where
  "pool_run canceled sa [] q ws = Some ([], q, ws)"
| "pool_run canceled sa (i # sched) q ws =
     (case q of
        [] \<Rightarrow> None
      | m # q' \<Rightarrow>
          if i < length ws then
            (case ws ! i of
               None \<Rightarrow> None
             | Some c \<Rightarrow>
                 (case worker_turn canceled sa (Some m) c of (ret, evs, c') \<Rightarrow>
                    map_option (\<lambda>(l, q2, ws2). ((i, m, evs) # l, q2, ws2))
                      (pool_run canceled sa sched q' (ws[i := if ret then None else Some c']))))
          else None)"

definition alive :: "'a SyncContext option list \<Rightarrow> nat" where
  "alive ws = length (filter (\<lambda>w. w \<noteq> None) ws)"

definition stops :: "'e SyncContextProtocol list \<Rightarrow> nat" where
  "stops q = length (filter (\<lambda>m. m = ProtoStop) q)"

lemma worker_turn_ret: "worker_turn canceled sa (Some m) c = (ret, evs, c') \<Longrightarrow> ret = (m = ProtoStop)"
  by (cases m) (auto simp: Let_def split: prod.splits)

lemma alive_update:
  assumes "i < length ws" and "ws ! i = Some c"
  shows "alive (ws[i := Some c']) = alive ws" and "Suc (alive (ws[i := None])) = alive ws"
proof -
  have s: "ws = take i ws @ Some c # drop (Suc i) ws" using assms by (metis id_take_nth_drop)
  have u: "ws[i := x] = take i ws @ x # drop (Suc i) ws" for x using assms(1) by (rule upd_conv_take_nth_drop)
  have a: "alive ws = alive (take i ws) + 1 + alive (drop (Suc i) ws)" by (subst s) (simp add: alive_def)
  show "alive (ws[i := Some c']) = alive ws" unfolding u a by (simp add: alive_def)
  show "Suc (alive (ws[i := None])) = alive ws" unfolding u a by (simp add: alive_def)
qed

lemma pool_run_account:
  "pool_run canceled sa sched q ws = Some (l, q', ws') \<Longrightarrow>
   map (\<lambda>(i, m, evs). m) l @ q' = q \<and> (stops q = alive ws \<longrightarrow> stops q' = alive ws')"
proof (induction sched arbitrary: q ws l)
  case (Cons i sched)
  obtain m q1 c where h: "q = m # q1" "i < length ws" "ws ! i = Some c"
    using Cons.prems by (auto split: list.splits if_splits option.splits)
  obtain ret evs c' where t: "worker_turn canceled sa (Some m) c = (ret, evs, c')" by (metis prod_cases3)
  obtain l1 where l: "pool_run canceled sa sched q1 (ws[i := if ret then None else Some c']) = Some (l1, q', ws')"
    "l = (i, m, evs) # l1" using Cons.prems h t by (auto split: option.splits)
  show ?case using Cons.IH [OF l(1)] l(2) h alive_update [OF h(2,3)] worker_turn_ret [OF t]
    by (auto simp: stops_def)
qed simp

lemma alive_zero: "alive ws = 0 \<longleftrightarrow> (\<forall>w \<in> set ws. w = None)"
  by (simp add: alive_def filter_empty_conv)



end
