(* ===== verification/Registry.thy ===== *)
theory Registry
  imports Actix_Prelude
begin

text \<open>
  The registries of services (\<^verbatim>\<open>src/registry.rs\<close>): \<^verbatim>\<open>Registry\<close>, one per arbiter, and \<^verbatim>\<open>SystemRegistry\<close>, shared by
  all arbiters behind a mutex.  A registry maps the type of a service to a boxed \<^verbatim>\<open>Any\<close> that holds the address
  of its actor; starting an actor gives a fresh address and is recorded.
\<close>

section \<open>State\<close>

text \<open>\<^verbatim>\<open>Box<Any>\<close>: the value with the type it was made from; \<^verbatim>\<open>downcast_ref\<close>.\<close>

datatype 'id any = Any 'id nat

fun downcast :: "'id \<Rightarrow> 'id any \<Rightarrow> nat option" where
  "downcast sid (Any ty addr) = (if ty = sid then Some addr else None)"

record 'id services =
  sv_map :: "'id \<rightharpoonup> 'id any"
  sv_next :: nat
  sv_started :: "'id list"

definition registry_new :: "nat \<Rightarrow> 'id services" where
  "registry_new n = \<lparr>sv_map = Map.empty, sv_next = n, sv_started = []\<rparr>"

text \<open>The system's registry; its clones share the map.\<close>

definition system_registry_new :: "nat \<Rightarrow> 'id services" where
  "system_registry_new n = \<lparr>sv_map = Map.empty, sv_next = n, sv_started = []\<rparr>"

definition registry_lookup :: "'id \<Rightarrow> 'id services \<Rightarrow> nat option" where
  "registry_lookup sid r = (case sv_map r sid of None \<Rightarrow> None | Some v \<Rightarrow> downcast sid v)"

text \<open>A new actor.\<close>

definition start_service :: "'id \<Rightarrow> 'id services \<Rightarrow> nat \<times> 'id services" where
  "start_service sid r = (sv_next r, r\<lparr>sv_next := Suc (sv_next r), sv_started := sv_started r @ [sid]\<rparr>)"

definition registry_insert :: "'id \<Rightarrow> nat \<Rightarrow> 'id services \<Rightarrow> 'id services" where
  "registry_insert sid addr r = r\<lparr>sv_map := (sv_map r)(sid \<mapsto> Any sid addr)\<rparr>"

section \<open>The registry of an arbiter\<close>

text \<open>
  \<^verbatim>\<open>Registry::get\<close>.  A service that is not registered is started at once, and its \<^verbatim>\<open>service_started\<close> runs before
  it is registered; \<open>deps\<close> are the services it asks the registry for in there.
\<close>

fun registry_get :: "('id \<Rightarrow> 'id list) \<Rightarrow> nat \<Rightarrow> 'id \<Rightarrow> 'id services \<Rightarrow> (nat \<times> 'id services) exec"
  and service_started :: "('id \<Rightarrow> 'id list) \<Rightarrow> nat \<Rightarrow> 'id list \<Rightarrow> 'id services \<Rightarrow> 'id services exec" where
  "registry_get deps 0 sid r = Inl OutOfFuel"
| "registry_get deps (Suc k) sid r =
     (case registry_lookup sid r of
        Some addr \<Rightarrow> Inr (addr, r)
      | None \<Rightarrow>
          bind_exec (service_started deps k (deps sid) r) (\<lambda>r1.
            let (addr, r2) = start_service sid r1 in Inr (addr, registry_insert sid addr r2)))"
| "service_started deps k [] r = Inr r"
| "service_started deps k (d # ds) r =
     bind_exec (registry_get deps k d r) (\<lambda>(_, r1). service_started deps k ds r1)"

section \<open>The registry of the system\<close>

text \<open>
  \<^verbatim>\<open>SystemRegistry::get\<close>: the mutex is held for the lookup and again for the insertion, but not in
  between.  The service is started in the system arbiter, so its \<^verbatim>\<open>service_started\<close> runs
  later.  \<open>poisoned\<close> says whether the mutex is.
\<close>

definition system_registry_get :: "bool \<Rightarrow> 'id \<Rightarrow> 'id services \<Rightarrow> (nat \<times> 'id services) exec" where
  "system_registry_get poisoned sid r =
     (if poisoned then Inl Panicked
      else case registry_lookup sid r of
        Some addr \<Rightarrow> Inr (addr, r)
      | None \<Rightarrow> (let (addr, r1) = start_service sid r in Inr (addr, registry_insert sid addr r1)))"

section \<open>The contract of a registry\<close>

text \<open>A value is stored under its own type, and registered addresses have been handed out.\<close>

definition reg_wf :: "'id services \<Rightarrow> bool" where
  "reg_wf r \<longleftrightarrow> (\<forall>sid v. sv_map r sid = Some v \<longrightarrow> (\<exists>addr. v = Any sid addr \<and> addr < sv_next r))"

text \<open>A sequence of requests, and the addresses they get.\<close>

fun get_all :: "('id \<Rightarrow> 'r \<Rightarrow> (nat \<times> 'r) exec) \<Rightarrow> 'id list \<Rightarrow> 'r \<Rightarrow> (nat list \<times> 'r) exec" where
  "get_all get [] r = Inr ([], r)"
| "get_all get (sid # sids) r =
     bind_exec (get sid r) (\<lambda>(a, r1). bind_exec (get_all get sids r1) (\<lambda>(as, r2). Inr (a # as, r2)))"

locale service_registry =
  fixes get :: "'id \<Rightarrow> 'r \<Rightarrow> (nat \<times> 'r) exec"
    and ok :: "'r \<Rightarrow> bool"
    and found :: "'r \<Rightarrow> 'id \<Rightarrow> nat option"
  assumes get_found: "ok r \<Longrightarrow> found r sid = Some a \<Longrightarrow> get sid r = Inr (a, r)"
    and get_new: "ok r \<Longrightarrow> found r sid = None \<Longrightarrow> \<exists>a r'. get sid r = Inr (a, r') \<and> ok r' \<and> found r' sid = Some a \<and>
      (\<forall>sid' b. found r sid' = Some b \<longrightarrow> found r' sid' = Some b)"
begin

abbreviation gets :: "'id list \<Rightarrow> 'r \<Rightarrow> (nat list \<times> 'r) exec" where
  "gets \<equiv> get_all get"

lemma get_total:
  assumes "ok r"
  shows "\<exists>a r'. get sid r = Inr (a, r') \<and> ok r' \<and> found r' sid = Some a \<and> (\<forall>sid' b. found r sid' = Some b \<longrightarrow> found r' sid' = Some b)"
  using get_found [OF assms, of sid] get_new [OF assms, of sid] assms by (cases "found r sid") auto

lemma gets_consistent:
  "ok r \<Longrightarrow> \<exists>as r'. gets ids r = Inr (as, r') \<and> ok r' \<and> length as = length ids \<and>
    (\<forall>i < length ids. found r' (ids ! i) = Some (as ! i)) \<and> (\<forall>sid b. found r sid = Some b \<longrightarrow> found r' sid = Some b)"
proof (induction ids arbitrary: r)
  case (Cons sid ids)
  obtain a r1 where 1: "get sid r = Inr (a, r1)" "ok r1" "found r1 sid = Some a" "\<forall>sid' b. found r sid' = Some b \<longrightarrow> found r1 sid' = Some b"
    using get_total [OF Cons.prems] by blast
  obtain as r2 where 2: "gets ids r1 = Inr (as, r2)" "ok r2" "length as = length ids"
    "\<forall>i < length ids. found r2 (ids ! i) = Some (as ! i)" "\<forall>sid b. found r1 sid = Some b \<longrightarrow> found r2 sid = Some b"
    using Cons.IH [OF 1(2)] by blast
  show ?case using 1 2 by (auto simp: nth_Cons split: nat.splits)
qed simp

text \<open>All requests for the same service get the same address.\<close>

lemma gets_same:
  assumes "ok r" and "i < length ids" and "j < length ids" and "ids ! i = ids ! j"
  shows "\<exists>as r'. gets ids r = Inr (as, r') \<and> as ! i = as ! j"
proof -
  obtain as r' where "gets ids r = Inr (as, r')" "\<forall>i < length ids. found r' (ids ! i) = Some (as ! i)"
    using gets_consistent [OF assms(1), of ids] by blast
  moreover from this(2) have "Some (as ! i) = Some (as ! j)" using assms(2-) by metis
  ultimately show ?thesis by simp
qed

end

lemma reg_lookup_insert:
  "registry_lookup sid (registry_insert sid addr r) = Some addr"
  "sid' \<noteq> sid \<Longrightarrow> registry_lookup sid' (registry_insert sid addr r) = registry_lookup sid' r"
  by (simp_all add: registry_lookup_def registry_insert_def)

lemma reg_lookup_start [simp]: "registry_lookup sid (snd (start_service sid' r)) = registry_lookup sid r"
  by (simp add: registry_lookup_def start_service_def)

lemma reg_wf_start: "reg_wf r \<Longrightarrow> reg_wf (registry_insert sid (fst (start_service sid r)) (snd (start_service sid r)))"
  by (fastforce simp: reg_wf_def registry_insert_def start_service_def)

lemma new_service:
  fixes r :: "'id services"
  assumes "reg_wf r" and "registry_lookup sid r = None"
  defines "r' \<equiv> registry_insert sid (fst (start_service sid r)) (snd (start_service sid r))"
  shows "reg_wf r' \<and> registry_lookup sid r' = Some (fst (start_service sid r)) \<and>
    (\<forall>sid' b. registry_lookup sid' r = Some b \<longrightarrow> registry_lookup sid' r' = Some b)"
proof -
  have "registry_lookup sid' r' = Some b" if "registry_lookup sid' r = Some b" for sid' b
  proof -
    have "sid' \<noteq> sid" using that assms(2) by auto
    then show ?thesis using that by (simp add: r'_def reg_lookup_insert)
  qed
  then show ?thesis using reg_wf_start [OF assms(1)] by (simp add: r'_def reg_lookup_insert)
qed

interpretation sysreg: service_registry "system_registry_get False" reg_wf "\<lambda>r sid. registry_lookup sid r"
  by unfold_locales (simp_all add: system_registry_get_def split_def Let_def new_service)

interpretation arbreg: service_registry "registry_get (\<lambda>_. []) (Suc 0)" reg_wf "\<lambda>r sid. registry_lookup sid r"
  by unfold_locales (simp_all add: split_def Let_def new_service)

section \<open>Properties\<close>

text \<open>A service has one address: when requests to a registry run one after the other, all of them succeed,
  and requests for the same service get the same address.  This holds for the registry of the
  system, and for that of an arbiter with services that ask for no other service when they
  start.\<close>

theorem service_address_unique:
  assumes "reg_wf r" and "i < length sids" and "j < length sids" and "sids ! i = sids ! j"
  shows "(\<exists>as r'. get_all (system_registry_get False) sids r = Inr (as, r') \<and> as ! i = as ! j) \<and>
    (\<exists>as r'. get_all (registry_get (\<lambda>_. []) (Suc 0)) sids r = Inr (as, r') \<and> as ! i = as ! j)"
  by (intro conjI sysreg.gets_same arbreg.gets_same assms)

theorem service_address_unique_witness:
  "\<exists>as r'. get_all (system_registry_get False) [7, 8, 7 :: nat] (registry_new 0) = Inr (as, r') \<and> as ! 0 = as ! 2"
  by (rule service_address_unique [THEN conjunct1]) (simp_all add: reg_wf_def registry_new_def)

text \<open>Services that have been started are registered, and none has been started twice.\<close>

definition started_once :: "'id services \<Rightarrow> bool" where
  "started_once r \<longleftrightarrow> reg_wf r \<and> distinct (sv_started r) \<and> (\<forall>s. s \<in> set (sv_started r) \<longleftrightarrow> registry_lookup s r \<noteq> None)"

lemma started_once_new:
  assumes "started_once r" and "registry_lookup sid r = None"
  shows "started_once (registry_insert sid (fst (start_service sid r)) (snd (start_service sid r)))"
proof -
  let ?r = "registry_insert sid (fst (start_service sid r)) (snd (start_service sid r))"
  have st: "sv_started ?r = sv_started r @ [sid]" by (simp add: registry_insert_def start_service_def)
  have "s \<in> set (sv_started ?r) \<longleftrightarrow> registry_lookup s ?r \<noteq> None" for s
    using assms(1) by (cases "s = sid") (auto simp: st reg_lookup_insert started_once_def)
  moreover have "distinct (sv_started ?r)" using assms by (auto simp: st started_once_def)
  ultimately show ?thesis using new_service [of r sid] assms by (simp add: started_once_def)
qed

lemma service_started_rank:
  assumes get: "\<And>sid r. rank sid < k \<Longrightarrow> started_once r \<Longrightarrow> \<exists>a r'. registry_get deps k sid r = Inr (a, r') \<and> started_once r' \<and>
      registry_lookup sid r' = Some a \<and> (\<forall>s. registry_lookup s r' \<noteq> None \<longrightarrow> registry_lookup s r \<noteq> None \<or> rank s \<le> rank sid)"
  shows "\<lbrakk>\<forall>d \<in> set ds. rank d < n; n \<le> k; started_once r\<rbrakk> \<Longrightarrow> \<exists>r'. service_started deps k ds r = Inr r' \<and> started_once r' \<and>
    (\<forall>s. registry_lookup s r' \<noteq> None \<longrightarrow> registry_lookup s r \<noteq> None \<or> rank s < n)"
proof (induction ds arbitrary: r)
  case (Cons d ds)
  have d: "rank d < k" "rank d < n" using Cons.prems by auto
  obtain a r1 where 1: "registry_get deps k d r = Inr (a, r1)" "started_once r1"
    "\<forall>s. registry_lookup s r1 \<noteq> None \<longrightarrow> registry_lookup s r \<noteq> None \<or> rank s \<le> rank d"
    using get [OF d(1) Cons.prems(3)] by blast
  obtain r2 where 2: "service_started deps k ds r1 = Inr r2" "started_once r2"
    "\<forall>s. registry_lookup s r2 \<noteq> None \<longrightarrow> registry_lookup s r1 \<noteq> None \<or> rank s < n"
    using Cons.IH [of r1] Cons.prems 1(2) by auto
  have "registry_lookup s r \<noteq> None \<or> rank s < n" if "registry_lookup s r2 \<noteq> None" for s
    using that 1(3) 2(3) d(2) by (meson order_le_less_trans)
  then show ?case using 1 2 by simp
qed simp

lemma registry_get_rank:
  assumes deps: "\<And>sid d. d \<in> set (deps sid) \<Longrightarrow> rank d < rank sid"
  shows "rank sid < k \<Longrightarrow> started_once r \<Longrightarrow> \<exists>a r'. registry_get deps k sid r = Inr (a, r') \<and> started_once r' \<and>
      registry_lookup sid r' = Some a \<and> (\<forall>s. registry_lookup s r' \<noteq> None \<longrightarrow> registry_lookup s r \<noteq> None \<or> rank s \<le> rank sid)"
proof (induction k arbitrary: sid r)
  case (Suc k)
  show ?case
  proof (cases "registry_lookup sid r")
    case None
    obtain r1 where 1: "service_started deps k (deps sid) r = Inr r1" "started_once r1"
      "\<forall>s. registry_lookup s r1 \<noteq> None \<longrightarrow> registry_lookup s r \<noteq> None \<or> rank s < rank sid"
      using service_started_rank [of rank k deps "deps sid" "rank sid" r] Suc deps by auto
    have n: "registry_lookup sid r1 = None" using 1(3) None by blast
    let ?r = "registry_insert sid (fst (start_service sid r1)) (snd (start_service sid r1))"
    have "registry_lookup s r \<noteq> None \<or> rank s \<le> rank sid" if "registry_lookup s ?r \<noteq> None" for s
      using that 1(3) by (cases "s = sid") (auto simp: reg_lookup_insert)
    then show ?thesis using None 1 started_once_new [OF 1(2) n] by (simp add: split_def Let_def reg_lookup_insert)
  qed (use Suc.prems in auto)
qed simp

text \<open>C35: Services of an arbiter are started once.  If the services that a service asks for when it starts are
  ranked below it, a request for it succeeds, in at most as many nested starts as its rank; every
  service it needs has been started, none twice, and its address is registered; and the boxed value
  registered for a type is an address of that type, so that no downcast fails.\<close>

theorem services_started_once:
  assumes "\<And>sid d. d \<in> set (deps sid) \<Longrightarrow> rank d < rank sid" and "rank sid < k" and "started_once r"
  shows "\<exists>a r'. registry_get deps k sid r = Inr (a, r') \<and> registry_lookup sid r' = Some a \<and> distinct (sv_started r') \<and>
    sid \<in> set (sv_started r') \<and> (\<forall>s. s \<in> set (sv_started r') \<longleftrightarrow> registry_lookup s r' \<noteq> None) \<and>
    (\<forall>s v. sv_map r' s = Some v \<longrightarrow> downcast s v \<noteq> None)"
  using registry_get_rank [of deps rank, OF assms] by (force simp: started_once_def reg_wf_def)

theorem services_started_once_witness:
  "\<exists>a r'. registry_get (\<lambda>s. if s = 2 then [0, 1] else if s = 1 then [0] else []) 3 2 (registry_new 0 :: nat services) = Inr (a, r') \<and>
     distinct (sv_started r') \<and> 2 \<in> set (sv_started r')"
proof -
  let ?deps = "\<lambda>s. if s = 2 then [0, 1] else if s = 1 then [0] else [] :: nat list"
  have "\<And>sid d. d \<in> set (?deps sid) \<Longrightarrow> d < sid" by (auto split: if_splits)
  moreover have "started_once (registry_new 0 :: nat services)"
    by (simp add: started_once_def reg_wf_def registry_new_def registry_lookup_def)
  ultimately show ?thesis using services_started_once [of ?deps "\<lambda>s. s" 2 3 "registry_new 0"] by auto
qed

text \<open>Services that need each other are never started: if every service of a set first asks for one of
  the set when it starts, and none of them is registered, a request for one of them does not return,
  however deep the nested starts go.\<close>

theorem cyclic_services_recurse:
  assumes "\<And>s. s \<in> S \<Longrightarrow> \<exists>d ds. deps s = d # ds \<and> d \<in> S" and "\<And>s. s \<in> S \<Longrightarrow> registry_lookup s r = None" and "sid \<in> S"
  shows "registry_get deps k sid r = Inl OutOfFuel"
  using assms(3)
proof (induction k arbitrary: sid)
  case (Suc k)
  then obtain d ds where d: "deps sid = d # ds" "d \<in> S" using assms(1) by blast
  then show ?case using Suc.IH [OF d(2)] assms(2) [OF Suc.prems] by simp
qed simp

theorem cyclic_services_recurse_witness:
  "registry_get (\<lambda>s. [1 - s]) 1000 0 (registry_new 0 :: nat services) = Inl OutOfFuel"
  by (rule cyclic_services_recurse [where S = "{0, 1}"]) (auto simp: registry_new_def registry_lookup_def)

section \<open>Concurrent requests to the system registry\<close>

text \<open>
  The steps of a request, by the sections in which the mutex is held: the lookup, the start of the
  service, the insertion.
\<close>

datatype 'id sr_pc = SrIdle 'id | SrMissed 'id | SrStarted 'id nat | SrDone nat

inductive sr_step :: "'id services \<times> (nat \<Rightarrow> 'id sr_pc) \<Rightarrow> 'id services \<times> (nat \<Rightarrow> 'id sr_pc) \<Rightarrow> bool" where
  hit: "pcs t = SrIdle sid \<Longrightarrow> registry_lookup sid r = Some addr \<Longrightarrow> sr_step (r, pcs) (r, pcs(t := SrDone addr))"
| miss: "pcs t = SrIdle sid \<Longrightarrow> registry_lookup sid r = None \<Longrightarrow> sr_step (r, pcs) (r, pcs(t := SrMissed sid))"
| start: "pcs t = SrMissed sid \<Longrightarrow> start_service sid r = (addr, r') \<Longrightarrow> sr_step (r, pcs) (r', pcs(t := SrStarted sid addr))"
| insert: "pcs t = SrStarted sid addr \<Longrightarrow> sr_step (r, pcs) (registry_insert sid addr r, pcs(t := SrDone addr))"

text \<open>A system service is not unique under concurrency: two threads that ask for the same unregistered
  service can both miss it, both start it, and be given different addresses.\<close>

theorem system_service_not_unique:
  "\<exists>r pcs a b. sr_step\<^sup>*\<^sup>* (registry_new 0, \<lambda>_. SrIdle sid) (r, pcs) \<and>
     pcs 0 = SrDone a \<and> pcs 1 = SrDone b \<and> a \<noteq> b \<and> sv_started r = [sid, sid]"
proof -
  let ?r0 = "registry_new 0" and ?p0 = "\<lambda>_ :: nat. SrIdle sid"
  let ?p1 = "?p0(0 := SrMissed sid)"
  let ?p2 = "?p1(1 := SrMissed sid)"
  let ?r3 = "snd (start_service sid ?r0)" and ?p3 = "?p2(0 := SrStarted sid 0)"
  let ?r4 = "registry_insert sid 0 ?r3" and ?p4 = "?p3(0 := SrDone 0)"
  let ?r5 = "snd (start_service sid ?r4)" and ?p5 = "?p4(1 := SrStarted sid 1)"
  let ?r6 = "registry_insert sid 1 ?r5" and ?p6 = "?p5(1 := SrDone 1)"
  have "sr_step (?r0, ?p0) (?r0, ?p1)" by (rule miss) (simp_all add: registry_new_def registry_lookup_def)
  moreover have "sr_step (?r0, ?p1) (?r0, ?p2)" by (rule miss) (simp_all add: registry_new_def registry_lookup_def)
  moreover have "sr_step (?r0, ?p2) (?r3, ?p3)" by (rule start) (simp_all add: registry_new_def start_service_def)
  moreover have "sr_step (?r3, ?p3) (?r4, ?p4)" by (rule insert) simp
  moreover have "sr_step (?r4, ?p4) (?r5, ?p5)"
    by (rule start) (simp_all add: registry_new_def start_service_def registry_insert_def)
  moreover have "sr_step (?r5, ?p5) (?r6, ?p6)" by (rule insert) simp
  ultimately have "sr_step\<^sup>*\<^sup>* (?r0, ?p0) (?r6, ?p6)" by (meson converse_rtranclp_into_rtranclp rtranclp.rtrancl_refl)
  moreover have "sv_started ?r6 = [sid, sid]" by (simp add: registry_insert_def start_service_def registry_new_def)
  ultimately show ?thesis by (intro exI [of _ ?r6] exI [of _ ?p6] exI [of _ 0] exI [of _ 1]) simp
qed

end
