(* ===== verification/System_Arbiter.thy ===== *)
theory System_Arbiter
  imports Requests Registry "HOL-Library.AList"
begin

text \<open>
  Arbiters and the system (\<^verbatim>\<open>src/arbiter.rs\<close>, \<^verbatim>\<open>src/system.rs\<close>, \<^verbatim>\<open>src/msgs.rs\<close>) and the condition of \<^verbatim>\<open>src/utils.rs\<close>.  Addresses, reactor handles and one-shot
  senders are numbers.  The thread-local cells of a thread are a record; handlers return what they
  send.
\<close>

type_synonym i32 = "32 word"

section \<open>Messages\<close>

datatype SystemExit = SystemExit i32

datatype StopArbiter = StopArbiter i32

datatype ('i, 'e, 'w) Execute = Execute "'w \<Rightarrow> ('e + 'i) \<times> 'w"

definition execute_new :: "('w \<Rightarrow> ('e + 'i) \<times> 'w) \<Rightarrow> ('i, 'e, 'w) Execute" where
  "execute_new f = Execute f"

fun execute_exec :: "('i, 'e, 'w) Execute \<Rightarrow> 'w \<Rightarrow> ('e + 'i) \<times> 'w" where
  "execute_exec (Execute f) w = f w"

text \<open>The messages the system actor handles.\<close>

datatype sys_msg = RegisterArbiter string nat | UnregisterArbiter string | MsgSystemExit SystemExit

section \<open>The cells of a thread\<close>

record 'id ThreadLocals =
  tl_hnd :: "nat option"
  tl_stop :: "nat option"
  tl_addr :: "nat option"
  tl_reg :: "'id services option"
  tl_name :: "string option"
  tl_sys :: "nat option"
  tl_sysarb :: "nat option"
  tl_sysname :: "string option"
  tl_sysreg :: "nat option"

definition fresh_thread :: "'id ThreadLocals" where
  "fresh_thread =
     \<lparr>tl_hnd = None, tl_stop = None, tl_addr = None, tl_reg = None, tl_name = None, tl_sys = None, tl_sysarb = None,
      tl_sysname = None, tl_sysreg = None\<rparr>"

text \<open>An empty cell is a panic, except for the name.\<close>

definition cell_get :: "'a option \<Rightarrow> 'a exec" where
  "cell_get c = (case c of Some x \<Rightarrow> Inr x | None \<Rightarrow> Inl Panicked)"

definition arbiter_name :: "'id ThreadLocals \<Rightarrow> string" where
  "arbiter_name th = (case tl_name th of Some n \<Rightarrow> n | None \<Rightarrow> ''Arbiter is not running'')"

definition arbiter_arbiter :: "'id ThreadLocals \<Rightarrow> nat exec" where
  "arbiter_arbiter th = cell_get (tl_addr th)"

definition arbiter_system :: "'id ThreadLocals \<Rightarrow> nat exec" where
  "arbiter_system th = cell_get (tl_sys th)"

definition arbiter_system_arbiter :: "'id ThreadLocals \<Rightarrow> nat exec" where
  "arbiter_system_arbiter th = cell_get (tl_sysarb th)"

definition arbiter_system_name :: "'id ThreadLocals \<Rightarrow> string exec" where
  "arbiter_system_name th = cell_get (tl_sysname th)"

definition arbiter_system_registry :: "'id ThreadLocals \<Rightarrow> nat exec" where
  "arbiter_system_registry th = cell_get (tl_sysreg th)"

definition arbiter_handle :: "'id ThreadLocals \<Rightarrow> nat exec" where
  "arbiter_handle th = cell_get (tl_hnd th)"

definition arbiter_registry :: "'id ThreadLocals \<Rightarrow> 'id services exec" where
  "arbiter_registry th = cell_get (tl_reg th)"

text \<open>\<^verbatim>\<open>ArbiterService::from_registry\<close> and \<^verbatim>\<open>SystemService::from_registry\<close>; \<open>regs\<close> are the registries of systems, by number.\<close>

definition arbiter_from_registry ::
  "('id \<Rightarrow> 'id list) \<Rightarrow> nat \<Rightarrow> 'id \<Rightarrow> 'id ThreadLocals \<Rightarrow> (nat \<times> 'id ThreadLocals) exec" where
  "arbiter_from_registry deps k sid th =
     bind_exec (arbiter_registry th) (\<lambda>r.
       bind_exec (registry_get deps k sid r) (\<lambda>(addr, r'). Inr (addr, th\<lparr>tl_reg := Some r'\<rparr>)))"

definition system_from_registry ::
  "bool \<Rightarrow> 'id \<Rightarrow> (nat \<Rightarrow> 'id services) \<Rightarrow> 'id ThreadLocals \<Rightarrow> (nat \<times> (nat \<Rightarrow> 'id services)) exec" where
  "system_from_registry poisoned sid regs th =
     bind_exec (arbiter_system_registry th) (\<lambda>i.
       bind_exec (system_registry_get poisoned sid (regs i)) (\<lambda>(addr, r'). Inr (addr, regs(i := r'))))"

section \<open>Arbiters\<close>

record Arbiter =
  ab_id :: string
  ab_sys :: bool

text \<open>\<^verbatim>\<open>Arbiter::started\<close>: the arbiter, whose address is \<open>addr\<close>, registers itself with the system; the result is
  the receiver and the message.\<close>

definition arbiter_started :: "nat \<Rightarrow> Arbiter \<Rightarrow> 'id ThreadLocals \<Rightarrow> (nat \<times> sys_msg) exec" where
  "arbiter_started addr ab th = bind_exec (arbiter_system th) (\<lambda>sys. Inr (sys, RegisterArbiter (ab_id ab) addr))"

text \<open>\<^verbatim>\<open>Arbiter::new_system\<close>: \<open>h\<close> is the new reactor, \<open>addr\<close> and \<open>saddr\<close> the addresses of the arbiter, \<open>reg\<close> the
  new registry of the system.  The result is the arbiter that is started and the cells.\<close>

definition arbiter_new_system ::
  "nat \<Rightarrow> nat \<Rightarrow> nat \<Rightarrow> nat \<Rightarrow> string \<Rightarrow> string \<Rightarrow> 'id ThreadLocals \<Rightarrow> Arbiter \<times> 'id ThreadLocals" where
  "arbiter_new_system h addr saddr reg uuid name th =
     (\<lparr>ab_id = uuid, ab_sys = True\<rparr>,
      th\<lparr>tl_hnd := Some h, tl_reg := Some (registry_new 0), tl_name := Some name, tl_sysreg := Some reg,
         tl_addr := Some addr, tl_sysarb := Some saddr\<rparr>)"

definition arbiter_set_system :: "nat \<Rightarrow> string \<Rightarrow> 'id ThreadLocals \<Rightarrow> 'id ThreadLocals" where
  "arbiter_set_system addr name th = th\<lparr>tl_sys := Some addr, tl_sysname := Some name\<rparr>"

text \<open>The loop of an arbiter thread ends with the code it was sent, or 1 when the sender was dropped; the
  same holds for the system.\<close>

fun core_run_code :: "unit + i32 \<Rightarrow> i32" where
  "core_run_code (Inr code) = code"
| "core_run_code (Inl _) = 1"

text \<open>
  \<^verbatim>\<open>Arbiter::new\<close>, up to the start of the loop: the arbiter that is started in the new thread, the
  cells of that thread, made from those of the calling thread, and the address that is
  returned; \<open>name\<close> is the formatted name, \<open>stop\<close> the sender that ends the loop.
\<close>

definition arbiter_new ::
  "nat \<Rightarrow> nat \<Rightarrow> nat \<Rightarrow> nat \<Rightarrow> string \<Rightarrow> string \<Rightarrow> 'id ThreadLocals \<Rightarrow> (nat \<times> Arbiter \<times> 'id ThreadLocals) exec" where
  "arbiter_new h stop addr saddr uuid name th =
     bind_exec (arbiter_system th) (\<lambda>sys.
       bind_exec (arbiter_system_name th) (\<lambda>sys_name.
         bind_exec (arbiter_system_arbiter th) (\<lambda>sys_arbiter.
           bind_exec (arbiter_system_registry th) (\<lambda>sys_registry.
             Inr (saddr, \<lparr>ab_id = uuid, ab_sys = False\<rparr>,
               fresh_thread\<lparr>tl_hnd := Some h, tl_stop := Some stop, tl_name := Some name, tl_reg := Some (registry_new 0),
                 tl_sys := Some sys, tl_sysarb := Some sys_arbiter, tl_sysname := Some sys_name, tl_sysreg := Some sys_registry,
                 tl_addr := Some addr\<rparr>)))))"

text \<open>
  The rest of the thread: the loop runs unless the creator is gone (\<open>remote\<close>), \<open>stop_rx\<close> being how its stop
  channel ends; then the arbiter unregisters itself.  The result is the code the loop ended with,
  the receiver and the message.
\<close>

definition arbiter_thread :: "bool \<Rightarrow> unit + i32 \<Rightarrow> Arbiter \<Rightarrow> 'id ThreadLocals \<Rightarrow> (i32 option \<times> nat \<times> sys_msg) exec" where
  "arbiter_thread remote stop_rx ab th =
     (let code = (if remote then Some (core_run_code stop_rx) else None) in
      bind_exec (arbiter_system th) (\<lambda>sys. Inr (code, sys, UnregisterArbiter (ab_id ab))))"

text \<open>\<^verbatim>\<open>Handler<StopArbiter>\<close>: the sender is used once; the result is what is sent on it.\<close>

fun arbiter_handle_stop ::
  "Arbiter \<Rightarrow> StopArbiter \<Rightarrow> 'id ThreadLocals \<Rightarrow> (nat \<times> i32) option \<times> 'id ThreadLocals" where
  "arbiter_handle_stop ab (StopArbiter code) th =
     (if ab_sys ab then (None, th)
      else case tl_stop th of
        Some stop \<Rightarrow> (Some (stop, code), th\<lparr>tl_stop := None\<rparr>)
      | None \<Rightarrow> (None, th))"

definition arbiter_handle_execute :: "('i, 'e, 'w) Execute \<Rightarrow> 'w \<Rightarrow> ('e + 'i) \<times> 'w" where
  "arbiter_handle_execute msg w = execute_exec msg w"

section \<open>The system actor\<close>

record System =
  sy_stop :: "nat option"
  sy_arbiters :: "(string \<times> nat) list"

text \<open>\<^verbatim>\<open>System::new\<close>, on the thread that becomes the system's: \<open>sys\<close> is the address of the system
  actor, \<open>stop\<close> the sender that ends the system's loop.\<close>

definition system_new ::
  "nat \<Rightarrow> nat \<Rightarrow> nat \<Rightarrow> nat \<Rightarrow> string \<Rightarrow> nat \<Rightarrow> nat \<Rightarrow> string \<Rightarrow> 'id ThreadLocals \<Rightarrow> System \<times> Arbiter \<times> 'id ThreadLocals" where
  "system_new h addr saddr reg uuid stop sys name th =
     (let (ab, th1) = arbiter_new_system h addr saddr reg uuid name th
      in (\<lparr>sy_stop = Some stop, sy_arbiters = []\<rparr>, ab, arbiter_set_system sys name th1))"

text \<open>
  \<^verbatim>\<open>SystemRunner\<close>: the reactor \<open>'core\<close> is a parameter, \<open>run\<close> runs it until a future completes.
\<close>

record ('core, 'rx) SystemRunner =
  sr_core :: 'core
  sr_stop :: 'rx

definition runner_handle :: "('core, 'rx) SystemRunner \<Rightarrow> 'id ThreadLocals \<Rightarrow> nat exec" where
  "runner_handle r th = arbiter_handle th"

definition runner_run :: "('core \<Rightarrow> 'rx \<Rightarrow> (unit + i32) \<times> 'core) \<Rightarrow> ('core, 'rx) SystemRunner \<Rightarrow> i32" where
  "runner_run run r = core_run_code (fst (run (sr_core r) (sr_stop r)))"

definition runner_run_until_complete ::
  "('core \<Rightarrow> 'fut \<Rightarrow> ('e + 'i) \<times> 'core) \<Rightarrow> 'fut \<Rightarrow> ('core, 'rx) SystemRunner \<Rightarrow> ('e + 'i) \<times> ('core, 'rx) SystemRunner" where
  "runner_run_until_complete run fut r = (let (res, core') = run (sr_core r) fut in (res, r\<lparr>sr_core := core'\<rparr>))"

text \<open>What a handler of the system sends: \<^verbatim>\<open>StopArbiter\<close> to addresses, a code on the stop channel.\<close>

record sys_out =
  so_sent :: "(nat \<times> StopArbiter) list"
  so_stop :: "(nat \<times> i32) option"

fun system_handle :: "sys_msg \<Rightarrow> System \<Rightarrow> sys_out \<times> System" where
  "system_handle (RegisterArbiter name addr) sy =
     (\<lparr>so_sent = [], so_stop = None\<rparr>, sy\<lparr>sy_arbiters := AList.update name addr (sy_arbiters sy)\<rparr>)"
| "system_handle (UnregisterArbiter name) sy =
     (\<lparr>so_sent = [], so_stop = None\<rparr>, sy\<lparr>sy_arbiters := AList.delete name (sy_arbiters sy)\<rparr>)"
| "system_handle (MsgSystemExit (SystemExit code)) sy =
     (\<lparr>so_sent = map (\<lambda>(_, addr). (addr, StopArbiter code)) (sy_arbiters sy),
       so_stop = map_option (\<lambda>stop. (stop, code)) (sy_stop sy)\<rparr>,
      sy\<lparr>sy_stop := None\<rparr>)"

fun system_run :: "sys_msg list \<Rightarrow> System \<Rightarrow> System" where
  "system_run [] sy = sy"
| "system_run (m # ms) sy = system_run ms (snd (system_handle m sy))"

section \<open>Conditions\<close>

record Condition =
  cond_waiters :: "nat list"

definition condition_default :: Condition where
  "condition_default = \<lparr>cond_waiters = []\<rparr>"

text \<open>\<open>tx\<close> is the sending half of the new one-shot channel.\<close>

definition condition_wait :: "nat \<Rightarrow> Condition \<Rightarrow> Condition" where
  "condition_wait tx c = c\<lparr>cond_waiters := cond_waiters c @ [tx]\<rparr>"

text \<open>What is sent, in order.\<close>

definition condition_set :: "'t \<Rightarrow> Condition \<Rightarrow> (nat \<times> 't) list" where
  "condition_set result c = map (\<lambda>tx. (tx, result)) (cond_waiters c)"

section \<open>Properties\<close>

lemmas cell_defs = arbiter_new_system_def arbiter_set_system_def arbiter_new_def cell_get_def arbiter_handle_def
  arbiter_arbiter_def arbiter_system_def arbiter_system_arbiter_def arbiter_system_name_def arbiter_system_registry_def
  arbiter_registry_def arbiter_name_def fresh_thread_def

text \<open>The cells of a thread are set up before they are needed.  On the thread that creates a system every
  accessor succeeds afterwards, and a thread with a system can create arbiters: the new thread has
  its own reactor, registry and stop channel, every accessor succeeds on it, and it shares the system,
  the system's arbiter and the system's registry with its creator.  On a thread without a system,
  creating an arbiter panics.\<close>

theorem thread_cells_ready:
  assumes "system_new h addr saddr reg uuid stop sys name th = (sy, ab, th1)"
  shows "arbiter_handle th1 = Inr h \<and> arbiter_arbiter th1 = Inr addr \<and> arbiter_system th1 = Inr sys \<and>
    arbiter_system_arbiter th1 = Inr saddr \<and> arbiter_system_name th1 = Inr name \<and> arbiter_system_registry th1 = Inr reg \<and>
    arbiter_registry th1 = Inr (registry_new 0) \<and>
    (\<exists>ab2 th2. arbiter_new h2 stop2 addr2 saddr2 uuid2 name2 th1 = Inr (saddr2, ab2, th2) \<and> arbiter_handle th2 = Inr h2 \<and>
      arbiter_arbiter th2 = Inr addr2 \<and> tl_stop th2 = Some stop2 \<and> arbiter_registry th2 = Inr (registry_new 0) \<and>
      arbiter_name th2 = name2 \<and> arbiter_system th2 = Inr sys \<and> arbiter_system_name th2 = Inr name \<and>
      arbiter_system_arbiter th2 = Inr saddr \<and> arbiter_system_registry th2 = Inr reg) \<and>
    arbiter_new h2 stop2 addr2 saddr2 uuid2 name2 (fresh_thread :: 'id ThreadLocals) = Inl Panicked"
  using assms by (auto simp: system_new_def cell_defs)

theorem thread_cells_ready_witness:
  "\<exists>sy ab th1. system_new 1 2 3 4 ''u'' 5 6 ''test'' (fresh_thread :: nat ThreadLocals) = (sy, ab, th1) \<and> arbiter_system th1 = Inr 6"
proof -
  obtain sy ab th1 where s: "system_new 1 2 3 4 ''u'' 5 6 ''test'' (fresh_thread :: nat ThreadLocals) = (sy, ab, th1)"
    by (meson prod_cases3)
  show ?thesis using thread_cells_ready [OF s] s by blast
qed

text \<open>A service of the system has one address on all its threads: what one thread gets from the registry, a thread created
  from it gets too.  Services of an arbiter are its own: a new arbiter has none.\<close>

lemma services_of_threads:
  assumes "arbiter_new h stop addr saddr uuid name th = Inr (r, ab, th1)" and "system_from_registry False sid regs th = Inr (a, regs1)"
  shows "system_from_registry False sid regs1 th1 = Inr (a, regs1)"
    and "arbiter_registry th1 = Inr (registry_new 0) \<and> registry_lookup sid (registry_new 0) = None"
  using assms
  by (auto simp: system_from_registry_def cell_defs bind_exec_eq_Inr system_registry_get_def registry_new_def registry_lookup_def
      registry_insert_def start_service_def Let_def fun_upd_idem split: option.splits)

text \<open>What the system knows of arbiters after a history of messages.\<close>

fun registered :: "sys_msg list \<Rightarrow> (string \<rightharpoonup> nat) \<Rightarrow> (string \<rightharpoonup> nat)" where
  "registered [] m = m"
| "registered (RegisterArbiter name addr # ms) m = registered ms (m(name \<mapsto> addr))"
| "registered (UnregisterArbiter name # ms) m = registered ms (m(name := None))"
| "registered (MsgSystemExit e # ms) m = registered ms m"

fun exits :: "sys_msg list \<Rightarrow> bool" where
  "exits [] = False"
| "exits (MsgSystemExit e # ms) = True"
| "exits (_ # ms) = exits ms"

lemma registered_append: "registered (ms @ ns) m = registered ns (registered ms m)"
  by (induction ms m rule: registered.induct) (simp_all add: fun_upd_def)

lemma exits_append: "exits (ms @ ns) \<longleftrightarrow> exits ms \<or> exits ns"
  by (induction ms rule: exits.induct) simp_all

lemma system_run_state:
  "distinct (map fst (sy_arbiters sy)) \<Longrightarrow>
   distinct (map fst (sy_arbiters (system_run ms sy))) \<and>
   map_of (sy_arbiters (system_run ms sy)) = registered ms (map_of (sy_arbiters sy)) \<and>
   sy_stop (system_run ms sy) = (if exits ms then None else sy_stop sy)"
proof (induction ms arbitrary: sy)
  case (Cons m ms)
  show ?case
  proof (cases m)
    case (RegisterArbiter name addr)
    then show ?thesis using Cons.IH [of "snd (system_handle m sy)"] Cons.prems by (simp add: distinct_update update_conv' fun_upd_def)
  next
    case (UnregisterArbiter name)
    then show ?thesis using Cons.IH [of "snd (system_handle m sy)"] Cons.prems
      by (simp add: distinct_delete delete_conv' fun_upd_def)
  next
    case (MsgSystemExit e)
    then show ?thesis using Cons.IH [of "snd (system_handle m sy)"] Cons.prems by (cases e) auto
  qed
qed simp

text \<open>The life of an arbiter thread that has been created: it starts, is told to stop and ends.\<close>

lemma arbiter_life:
  assumes "arbiter_new h stop addr saddr uuid name th = Inr (r, ab, th1)"
  shows "\<exists>sys. arbiter_system th = Inr sys \<and> arbiter_started r ab th1 = Inr (sys, RegisterArbiter uuid r) \<and>
    arbiter_handle_stop ab (StopArbiter code) th1 = (Some (stop, code), th1\<lparr>tl_stop := None\<rparr>) \<and>
    arbiter_handle_stop ab (StopArbiter code2) (th1\<lparr>tl_stop := None\<rparr>) = (None, th1\<lparr>tl_stop := None\<rparr>) \<and>
    arbiter_thread True (Inr code) ab th1 = Inr (Some code, sys, UnregisterArbiter uuid)"
  using assms by (auto simp: cell_defs arbiter_started_def arbiter_thread_def bind_exec_eq_Inr split: option.splits)

text \<open>What the system does with \<^verbatim>\<open>SystemExit\<close> after a history of messages.\<close>

lemma system_exit_sends:
  assumes "system_handle (MsgSystemExit (SystemExit code)) (system_run ms \<lparr>sy_stop = Some stop, sy_arbiters = []\<rparr>) = (out, sy')"
  shows "set (so_sent out) = (\<lambda>addr. (addr, StopArbiter code)) ` ran (registered ms Map.empty)"
    "length (so_sent out) = card (dom (registered ms Map.empty))"
    "so_stop out = (if exits ms then None else Some (stop, code))"
proof -
  let ?sy = "system_run ms \<lparr>sy_stop = Some stop, sy_arbiters = []\<rparr>"
  have s: "distinct (map fst (sy_arbiters ?sy))" "map_of (sy_arbiters ?sy) = registered ms Map.empty"
    "sy_stop ?sy = (if exits ms then None else Some stop)"
    using system_run_state [of "\<lparr>sy_stop = Some stop, sy_arbiters = []\<rparr>" ms] by simp_all
  have r: "ran (registered ms Map.empty) = snd ` set (sy_arbiters ?sy)"
    using ran_distinct [OF s(1)] s(2) by simp
  have c: "card (dom (registered ms Map.empty)) = length (sy_arbiters ?sy)"
    using s by (metis dom_map_of_conv_image_fst distinct_card length_map set_map)
  have o: "so_sent out = map (\<lambda>(_, addr). (addr, StopArbiter code)) (sy_arbiters ?sy)"
    "so_stop out = map_option (\<lambda>stop. (stop, code)) (sy_stop ?sy)" using assms by auto
  show "set (so_sent out) = (\<lambda>addr. (addr, StopArbiter code)) ` ran (registered ms Map.empty)"
    unfolding r by (auto simp: o image_image split_def)
  show "length (so_sent out) = card (dom (registered ms Map.empty))" using c o by simp
  show "so_stop out = (if exits ms then None else Some (stop, code))" using o s(3) by auto
qed

text \<open>C36: Shutting down reaches every arbiter.  After any history of messages to the system, creating an
  arbiter makes its thread send a registration; after that registration the system answers \<^verbatim>\<open>SystemExit\<close> by sending
  \<^verbatim>\<open>StopArbiter\<close> with the same code to exactly the arbiters that are registered, the new one among them, one message
  for each, and by ending its own loop with the code, once: a later exit does not.  The new
  arbiter, told to stop, ends its loop with that code, ignores later requests to stop, and on its way out
  removes exactly its own registration.\<close>

theorem system_exit_reaches_registered:
  assumes "arbiter_new h astop addr saddr uuid name th = Inr (r, ab, th1)" and "arbiter_started r ab th1 = Inr (sys, reg)"
    and "system_handle (MsgSystemExit (SystemExit code)) (system_run (ms @ [reg]) \<lparr>sy_stop = Some stop, sy_arbiters = []\<rparr>) = (out, sy')"
  shows "set (so_sent out) = (\<lambda>addr. (addr, StopArbiter code)) ` ran (registered (ms @ [reg]) Map.empty) \<and>
    length (so_sent out) = card (dom (registered (ms @ [reg]) Map.empty)) \<and> (saddr, StopArbiter code) \<in> set (so_sent out) \<and>
    so_stop out = (if exits ms then None else Some (stop, code)) \<and>
    arbiter_handle_stop ab (StopArbiter code) th1 = (Some (astop, code), th1\<lparr>tl_stop := None\<rparr>) \<and>
    arbiter_handle_stop ab (StopArbiter code2) (th1\<lparr>tl_stop := None\<rparr>) = (None, th1\<lparr>tl_stop := None\<rparr>) \<and>
    (\<exists>unreg. arbiter_thread True (Inr code) ab th1 = Inr (Some code, sys, unreg) \<and>
      registered (ms @ [reg, unreg]) Map.empty = (registered ms Map.empty)(uuid := None))"
proof -
  note e = system_exit_sends [OF assms(3)]
  have l: "reg = RegisterArbiter uuid r" "r = saddr" "arbiter_thread True (Inr code) ab th1 = Inr (Some code, sys, UnregisterArbiter uuid)"
    "arbiter_handle_stop ab (StopArbiter code) th1 = (Some (astop, code), th1\<lparr>tl_stop := None\<rparr>)"
    "arbiter_handle_stop ab (StopArbiter code2) (th1\<lparr>tl_stop := None\<rparr>) = (None, th1\<lparr>tl_stop := None\<rparr>)"
    using arbiter_life [OF assms(1), of code code2] assms(1,2) by (auto simp: arbiter_new_def bind_exec_eq_Inr)
  have "saddr \<in> ran (registered (ms @ [reg]) Map.empty)" by (auto simp: l registered_append ran_def)
  with e l show ?thesis by (auto simp: registered_append exits_append)
qed

theorem system_exit_reaches_registered_witness:
  "\<exists>sy ab0 th ab th1 reg out sy'. system_new 1 2 3 4 ''u'' 9 6 ''test'' (fresh_thread :: nat ThreadLocals) = (sy, ab0, th) \<and>
     arbiter_new 11 12 13 8 ''b'' ''n'' th = Inr (8, ab, th1) \<and> arbiter_started 8 ab th1 = Inr (6, reg) \<and>
     system_handle (MsgSystemExit (SystemExit 3)) (system_run ([RegisterArbiter ''a'' 7, UnregisterArbiter ''a''] @ [reg]) sy) = (out, sy') \<and>
     set (so_sent out) = {(8, StopArbiter 3)} \<and> so_stop out = Some (9, 3)"
proof -
  let ?ms = "[RegisterArbiter ''a'' 7, UnregisterArbiter ''a'']"
  obtain sy ab0 th where s: "system_new 1 2 3 4 ''u'' 9 6 ''test'' (fresh_thread :: nat ThreadLocals) = (sy, ab0, th)"
    by (meson prod_cases3)
  then have sy: "sy = \<lparr>sy_stop = Some 9, sy_arbiters = []\<rparr>" by (auto simp: system_new_def cell_defs)
  obtain ab th1 where n: "arbiter_new 11 12 13 8 ''b'' ''n'' th = Inr (8, ab, th1)" and g: "arbiter_started 8 ab th1 = Inr (6, RegisterArbiter ''b'' 8)"
    using s by (auto simp: system_new_def cell_defs arbiter_started_def)
  obtain out sy' where e: "system_handle (MsgSystemExit (SystemExit 3)) (system_run (?ms @ [RegisterArbiter ''b'' 8]) \<lparr>sy_stop = Some 9, sy_arbiters = []\<rparr>) = (out, sy')"
    by force
  have "set (so_sent out) = {(8, StopArbiter 3)}" "so_stop out = Some (9, 3)"
    using system_exit_reaches_registered [OF n g e] by (auto simp: ran_def split: if_splits)
  then show ?thesis using s n g e unfolding sy by blast
qed

end
