(* ===== verification/Process_Signals.thy ===== *)
theory Process_Signals
  imports System_Arbiter Handlers
begin

text \<open>
  Process signals (\<^verbatim>\<open>src/actors/signal.rs\<close>): the service that installs the signals and broadcasts them to its
  subscribers, and the default handler that stops the system.
\<close>

section \<open>Subscribers\<close>

datatype SignalType = Hup | SigInt | Term | Quit | Child

datatype Signal = Signal SignalType

text \<open>
  \<^verbatim>\<open>ProcessSignals\<close>: its subscribers are recipients, each on its own channel; \<open>chans\<close> are the
  channels.
\<close>

record ProcessSignals =
  ps_subscribers :: "nat list"

definition signals_default :: ProcessSignals where
  "signals_default = \<lparr>ps_subscribers = []\<rparr>"

definition signals_subscribe :: "nat \<Rightarrow> ProcessSignals \<Rightarrow> ProcessSignals" where
  "signals_subscribe sub ps = ps\<lparr>ps_subscribers := ps_subscribers ps @ [sub]\<rparr>"

fun signal_all ::
  "(Signal \<Rightarrow> 'otx option \<Rightarrow> 'e) \<Rightarrow> SignalType \<Rightarrow> nat list \<Rightarrow> nat list \<Rightarrow> (nat \<Rightarrow> 'e Chan) \<Rightarrow>
     (nat list \<times> (nat \<Rightarrow> 'e Chan)) exec" where
  "signal_all pack sig [] kept chans = Inr (kept, chans)"
| "signal_all pack sig (s # subs) kept chans =
     bind_exec (sync_do_send pack (Signal sig) (chans s)) (\<lambda>(r, c).
       signal_all pack sig subs (case r of Inr _ \<Rightarrow> kept @ [s] | Inl _ \<Rightarrow> kept) (chans(s := c)))"

definition signals_handle ::
  "(Signal \<Rightarrow> 'otx option \<Rightarrow> 'e) \<Rightarrow> SignalType \<Rightarrow> ProcessSignals \<Rightarrow> (nat \<Rightarrow> 'e Chan) \<Rightarrow>
     (ProcessSignals \<times> (nat \<Rightarrow> 'e Chan)) exec" where
  "signals_handle pack sig ps chans =
     bind_exec (signal_all pack sig (ps_subscribers ps) [] chans) (\<lambda>(kept, chans').
       Inr (ps\<lparr>ps_subscribers := kept\<rparr>, chans'))"

section \<open>Installing the signals\<close>

text \<open>
  \<^verbatim>\<open>SystemService::service_started\<close> spawns a future for every signal of the platform; when it completes it gives the
  stream of the occurrences of that signal, which is added to the actor's messages.  The futures
  (\<open>'g\<close>, polled by \<open>gp\<close>) and streams (\<open>'s\<close>, polled by \<open>sp\<close>) are those of the crate \<^verbatim>\<open>tokio-signal\<close>; \<open>src\<close> makes the
  future of a signal.  The context does not poll a future again that has completed.
\<close>

datatype ('g, 's) signal_item = SignalFuture SignalType 'g | SignalStream SignalType 's

definition signals_service_started :: "bool \<Rightarrow> (SignalType \<Rightarrow> 'g) \<Rightarrow> (('g, 's) signal_item, 'e, unit) code" where
  "signals_service_started unix src =
     CtxSpawn (SignalFuture SigInt (src SigInt)) (\<lambda>_.
       if unix then
         CtxSpawn (SignalFuture Hup (src Hup)) (\<lambda>_.
           CtxSpawn (SignalFuture Term (src Term)) (\<lambda>_.
             CtxSpawn (SignalFuture Quit (src Quit)) (\<lambda>_.
               CtxSpawn (SignalFuture Child (src Child)) (\<lambda>_. Return ()))))
       else Return ())"

text \<open>The stream with its errors dropped and its items replaced by the signal.\<close>

definition signal_stream_poll ::
  "('s \<Rightarrow> 'w \<Rightarrow> ('x option, 'er) Poll \<times> 's \<times> 'w) \<Rightarrow> SignalType \<Rightarrow> 's \<Rightarrow> 'w \<Rightarrow> (SignalType option, unit) Poll \<times> 's \<times> 'w" where
  "signal_stream_poll sp t s w =
     (case sp s w of
        (Inr NotReady, s1, w1) \<Rightarrow> (PNotReady, s1, w1)
      | (Inr (Ready (Some _)), s1, w1) \<Rightarrow> (PReady (Some t), s1, w1)
      | (Inr (Ready None), s1, w1) \<Rightarrow> (PReady None, s1, w1)
      | (Inl _, s1, w1) \<Rightarrow> (PErr (), s1, w1))"

fun signal_item_poll ::
  "('g \<Rightarrow> 'w \<Rightarrow> ('s, 'ge) Poll \<times> 'g \<times> 'w) \<Rightarrow> ('s \<Rightarrow> 'w \<Rightarrow> ('x option, 'er) Poll \<times> 's \<times> 'w) \<Rightarrow>
   ('tx, 'r, 'af, 'pf, ('g, 's) signal_item, 'w) resp_env \<Rightarrow>
   (SignalType \<Rightarrow> 'w \<Rightarrow> (('g, 's) signal_item, 'e, ('r, 'af, 'pf) response \<times> 'w) code) \<Rightarrow>
   nat \<Rightarrow> ('g, 's) signal_item \<Rightarrow> 'w \<Rightarrow> (('g, 's) signal_item, 'e, (unit, unit) Poll \<times> ('g, 's) signal_item \<times> 'w) code" where
  "signal_item_poll gp sp env handle k (SignalFuture t g) w =
     (case gp g w of
        (Inr NotReady, g1, w1) \<Rightarrow> Return (PNotReady, SignalFuture t g1, w1)
      | (Inr (Ready sig), g1, w1) \<Rightarrow>
          code_bind (ctx_add_message_stream (SignalStream t sig)) (\<lambda>_. Return (PReady (), SignalFuture t g1, w1))
      | (Inl _, g1, w1) \<Rightarrow> Return (PErr (), SignalFuture t g1, w1))"
| "signal_item_poll gp sp env handle k (SignalStream t s) w =
     code_bind (message_stream_poll (signal_stream_poll sp t) env handle k s w) (\<lambda>(r, s1, w1).
       Return (r, SignalStream t s1, w1))"

text \<open>The handler as the code of the actor; its state is the record and the channels of the recipients.\<close>

definition signals_on_signal ::
  "(Signal \<Rightarrow> 'otx option \<Rightarrow> 'm) \<Rightarrow> SignalType \<Rightarrow> ProcessSignals \<times> (nat \<Rightarrow> 'm Chan) \<Rightarrow>
     ('f, 'e, (unit, 'af, 'pf) response \<times> ProcessSignals \<times> (nat \<Rightarrow> 'm Chan)) code" where
  "signals_on_signal pack sig w =
     (case signals_handle pack sig (fst w) (snd w) of Inl x \<Rightarrow> Fault x | Inr w1 \<Rightarrow> Return (Reply (), w1))"

section \<open>The default handler\<close>

text \<open>\<^verbatim>\<open>DefaultSignalsHandler::started\<close>: \<open>request\<close> is the request \<^verbatim>\<open>Subscribe\<close> to \<^verbatim>\<open>ProcessSignals\<close> for an address, with
  its result dropped, as a future of the actor.\<close>

definition default_handler_started :: "(SyncAddressSender \<Rightarrow> 'f) \<Rightarrow> 'w \<Rightarrow> ('f, 'e, 'w) code" where
  "default_handler_started request w = CtxSyncAddress (\<lambda>slf. CtxWait (request slf) (Return w))"

text \<open>What it sends to the system, and the handler, which asks the thread for the system.\<close>

fun default_signal :: "Signal \<Rightarrow> sys_msg option" where
  "default_signal (Signal SigInt) = Some (MsgSystemExit (SystemExit 0))"
| "default_signal (Signal Hup) = None"
| "default_signal (Signal Term) = Some (MsgSystemExit (SystemExit 0))"
| "default_signal (Signal Quit) = Some (MsgSystemExit (SystemExit 0))"
| "default_signal (Signal Child) = None"

definition default_handle :: "Signal \<Rightarrow> 'id ThreadLocals \<Rightarrow> (nat \<times> sys_msg) option exec" where
  "default_handle sig th =
     (case default_signal sig of
        None \<Rightarrow> Inr None
      | Some msg \<Rightarrow> bind_exec (arbiter_system th) (\<lambda>sys. Inr (Some (sys, msg))))"

section \<open>Broadcast\<close>

lemma signal_all_spec:
  assumes "\<forall>s. chan_wf (chans s) (ms s) (ps s) \<and> length (ms s) + length subs < 2 ^ 63"
  shows "\<exists>chans'. signal_all pack sig subs kept chans = Inr (kept @ filter (\<lambda>s. chan_open (chans s)) subs, chans') \<and>
    (\<forall>s. chan_open (chans' s) = chan_open (chans s) \<and>
      chan_wf (chans' s) (ms s @ (if chan_open (chans s) then replicate (count_list subs s) (pack (Signal sig) None) else [])) (ps s))"
  using assms
proof (induction subs arbitrary: kept chans ms)
  case (Cons x subs)
  show ?case
  proof (cases "chan_open (chans x)")
    case True
    obtain c where c: "sync_do_send pack (Signal sig) (chans x) = Inr (Inr (), c)" "chan_wf c (ms x @ [pack (Signal sig) None]) (ps x)" "chan_open c"
      using sync_do_send_open [of "chans x" "ms x" "ps x" pack "Signal sig"] Cons.prems True
      by (metis add_lessD1 add.assoc add.commute length_Cons plus_1_eq_Suc)
    let ?ms = "ms(x := ms x @ [pack (Signal sig) None])"
    have p: "chan_wf (chans s) (ms s) (ps s)" "Suc (length (ms s) + length subs) < 2 ^ 63" for s
      using Cons.prems by simp_all
    have "\<forall>s. chan_wf ((chans(x := c)) s) (?ms s) (ps s) \<and> length (?ms s) + length subs < 2 ^ 63"
      using c(2) p(1) p(2) [THEN Suc_lessD] p(2) [of x] by simp
    from Cons.IH [OF this, of "kept @ [x]"] obtain chans' where
      r: "signal_all pack sig subs (kept @ [x]) (chans(x := c)) = Inr ((kept @ [x]) @ filter (\<lambda>s. chan_open ((chans(x := c)) s)) subs, chans')"
      and q: "\<And>s. chan_open (chans' s) = chan_open ((chans(x := c)) s)"
        "\<And>s. chan_wf (chans' s) (?ms s @ (if chan_open ((chans(x := c)) s) then replicate (count_list subs s) (pack (Signal sig) None) else [])) (ps s)"
      by blast
    have f: "filter (\<lambda>s. chan_open ((chans(x := c)) s)) subs = filter (\<lambda>s. chan_open (chans s)) subs"
      using True c(3) by (intro filter_cong) auto
    have "chan_open (chans' s) = chan_open (chans s) \<and>
      chan_wf (chans' s) (ms s @ (if chan_open (chans s) then replicate (count_list (x # subs) s) (pack (Signal sig) None) else [])) (ps s)" for s
      using q [of s] True c(3) by (cases "s = x"; cases "chan_open (chans s)") simp_all
    then show ?thesis using c(1) r [unfolded f] True by (intro exI [of _ chans'] conjI allI) simp_all
  next
    case False
    have p: "\<forall>s. chan_wf (chans s) (ms s) (ps s) \<and> length (ms s) + length subs < 2 ^ 63"
      using Cons.prems by (auto intro: less_trans)
    have d: "(if chan_open (chans s) then replicate (count_list (x # subs) s) e else []) =
        (if chan_open (chans s) then replicate (count_list subs s) e else [])" for s e
      using False by auto
    show ?thesis using Cons.IH [OF p, of kept] False unfolding d by (simp add: sync_do_send_closed fun_upd_idem split del: if_split)
  qed
qed simp

text \<open>A process signal is broadcast.  The handler of \<^verbatim>\<open>ProcessSignals\<close> puts the signal once for every
  subscription at the end of the mailbox of each subscriber that is alive, whatever the capacity of
  its mailbox, touches no other mailbox, and keeps exactly the subscriptions of living
  subscribers, in order; a second signal meets the same subscribers.\<close>

theorem signals_broadcast:
  assumes "\<forall>s. chan_wf (chans s) (ms s) (ps s) \<and> length (ms s) + length (ps_subscribers sg) < 2 ^ 63"
  shows "\<exists>chans'. signals_handle pack sig sg chans =
      Inr (sg\<lparr>ps_subscribers := filter (\<lambda>s. chan_open (chans s)) (ps_subscribers sg)\<rparr>, chans') \<and>
    (\<forall>s. chan_open (chans' s) = chan_open (chans s) \<and>
      chan_wf (chans' s) (ms s @ (if chan_open (chans s) then replicate (count_list (ps_subscribers sg) s) (pack (Signal sig) None) else [])) (ps s))"
  using signal_all_spec [OF assms, of pack sig "[]"] by (auto simp: signals_handle_def split del: if_split)

theorem signals_broadcast_witness:
  "\<exists>chans'. signals_handle (\<lambda>m (tx :: unit option). 1) Quit (signals_subscribe 4 (signals_subscribe 2 signals_default)) (\<lambda>s. example_chan) =
     Inr (\<lparr>ps_subscribers = [2, 4]\<rparr>, chans') \<and> chan_wf (chans' 4) [1] [] \<and> chan_wf (chans' 3) [] []"
proof -
  have "\<forall>s::nat. chan_wf example_chan [] [] \<and> length ([] :: nat list) + length (ps_subscribers (signals_subscribe 4 (signals_subscribe 2 signals_default))) < 2 ^ 63"
    using example_chan_wf by (simp add: signals_subscribe_def signals_default_def)
  from signals_broadcast [OF this, of "\<lambda>m (tx :: unit option). 1" Quit]
  obtain chans' where r: "signals_handle (\<lambda>m (tx :: unit option). 1) Quit (signals_subscribe 4 (signals_subscribe 2 signals_default)) (\<lambda>s. example_chan) =
      Inr (\<lparr>ps_subscribers = [2, 4]\<rparr>, chans')" and
    q: "\<And>s. chan_wf (chans' s) (replicate (count_list [2, 4] s) 1) []"
    using example_chan_wf by (auto simp: signals_subscribe_def signals_default_def)
  show ?thesis using r q [of 4] q [of 3] by simp
qed

section \<open>From a signal to the end of the system\<close>

lemma spawn_items:
  "ctx_spawn False f c = Inr (h, c') \<Longrightarrow> c_items c' = c_items c @ [(h, f)]"
  "\<exists>h c'. ctx_spawn False f c = Inr (h, c')"
  by (auto simp: ctx_spawn_def ctx_modify_def handle_next_def)

lemma signals_installed:
  "\<exists>c'. run_code False (signals_service_started True src) c = Inr ((), c') \<and>
     map snd (c_items c') = map snd (c_items c) @ map (\<lambda>t. SignalFuture t (src t)) [SigInt, Hup, Term, Quit, Child]"
  unfolding signals_service_started_def by (simp add: ctx_spawn_def ctx_modify_def handle_next_def)

lemma signal_stream_added:
  assumes "gp g w = (PReady s, g1, w1)" and "ctx_state c \<noteq> Stopped"
  shows "\<exists>c'. run_code False (signal_item_poll gp sp env handle k (SignalFuture t g) w) c = Inr ((PReady (), SignalFuture t g1, w1), c') \<and>
     map snd (c_items c') = map snd (c_items c) @ [SignalStream t s]"
  using assms by (simp add: run_code_bind ctx_add_message_stream_def ctx_spawn_def ctx_modify_def handle_next_def)

lemma signal_stream_handled:
  assumes "sp s (sg, chans) = (PReady (Some x), s1, (sg, chans))" and "sp s1 w1 = (PNotReady, s2, w1)"
    and "signals_handle pack t sg chans = Inr w1" and "\<not> ctx_waiting c"
  shows "run_code dbg (signal_item_poll gp sp env (signals_on_signal pack) (Suc (Suc k)) (SignalStream t s) (sg, chans)) c =
    Inr ((PNotReady, SignalStream t s2, w1), c)"
  using assms
  by (simp add: run_code_bind signal_stream_poll_def handle_no_reply_def signals_on_signal_def reply_handle_def send_opt_def)



end
