(* ===== verification/Chat_Codec.thy ===== *)
theory Chat_Codec
  imports Actix_Prelude
begin

text \<open>
  The wire format of the chat example (\<^verbatim>\<open>examples/chat/src/codec.rs\<close>): a message is its JSON text behind a
  two-byte big-endian length.  The JSON functions (crate \<^verbatim>\<open>serde_json\<close>) are parameters: \<open>js\<close> gives the bytes of a
  message, \<open>parse\<close> reads them back or fails.  The buffers (\<^verbatim>\<open>BytesMut\<close>) are byte lists.
\<close>

unbundle bit_operations_syntax

section \<open>Messages\<close>

datatype ChatRequest = ReqList | ReqJoin string | ReqMessage string | ReqPing

datatype ChatResponse = RespPing | RespRooms "string list" | RespJoined string | RespMessage string

section \<open>Frames\<close>

text \<open>\<^verbatim>\<open>BigEndian::read_u16\<close> panics on a short slice, \<^verbatim>\<open>split_to\<close> past the end.\<close>

fun read_u16 :: "u8 list \<Rightarrow> u16 exec" where
  "read_u16 (a # b # _) = Inr (push_bit 8 (ucast a) OR ucast b)"
| "read_u16 _ = Inl Panicked"

definition put_u16 :: "u16 \<Rightarrow> u8 list \<Rightarrow> u8 list" where
  "put_u16 n dst = dst @ [ucast (drop_bit 8 n), ucast n]"

definition bytes_split_to :: "nat \<Rightarrow> u8 list \<Rightarrow> (u8 list \<times> u8 list) exec" where
  "bytes_split_to n src = (if n \<le> length src then Inr (take n src, drop n src) else Inl Panicked)"

text \<open>The result and the buffer that is left.\<close>

definition frame_decode :: "(u8 list \<Rightarrow> 'er + 'm) \<Rightarrow> u8 list \<Rightarrow> (('er + 'm option) \<times> u8 list) exec" where
  "frame_decode parse src =
     (if length src < 2 then Inr (Inr None, src)
      else bind_exec (read_u16 src) (\<lambda>n.
        let size = unat n in
        if size + 2 \<le> length src then
          bind_exec (bytes_split_to 2 src) (\<lambda>(_, src1).
            bind_exec (bytes_split_to size src1) (\<lambda>(buf, src2).
              Inr (case parse buf of Inl e \<Rightarrow> Inl e | Inr m \<Rightarrow> Inr (Some m), src2)))
        else Inr (Inr None, src)))"

definition frame_encode :: "('m \<Rightarrow> u8 list) \<Rightarrow> 'm \<Rightarrow> u8 list \<Rightarrow> u8 list" where
  "frame_encode js msg dst = (let msg_ref = js msg in put_u16 (of_nat (length msg_ref)) dst @ msg_ref)"

text \<open>\<^verbatim>\<open>ChatCodec\<close> is the server's side, \<^verbatim>\<open>ClientChatCodec\<close> the client's.\<close>

definition chat_decode :: "(u8 list \<Rightarrow> 'er + ChatRequest) \<Rightarrow> u8 list \<Rightarrow> (('er + ChatRequest option) \<times> u8 list) exec" where
  "chat_decode parse src = frame_decode parse src"

definition chat_encode :: "(ChatResponse \<Rightarrow> u8 list) \<Rightarrow> ChatResponse \<Rightarrow> u8 list \<Rightarrow> u8 list" where
  "chat_encode js msg dst = frame_encode js msg dst"

definition client_decode :: "(u8 list \<Rightarrow> 'er + ChatResponse) \<Rightarrow> u8 list \<Rightarrow> (('er + ChatResponse option) \<times> u8 list) exec" where
  "client_decode parse src = frame_decode parse src"

definition client_encode :: "(ChatRequest \<Rightarrow> u8 list) \<Rightarrow> ChatRequest \<Rightarrow> u8 list \<Rightarrow> u8 list" where
  "client_encode js msg dst = frame_encode js msg dst"

section \<open>Reading a stream of frames\<close>

text \<open>
  A transport appends what it receives to the buffer and decodes until no frame is complete.
  The first component is what was decoded, in order.
\<close>

locale frame_codec =
  fixes dec :: "u8 list \<Rightarrow> (('er + 'm option) \<times> u8 list) exec" and frame :: "'m \<Rightarrow> u8 list" and ok :: "'m \<Rightarrow> bool"
  assumes dec_frame: "ok m \<Longrightarrow> dec (frame m @ rest) = Inr (Inr (Some m), rest)"
    and dec_partial: "ok m \<Longrightarrow> frame m = part @ rest \<Longrightarrow> rest \<noteq> [] \<Longrightarrow> dec part = Inr (Inr None, part)"
    and frame_nonempty: "ok m \<Longrightarrow> frame m \<noteq> []"
    and dec_empty: "dec [] = Inr (Inr None, [])"

fun decode_all ::
  "(u8 list \<Rightarrow> (('er + 'm option) \<times> u8 list) exec) \<Rightarrow> nat \<Rightarrow> u8 list \<Rightarrow> (('er + 'm) list \<times> u8 list) exec" where
  "decode_all dec 0 src = Inl OutOfFuel"
| "decode_all dec (Suc k) src =
     bind_exec (dec src) (\<lambda>(r, src1).
       case r of
         Inr None \<Rightarrow> Inr ([], src1)
       | Inr (Some m) \<Rightarrow> bind_exec (decode_all dec k src1) (\<lambda>(rs, src2). Inr (Inr m # rs, src2))
       | Inl e \<Rightarrow> Inr ([Inl e], src1))"

fun receive_chunks ::
  "(u8 list \<Rightarrow> (('er + 'm option) \<times> u8 list) exec) \<Rightarrow> u8 list list \<Rightarrow> u8 list \<Rightarrow> (('er + 'm) list \<times> u8 list) exec" where
  "receive_chunks dec [] buf = Inr ([], buf)"
| "receive_chunks dec (c # cs) buf =
     bind_exec (decode_all dec (Suc (length (buf @ c))) (buf @ c)) (\<lambda>(rs, buf1).
       bind_exec (receive_chunks dec cs buf1) (\<lambda>(rs2, buf2). Inr (rs @ rs2, buf2)))"

text \<open>No frame of the messages \<open>ms\<close> to come is complete in \<open>rest\<close>.\<close>

definition incomplete :: "('m \<Rightarrow> u8 list) \<Rightarrow> 'm list \<Rightarrow> u8 list \<Rightarrow> bool" where
  "incomplete frame ms rest \<longleftrightarrow> (case ms of [] \<Rightarrow> rest = [] | m # _ \<Rightarrow> length rest < length (frame m))"

context frame_codec
begin

text \<open>Whatever part of the frames has arrived: the complete ones are decoded, the rest stays.\<close>

lemma decode_all_prefix:
  assumes "list_all ok ms" and "concat (map frame ms) = buf @ later" and "length buf < k"
  shows "\<exists>ms1 ms2 rest. ms = ms1 @ ms2 \<and> decode_all dec k buf = Inr (map Inr ms1, rest) \<and>
    concat (map frame ms2) = rest @ later \<and> incomplete frame ms2 rest"
  using assms
proof (induction k arbitrary: ms buf)
  case (Suc k)
  show ?case
  proof (cases ms)
    case Nil
    then show ?thesis using Suc.prems by (auto simp: dec_empty incomplete_def)
  next
    case (Cons m ms')
    then have m: "ok m" "list_all ok ms'" "frame m @ concat (map frame ms') = buf @ later" using Suc.prems by auto
    from m(3) consider us where "buf = frame m @ us" "concat (map frame ms') = us @ later"
      | us where "frame m = buf @ us" "us \<noteq> []" "later = us @ concat (map frame ms')"
      by (auto simp: append_eq_append_conv2) force
    then show ?thesis
    proof cases
      case 1
      then have "length us < k" using Suc.prems(3) frame_nonempty [OF m(1)] by (cases "frame m") auto
      from Suc.IH [OF m(2) 1(2) this] obtain ms1 ms2 rest where "ms' = ms1 @ ms2" "decode_all dec k us = Inr (map Inr ms1, rest)"
        "concat (map frame ms2) = rest @ later" "incomplete frame ms2 rest" by blast
      then show ?thesis using Cons 1(1) m(1) by (intro exI [of _ "m # ms1"] exI [of _ ms2] exI [of _ rest]) (simp add: dec_frame)
    next
      case 2
      then show ?thesis using dec_partial [OF m(1) 2(1,2)] Suc.prems Cons
        by (intro exI [of _ "[]"] exI [of _ ms] exI [of _ buf]) (simp add: incomplete_def)
    qed
  qed
qed simp

lemma receive_chunks_prefix:
  assumes "list_all ok ms" and "concat (map frame ms) = buf @ concat cs @ later" and "incomplete frame ms buf"
  shows "\<exists>ms1 ms2 rest. ms = ms1 @ ms2 \<and> receive_chunks dec cs buf = Inr (map Inr ms1, rest) \<and>
    concat (map frame ms2) = rest @ later \<and> incomplete frame ms2 rest"
  using assms
proof (induction cs arbitrary: ms buf)
  case (Cons c cs)
  have p: "concat (map frame ms) = (buf @ c) @ (concat cs @ later)" using Cons.prems(2) by simp
  from decode_all_prefix [OF Cons.prems(1) p lessI]
  obtain ms1 ms2 rest where 1: "ms = ms1 @ ms2" "decode_all dec (Suc (length (buf @ c))) (buf @ c) = Inr (map Inr ms1, rest)"
    "concat (map frame ms2) = rest @ concat cs @ later" "incomplete frame ms2 rest" by blast
  from 1(1) Cons.prems(1) have "list_all ok ms2" by simp
  from Cons.IH [OF this 1(3,4)] obtain ms3 ms4 rest2 where 2: "ms2 = ms3 @ ms4" "receive_chunks dec cs rest = Inr (map Inr ms3, rest2)"
    "concat (map frame ms4) = rest2 @ later" "incomplete frame ms4 rest2" by blast
  then show ?case using 1(1,2) 2
    by (intro exI [of _ "ms1 @ ms3"] exI [of _ ms4] exI [of _ rest2]) (simp del: decode_all.simps)
qed auto

text \<open>When all frames have arrived, all messages have been decoded and nothing is left.\<close>

lemma receive_chunks_all:
  assumes "list_all ok ms" and "concat (map frame ms) = concat cs"
  shows "receive_chunks dec cs [] = Inr (map Inr ms, [])"
proof -
  have i: "incomplete frame ms []" using assms(1) frame_nonempty by (cases ms) (auto simp: incomplete_def)
  obtain ms1 ms2 rest where r: "ms = ms1 @ ms2" "receive_chunks dec cs [] = Inr (map Inr ms1, rest)"
    "concat (map frame ms2) = rest" "incomplete frame ms2 rest"
    using receive_chunks_prefix [OF assms(1), of "[]" cs "[]"] assms(2) i by auto
  have "ms2 = []" using r(3,4) by (cases ms2) (auto simp: incomplete_def)
  with r show ?thesis by simp
qed

end

section \<open>The codec\<close>

text \<open>What is assumed of the JSON functions: they invert each other.\<close>

definition json_ok :: "('m \<Rightarrow> u8 list) \<Rightarrow> (u8 list \<Rightarrow> 'er + 'm) \<Rightarrow> 'm \<Rightarrow> bool" where
  "json_ok js parse m \<longleftrightarrow> parse (js m) = Inr m"

lemma read_put_u16: "read_u16 (ucast (drop_bit 8 n) # ucast n # rest) = Inr n"
proof -
  have "push_bit 8 (ucast (ucast (drop_bit 8 n :: u16) :: u8)) OR ucast (ucast n :: u8) = n"
    by (rule bit_word_eqI) (auto simp: bit_simps)
  then show ?thesis by simp
qed

lemma frame_eq:
  "frame_encode js m dst = dst @ [ucast (drop_bit 8 (of_nat (length (js m)) :: u16)), ucast (of_nat (length (js m)) :: u16)] @ js m"
  by (simp add: frame_encode_def put_u16_def Let_def)

interpretation chat: frame_codec "frame_decode parse" "\<lambda>m. frame_encode js m []" "\<lambda>m. json_ok js parse m \<and> length (js m) < 2 ^ 16"
  for parse js
proof
  fix m rest part
  let ?n = "of_nat (length (js m)) :: u16"
  assume ok: "json_ok js parse m \<and> length (js m) < 2 ^ 16"
  then have n: "unat ?n = length (js m)" by (simp add: unat_of_nat take_bit_nat_eq_self_iff)
  then show "frame_decode parse (frame_encode js m [] @ rest) = Inr (Inr (Some m), rest)"
    using ok by (simp add: frame_decode_def frame_eq read_put_u16 bytes_split_to_def json_ok_def del: read_u16.simps)
  assume p: "frame_encode js m [] = part @ rest" "rest \<noteq> []"
  show "frame_decode parse part = Inr (Inr None, part)"
  proof (cases "length part < 2")
    case False
    then obtain a b xs where part: "part = a # b # xs" by (cases part; cases "tl part") auto
    with p have ab: "a = ucast (drop_bit 8 ?n)" "b = ucast ?n" "js m = xs @ rest" by (auto simp: frame_eq)
    show ?thesis unfolding part ab(1,2) using n p(2)
      by (simp add: frame_decode_def read_put_u16 ab(3) del: read_u16.simps)
  qed (simp add: frame_decode_def)
qed (simp_all add: frame_eq frame_decode_def)

text \<open>C38: Messages survive the wire, however it cuts them up.  If the JSON functions invert each other on the
  messages sent and every message fits the two-byte length, then whatever chunks the frames of a list of
  messages arrive in, exactly the messages whose frames have arrived completely have been decoded, in order
  and without an error, and the buffer holds the beginning of the next frame; this holds in
  both directions.\<close>

theorem chat_codec_roundtrip:
  assumes "\<forall>m \<in> set ms. json_ok js parse m \<and> length (js m) < 2 ^ 16" and "concat (map (\<lambda>m. chat_encode js m []) ms) = concat cs @ later"
    and "\<forall>m \<in> set ms'. json_ok js' parse' m \<and> length (js' m) < 2 ^ 16"
    and "concat (map (\<lambda>m. client_encode js' m []) ms') = concat cs' @ later'"
  shows "(\<exists>ms1 ms2 rest. ms = ms1 @ ms2 \<and> receive_chunks (client_decode parse) cs [] = Inr (map Inr ms1, rest) \<and>
      concat (map (\<lambda>m. chat_encode js m []) ms2) = rest @ later \<and> incomplete (\<lambda>m. chat_encode js m []) ms2 rest) \<and>
    (\<exists>ms1 ms2 rest. ms' = ms1 @ ms2 \<and> receive_chunks (chat_decode parse') cs' [] = Inr (map Inr ms1, rest) \<and>
      concat (map (\<lambda>m. client_encode js' m []) ms2) = rest @ later' \<and> incomplete (\<lambda>m. client_encode js' m []) ms2 rest)"
proof -
  have d: "client_decode parse = frame_decode parse" "chat_decode parse' = frame_decode parse'"
    by (simp_all add: fun_eq_iff client_decode_def chat_decode_def)
  have i: "incomplete (\<lambda>m. frame_encode j m []) l []" for j :: "'m \<Rightarrow> u8 list" and l
    by (simp add: incomplete_def frame_eq split: list.splits)
  show ?thesis
    unfolding d chat_encode_def client_encode_def using assms
    by (intro conjI chat.receive_chunks_prefix) (simp_all add: list_all_iff i chat_encode_def client_encode_def)
qed

theorem chat_codec_roundtrip_witness:
  "\<exists>rest. receive_chunks (client_decode (\<lambda>_. Inr RespPing :: unit + ChatResponse)) [[0], [1, 123, 0]] [] = Inr ([Inr RespPing], rest) \<and> rest = [0]"
proof -
  let ?js = "\<lambda>_. [123]" and ?parse = "\<lambda>_. Inr RespPing :: unit + ChatResponse"
  have e: "chat_encode ?js m [] = [0, 1, 123]" for m
    by (simp add: chat_encode_def frame_eq)
  have c: "concat (map (\<lambda>m. chat_encode ?js m []) [RespPing, RespPing]) = concat [[0], [1, 123, 0]] @ [1, 123]" by (simp add: e)
  from chat_codec_roundtrip [OF _ c, of ?parse "[]" "\<lambda>_. []" "\<lambda>_. Inl ()" "[]" "[]"]
  obtain ms1 ms2 rest where r: "[RespPing, RespPing] = ms1 @ ms2" "concat (map (\<lambda>m. chat_encode ?js m []) ms2) = rest @ [1, 123]"
    "incomplete (\<lambda>m. chat_encode ?js m []) ms2 rest"
    "receive_chunks (client_decode ?parse) [[0], [1, 123, 0]] [] = Inr (map Inr ms1, rest)"
    by (auto simp: json_ok_def simp del: receive_chunks.simps)
  from r(1-3) have "ms1 = [RespPing]" "rest = [0]"
    by (auto simp: Cons_eq_append_conv e append_eq_append_conv2 append_eq_Cons_conv incomplete_def)
  with r(4) show ?thesis by (auto simp del: receive_chunks.simps)
qed

text \<open>A message that does not fit the two-byte length is cut: the reader parses only its first bytes
  and takes the rest of it for the next frame.\<close>

lemma oversized_frame_cut:
  "frame_decode parse (frame_encode js m [] @ rest) =
     (let k = length (js m) mod 2 ^ 16 in
      Inr (case parse (take k (js m)) of Inl e \<Rightarrow> Inl e | Inr m' \<Rightarrow> Inr (Some m'), drop k (js m) @ rest))"
proof -
  have "unat (of_nat (length (js m)) :: u16) = length (js m) mod 2 ^ 16" by (simp add: unat_of_nat take_bit_eq_mod)
  moreover have "length (js m) mod 2 ^ 16 \<le> length (js m)" by simp
  ultimately show ?thesis
    by (simp add: frame_decode_def frame_eq read_put_u16 bytes_split_to_def Let_def del: read_u16.simps)
qed

end
