(* ===== verification/Chat_Server.thy ===== *)
theory Chat_Server
  imports Chat_Codec
begin

text \<open>
  The actors of the chat example: the server (\<^verbatim>\<open>examples/chat/src/server.rs\<close>) and a session
  (\<^verbatim>\<open>examples/chat/src/session.rs\<close>).  Hash maps and sets that are iterated are lists, in some order of
  iteration; addresses of sessions are numbers.  Handlers return what they send.
\<close>

section \<open>The server\<close>

datatype server_msg =
  Disconnect usize
| Message usize string string
| ListRooms
| Join usize string

record ChatServer =
  sv_sessions :: "usize \<rightharpoonup> nat"
  sv_rooms :: "(string \<times> usize list) list"

definition main_room :: string where
  "main_room = ''Main''"

definition server_default :: ChatServer where
  "server_default = \<lparr>sv_sessions = Map.empty, sv_rooms = [(main_room, [])]\<rparr>"

definition send_message :: "string \<Rightarrow> string \<Rightarrow> usize \<Rightarrow> ChatServer \<Rightarrow> (nat \<times> string) list" where
  "send_message room message skip_id s =
     (case map_of (sv_rooms s) room of
        None \<Rightarrow> []
      | Some ids \<Rightarrow> concat (map (\<lambda>i. if i \<noteq> skip_id then
            (case sv_sessions s i of Some addr \<Rightarrow> [(addr, message)] | None \<Rightarrow> []) else []) ids))"

text \<open>\<^verbatim>\<open>rooms.get_mut(name).unwrap().insert(id)\<close>\<close>

fun room_add :: "string \<Rightarrow> usize \<Rightarrow> (string \<times> usize list) list \<Rightarrow> (string \<times> usize list) list exec" where
  "room_add name i [] = Inl Panicked"
| "room_add name i ((n, ids) # rs) =
     (if n = name then Inr ((n, List.insert i ids) # rs)
      else bind_exec (room_add name i rs) (\<lambda>rs'. Inr ((n, ids) # rs')))"

text \<open>The loop that removes a session from all rooms and collects the rooms it was in.\<close>

definition leave_rooms :: "usize \<Rightarrow> (string \<times> usize list) list \<Rightarrow> string list \<times> (string \<times> usize list) list" where
  "leave_rooms i rooms =
     (map fst (filter (\<lambda>(n, ids). i \<in> set ids) rooms), map (\<lambda>(n, ids). (n, removeAll i ids)) rooms)"

definition notify_rooms :: "string list \<Rightarrow> ChatServer \<Rightarrow> (nat \<times> string) list" where
  "notify_rooms rooms s = concat (map (\<lambda>room. send_message room ''Someone disconnected'' 0 s) rooms)"

text \<open>\<open>i\<close> is the random id.\<close>

definition server_connect :: "usize \<Rightarrow> nat \<Rightarrow> ChatServer \<Rightarrow> (usize \<times> (nat \<times> string) list \<times> ChatServer) exec" where
  "server_connect i addr s =
     (let out = send_message main_room ''Someone joined'' 0 s in
      bind_exec (room_add main_room i (sv_rooms s)) (\<lambda>rooms.
        Inr (i, out, s\<lparr>sv_sessions := (sv_sessions s)(i \<mapsto> addr), sv_rooms := rooms\<rparr>)))"

definition server_disconnect :: "usize \<Rightarrow> ChatServer \<Rightarrow> (nat \<times> string) list \<times> ChatServer" where
  "server_disconnect i s =
     (if sv_sessions s i \<noteq> None then
        (let (left, rooms) = leave_rooms i (sv_rooms s);
             s' = s\<lparr>sv_sessions := (sv_sessions s)(i := None), sv_rooms := rooms\<rparr>
         in (notify_rooms left s', s'))
      else ([], s))"

definition server_list_rooms :: "ChatServer \<Rightarrow> string list" where
  "server_list_rooms s = map fst (sv_rooms s)"

definition server_join :: "usize \<Rightarrow> string \<Rightarrow> ChatServer \<Rightarrow> ((nat \<times> string) list \<times> ChatServer) exec" where
  "server_join i name s =
     (let (left, rooms) = leave_rooms i (sv_rooms s);
          s1 = s\<lparr>sv_rooms := rooms\<rparr>;
          out1 = notify_rooms left s1;
          s2 = (if map_of rooms name = None then s1\<lparr>sv_rooms := rooms @ [(name, [])]\<rparr> else s1);
          out2 = send_message name ''Someone connected'' i s2
      in bind_exec (room_add name i (sv_rooms s2)) (\<lambda>rooms'. Inr (out1 @ out2, s2\<lparr>sv_rooms := rooms'\<rparr>)))"

fun server_handle :: "server_msg \<Rightarrow> ChatServer \<Rightarrow> ((nat \<times> string) list \<times> ChatServer) exec" where
  "server_handle (Disconnect i) s = Inr (server_disconnect i s)"
| "server_handle (Message i msg room) s = Inr (send_message room msg i s, s)"
| "server_handle ListRooms s = Inr ([], s)"
| "server_handle (Join i name) s = server_join i name s"

section \<open>A session\<close>

record ChatSession =
  se_id :: usize
  se_hb :: nat
  se_room :: string

definition session_new :: "nat \<Rightarrow> ChatSession" where
  "session_new now = \<lparr>se_id = 0, se_hb = now, se_room = main_room\<rparr>"

text \<open>What a session does: send to the server, ask it to connect or for the rooms and wait, write to its peer, set a timer of so many
  seconds, stop.\<close>

datatype session_out = ToServer server_msg | AskConnect | AskRooms | WriteFrame ChatResponse | SessionTimer nat | SessionStop

definition session_hb :: "session_out list" where
  "session_hb = [SessionTimer 1]"

definition session_started :: "session_out list" where
  "session_started = session_hb @ [AskConnect]"

text \<open>The answer to \<^verbatim>\<open>Connect\<close> and to \<^verbatim>\<open>ListRooms\<close>.\<close>

fun session_connected :: "MailboxError + usize \<Rightarrow> ChatSession \<Rightarrow> session_out list \<times> ChatSession" where
  "session_connected (Inr res) se = ([], se\<lparr>se_id := res\<rparr>)"
| "session_connected (Inl _) se = ([SessionStop], se)"

fun session_rooms :: "MailboxError + string list \<Rightarrow> session_out list" where
  "session_rooms (Inr rooms) = [WriteFrame (RespRooms rooms)]"
| "session_rooms (Inl _) = []"

fun session_request :: "nat \<Rightarrow> ChatRequest \<Rightarrow> ChatSession \<Rightarrow> session_out list \<times> ChatSession" where
  "session_request now ReqList se = ([AskRooms], se)"
| "session_request now (ReqJoin name) se =
     ([ToServer (Join (se_id se) name), WriteFrame (RespJoined name)], se\<lparr>se_room := name\<rparr>)"
| "session_request now (ReqMessage message) se = ([ToServer (Message (se_id se) message (se_room se))], se)"
| "session_request now ReqPing se = ([], se\<lparr>se_hb := now\<rparr>)"

definition session_message :: "string \<Rightarrow> session_out list" where
  "session_message msg = [WriteFrame (RespMessage msg)]"

text \<open>The timer fires; times are in nanoseconds.\<close>

definition session_heartbeat :: "nat \<Rightarrow> ChatSession \<Rightarrow> session_out list" where
  "session_heartbeat now se =
     (if now - se_hb se > 10 * 10 ^ 9 then [ToServer (Disconnect (se_id se)), SessionStop] else []) @ [WriteFrame RespPing] @ session_hb"

definition session_stopping :: "ChatSession \<Rightarrow> session_out list" where
  "session_stopping se = [ToServer (Disconnect (se_id se))]"

section \<open>Rooms\<close>

abbreviation members :: "(string \<times> usize list) list \<Rightarrow> usize list" where
  "members rooms \<equiv> concat (map snd rooms)"

definition server_wf :: "ChatServer \<Rightarrow> bool" where
  "server_wf s \<longleftrightarrow> distinct (map fst (sv_rooms s)) \<and> main_room \<in> fst ` set (sv_rooms s) \<and>
     distinct (members (sv_rooms s)) \<and> set (members (sv_rooms s)) = dom (sv_sessions s)"

lemma room_add_ok:
  assumes "name \<in> fst ` set rooms" and "i \<notin> set (members rooms)"
  shows "\<exists>rooms'. room_add name i rooms = Inr rooms' \<and> map fst rooms' = map fst rooms \<and>
    mset (members rooms') = add_mset i (mset (members rooms)) \<and> (\<exists>ids. (name, ids) \<in> set rooms' \<and> i \<in> set ids) \<and>
    (\<forall>n ids. (n, ids) \<in> set rooms \<longrightarrow> (\<exists>ids'. (n, ids') \<in> set rooms' \<and> set ids \<subseteq> set ids'))"
  using assms
proof (induction rooms)
  case (Cons r rooms)
  obtain n ids where r: "r = (n, ids)" by force
  show ?case
  proof (cases "n = name")
    case True
    then show ?thesis using Cons.prems r by auto
  next
    case False
    then show ?thesis using Cons r by auto blast+
  qed
qed simp

lemma leave_rooms_members: "members (snd (leave_rooms i rooms)) = removeAll i (members rooms)"
  by (induction rooms) (auto simp: leave_rooms_def)

lemma leave_rooms_names [simp]: "map fst (snd (leave_rooms i rooms)) = map fst rooms"
  by (induction rooms) (auto simp: leave_rooms_def)

definition member :: "ChatServer \<Rightarrow> usize \<Rightarrow> string \<Rightarrow> bool" where
  "member s i r \<longleftrightarrow> (\<exists>ids. (r, ids) \<in> set (sv_rooms s) \<and> i \<in> set ids)"

lemma member_rooms [simp]: "member (s\<lparr>sv_sessions := m, sv_rooms := rooms\<rparr>) = member (s\<lparr>sv_rooms := rooms\<rparr>)"
  by (simp add: member_def fun_eq_iff)

lemma member_leave: "member s j r \<Longrightarrow> j \<noteq> i \<Longrightarrow> member (s\<lparr>sv_rooms := snd (leave_rooms i (sv_rooms s))\<rparr>) j r"
  by (force simp: member_def leave_rooms_def)

text \<open>Adding a session to a room, for servers whose rooms do not hold it.\<close>

lemma add_member:
  assumes "distinct (map fst rooms)" and "main_room \<in> fst ` set rooms" and "distinct (members rooms)"
    and "i \<notin> set (members rooms)" and "name \<in> fst ` set rooms" and "dom ses = insert i (set (members rooms))"
  shows "\<exists>rooms'. room_add name i rooms = Inr rooms' \<and> server_wf (s\<lparr>sv_sessions := ses, sv_rooms := rooms'\<rparr>) \<and>
    member (s\<lparr>sv_sessions := ses, sv_rooms := rooms'\<rparr>) i name \<and>
    (\<forall>j r. member (s\<lparr>sv_rooms := rooms\<rparr>) j r \<longrightarrow> member (s\<lparr>sv_sessions := ses, sv_rooms := rooms'\<rparr>) j r)"
proof -
  from room_add_ok [OF assms(5,4)] obtain rooms' where r: "room_add name i rooms = Inr rooms'" "map fst rooms' = map fst rooms"
    "mset (members rooms') = add_mset i (mset (members rooms))" "\<exists>ids. (name, ids) \<in> set rooms' \<and> i \<in> set ids"
    "\<And>n ids. (n, ids) \<in> set rooms \<Longrightarrow> \<exists>ids'. (n, ids') \<in> set rooms' \<and> set ids \<subseteq> set ids'" by blast
  have m: "mset (members rooms') = mset (i # members rooms)" using r(3) by simp
  have "distinct (members rooms')" using mset_eq_imp_distinct_iff [OF m] assms(3,4) by simp
  moreover have "set (members rooms') = insert i (set (members rooms))" using mset_eq_setD [OF m] by simp
  moreover have "fst ` set rooms' = fst ` set rooms" using r(2) by (metis list.set_map)
  ultimately have "server_wf (s\<lparr>sv_sessions := ses, sv_rooms := rooms'\<rparr>)" using r(2) assms by (simp add: server_wf_def)
  moreover have "member (s\<lparr>sv_rooms := rooms'\<rparr>) j r" if "member (s\<lparr>sv_rooms := rooms\<rparr>) j r" for j r
    using that r(5) by (auto simp: member_def) blast
  ultimately show ?thesis using r(1,4) by (auto simp: member_def)
qed

lemma connect_wf:
  assumes "server_wf s" and "i \<notin> dom (sv_sessions s)"
  shows "\<exists>out s'. server_connect i addr s = Inr (i, out, s') \<and> server_wf s' \<and> member s' i main_room \<and>
    (\<forall>j r. member s j r \<longrightarrow> member s' j r)"
proof -
  have w: "distinct (map fst (sv_rooms s))" "main_room \<in> fst ` set (sv_rooms s)" "distinct (members (sv_rooms s))"
    "i \<notin> set (members (sv_rooms s))" "dom ((sv_sessions s)(i \<mapsto> addr)) = insert i (set (members (sv_rooms s)))"
    using assms by (simp_all add: server_wf_def del: set_concat)
  from add_member [OF w(1-4,2,5), of s] show ?thesis by (auto simp: server_connect_def)
qed

lemma disconnect_wf:
  assumes "server_wf s"
  shows "server_wf (snd (server_disconnect i s)) \<and> (\<forall>j r. j \<noteq> i \<longrightarrow> member s j r \<longrightarrow> member (snd (server_disconnect i s)) j r)"
proof -
  have "fst ` set (snd (leave_rooms i (sv_rooms s))) = fst ` set (sv_rooms s)" by (metis leave_rooms_names list.set_map)
  then have "server_wf (s\<lparr>sv_sessions := (sv_sessions s)(i := None), sv_rooms := snd (leave_rooms i (sv_rooms s))\<rparr>)"
    using assms by (simp add: server_wf_def leave_rooms_members distinct_removeAll)
  then show ?thesis using assms member_leave by (auto simp: server_disconnect_def split_def Let_def)
qed

lemma join_wf:
  assumes "server_wf s" and "i \<in> dom (sv_sessions s)"
  shows "\<exists>out s'. server_join i name s = Inr (out, s') \<and> server_wf s' \<and> member s' i name \<and> sv_sessions s' = sv_sessions s \<and>
    (\<forall>j r. j \<noteq> i \<longrightarrow> member s j r \<longrightarrow> member s' j r)"
proof -
  let ?rooms = "snd (leave_rooms i (sv_rooms s))"
  let ?rooms2 = "if map_of ?rooms name = None then ?rooms @ [(name, [])] else ?rooms"
  have names: "fst ` set ?rooms = fst ` set (sv_rooms s)" by (metis leave_rooms_names list.set_map)
  have n: "map_of ?rooms name = None \<longleftrightarrow> name \<notin> fst ` set ?rooms" by (simp add: map_of_eq_None_iff)
  have m: "members ?rooms2 = removeAll i (members (sv_rooms s))" by (simp add: leave_rooms_members)
  have d: "distinct (map fst ?rooms2)" "main_room \<in> fst ` set ?rooms2" "distinct (members ?rooms2)" "i \<notin> set (members ?rooms2)"
    "name \<in> fst ` set ?rooms2" "dom (sv_sessions s) = insert i (set (members ?rooms2))"
    using assms n names unfolding m by (auto simp: server_wf_def distinct_removeAll simp del: set_concat)
  have keep: "member (s\<lparr>sv_rooms := ?rooms2\<rparr>) j r" if "member s j r" "j \<noteq> i" for j r
    using member_leave [OF that] by (auto simp: member_def)
  from add_member [OF d, of s] obtain rooms' where a: "room_add name i ?rooms2 = Inr rooms'" "server_wf (s\<lparr>sv_rooms := rooms'\<rparr>)"
    "member (s\<lparr>sv_rooms := rooms'\<rparr>) i name" "\<And>j r. member (s\<lparr>sv_rooms := ?rooms2\<rparr>) j r \<Longrightarrow> member (s\<lparr>sv_rooms := rooms'\<rparr>) j r"
    by auto
  have "\<exists>out. server_join i name s = Inr (out, s\<lparr>sv_rooms := rooms'\<rparr>)"
    using a(1) by (auto simp: server_join_def split_def Let_def)
  then show ?thesis using a(2-4) keep by fastforce
qed

section \<open>A session among others\<close>

fun to_server :: "session_out list \<Rightarrow> server_msg list" where
  "to_server [] = []"
| "to_server (ToServer m # out) = m # to_server out"
| "to_server (_ # out) = to_server out"

text \<open>What other sessions, which know only their own id, send.\<close>

fun foreign :: "usize \<Rightarrow> ChatServer \<Rightarrow> server_msg \<Rightarrow> bool" where
  "foreign i s (Disconnect j) \<longleftrightarrow> j \<noteq> i"
| "foreign i s (Message j _ _) \<longleftrightarrow> j \<noteq> i"
| "foreign i s ListRooms \<longleftrightarrow> True"
| "foreign i s (Join j _) \<longleftrightarrow> j \<noteq> i \<and> j \<in> dom (sv_sessions s)"

text \<open>
  The states of one session, the messages on their way from it to the server, and the server.  The ids
  the server draws are new.
\<close>

inductive chat_reach :: "ChatSession \<Rightarrow> server_msg list \<Rightarrow> ChatServer \<Rightarrow> bool" where
  connect: "server_wf s \<Longrightarrow> i \<notin> dom (sv_sessions s) \<Longrightarrow> server_connect i addr s = Inr (i, out, s') \<Longrightarrow>
    session_connected (Inr i) (session_new now) = (out', se) \<Longrightarrow> chat_reach se [] s'"
| request: "chat_reach se q s \<Longrightarrow> session_request now r se = (out, se') \<Longrightarrow> chat_reach se' (q @ to_server out) s"
| deliver: "chat_reach se (m # q) s \<Longrightarrow> server_handle m s = Inr (out, s') \<Longrightarrow> chat_reach se q s'"
| other_connects: "chat_reach se q s \<Longrightarrow> i \<notin> dom (sv_sessions s) \<Longrightarrow> server_connect i addr s = Inr (j, out, s') \<Longrightarrow> chat_reach se q s'"
| other_sends: "chat_reach se q s \<Longrightarrow> foreign (se_id se) s m \<Longrightarrow> server_handle m s = Inr (out, s') \<Longrightarrow> chat_reach se q s'"

fun last_join :: "server_msg list \<Rightarrow> string \<Rightarrow> string" where
  "last_join [] r = r"
| "last_join (Join i n # q) r = last_join q n"
| "last_join (_ # q) r = last_join q r"

fun own_msg :: "usize \<Rightarrow> server_msg \<Rightarrow> bool" where
  "own_msg i (Join j n) \<longleftrightarrow> j = i"
| "own_msg i (Message j m r) \<longleftrightarrow> j = i"
| "own_msg i _ \<longleftrightarrow> False"

lemma last_join_append: "last_join (q @ q') r = last_join q' (last_join q r)"
  by (induction q r rule: last_join.induct) simp_all

definition tracked :: "ChatSession \<Rightarrow> server_msg list \<Rightarrow> ChatServer \<Rightarrow> bool" where
  "tracked se q s \<longleftrightarrow> server_wf s \<and> list_all (own_msg (se_id se)) q \<and>
     (\<exists>r. member s (se_id se) r \<and> last_join q r = se_room se)"

lemma wf_member_dom: "server_wf s \<Longrightarrow> member s i r \<Longrightarrow> i \<in> dom (sv_sessions s)"
  by (force simp: server_wf_def member_def)

lemma member_unique:
  assumes "server_wf s" and "member s i r" and "member s i r'"
  shows "r = r'"
proof -
  have "r = r'" if "distinct (members rooms)" "(r, ids) \<in> set rooms" "(r', ids') \<in> set rooms" "i \<in> set ids" "i \<in> set ids'" for rooms ids ids'
    using that by (induction rooms) force+
  then show ?thesis using assms by (auto simp: server_wf_def member_def simp del: set_concat)
qed

lemma other_keeps:
  assumes "server_wf s" and "foreign i s m" and "server_handle m s = Inr (out, s')" and "member s i r"
  shows "server_wf s' \<and> member s' i r"
proof (cases m)
  case (Disconnect j)
  then show ?thesis using assms disconnect_wf [OF assms(1), of j] by (cases "server_disconnect j s") auto
next
  case (Join j n)
  then show ?thesis using assms join_wf [OF assms(1), of j n] by fastforce
qed (use assms in auto)

lemma own_handled:
  assumes "server_wf s" and "own_msg i m" and "member s i r"
  shows "\<exists>out s'. server_handle m s = Inr (out, s') \<and> server_wf s' \<and> (\<exists>r'. member s' i r' \<and> last_join (m # q) r = last_join q r')"
  using assms join_wf [OF assms(1) wf_member_dom [OF assms(1,3)]] by (cases m) fastforce+

lemma request_own:
  "session_request now r se = (out, se') \<Longrightarrow> se_id se' = se_id se \<and> list_all (own_msg (se_id se)) (to_server out) \<and>
     last_join (to_server out) (se_room se) = se_room se'"
  by (cases r) auto

lemma chat_reach_tracked: "chat_reach se q s \<Longrightarrow> tracked se q s"
proof (induction rule: chat_reach.induct)
  case (connect s i addr out s' now out' se)
  then show ?case using connect_wf [OF connect(1,2), of addr] by (auto simp: tracked_def session_new_def)
next
  case (request se q s now r out se')
  then show ?case using request_own [OF request(2)] by (auto simp: tracked_def last_join_append)
next
  case (deliver se m q s out s')
  then obtain r where "server_wf s" "own_msg (se_id se) m" "member s (se_id se) r" "last_join (m # q) r = se_room se"
    "list_all (own_msg (se_id se)) q" by (auto simp: tracked_def)
  then show ?case using own_handled [of s "se_id se" m r q] deliver(2) by (auto simp: tracked_def)
next
  case (other_connects se q s i addr j out s')
  then show ?case using connect_wf [of s i addr] by (fastforce simp: tracked_def)
next
  case (other_sends se q s m out s')
  then show ?case using other_keeps [of s "se_id se" m out s'] by (fastforce simp: tracked_def)
qed

text \<open>A message of a session that the server is up to date with.\<close>

lemma tracked_message:
  assumes "tracked se [] s"
  shows "\<exists>ids. map_of (sv_rooms s) (se_room se) = Some ids \<and> se_id se \<in> set ids \<and>
    (\<forall>r. member s (se_id se) r \<longrightarrow> r = se_room se) \<and> distinct ids \<and> set ids \<subseteq> dom (sv_sessions s) \<and>
    send_message (se_room se) text (se_id se) s = map (\<lambda>j. (the (sv_sessions s j), text)) (filter (\<lambda>j. j \<noteq> se_id se) ids)"
proof -
  from assms have wf: "server_wf s" and m: "member s (se_id se) (se_room se)" by (auto simp: tracked_def)
  then obtain ids where ids: "(se_room se, ids) \<in> set (sv_rooms s)" "se_id se \<in> set ids" by (auto simp: member_def)
  have mo: "map_of (sv_rooms s) (se_room se) = Some ids" using wf ids(1) by (simp add: server_wf_def)
  have di: "distinct ids" using wf ids(1) by (force simp: server_wf_def distinct_concat_iff)
  have dom: "set ids \<subseteq> dom (sv_sessions s)" using wf_member_dom [OF wf] ids(1) unfolding member_def by blast
  have "send_message (se_room se) text (se_id se) s = concat (map (\<lambda>i. if i \<noteq> se_id se then [(the (sv_sessions s i), text)] else []) ids)"
    using dom by (simp add: send_message_def mo) (rule arg_cong [where f = concat], rule map_cong, auto)
  also have "\<dots> = map (\<lambda>j. (the (sv_sessions s j), text)) (filter (\<lambda>j. j \<noteq> se_id se) ids)" by (induction ids) simp_all
  finally show ?thesis using mo ids(2) di dom member_unique [OF wf _ m] by auto
qed

text \<open>C39: Peers in a room.  Whatever a connected session requests and whatever other sessions do meanwhile, the
  server handles each message of the session without a panic; and once the messages of the session have
  arrived, the server has it in exactly one room, the one the session believes to be in, and a chat
  message of the session is sent once to each other session in that room and to
  nobody else.\<close>

theorem chat_message_reaches_room:
  assumes "chat_reach se q s"
  shows "(\<forall>m q'. q = m # q' \<longrightarrow> (\<exists>out s'. server_handle m s = Inr (out, s'))) \<and>
    (q = [] \<longrightarrow> (\<exists>ids m out. map_of (sv_rooms s) (se_room se) = Some ids \<and> se_id se \<in> set ids \<and>
       (\<forall>r. member s (se_id se) r \<longrightarrow> r = se_room se) \<and>
       session_request now (ReqMessage text) se = ([ToServer m], se) \<and> server_handle m s = Inr (out, s) \<and>
       out = map (\<lambda>j. (the (sv_sessions s j), text)) (filter (\<lambda>j. j \<noteq> se_id se) ids) \<and> distinct ids \<and> set ids \<subseteq> dom (sv_sessions s)))"
proof (intro conjI impI allI)
  note t = chat_reach_tracked [OF assms]
  show "\<exists>out s'. server_handle m s = Inr (out, s')" if "q = m # q'" for m q'
    using own_handled [of s "se_id se" m] t that by (auto simp: tracked_def simp del: last_join.simps) blast
  assume "q = []"
  with t show "\<exists>ids m out. map_of (sv_rooms s) (se_room se) = Some ids \<and> se_id se \<in> set ids \<and>
       (\<forall>r. member s (se_id se) r \<longrightarrow> r = se_room se) \<and>
       session_request now (ReqMessage text) se = ([ToServer m], se) \<and> server_handle m s = Inr (out, s) \<and>
       out = map (\<lambda>j. (the (sv_sessions s j), text)) (filter (\<lambda>j. j \<noteq> se_id se) ids) \<and> distinct ids \<and> set ids \<subseteq> dom (sv_sessions s)"
    using tracked_message [of se s "text"] by auto
qed

theorem chat_message_reaches_room_witness:
  "\<exists>se s. chat_reach se [] s \<and> se_room se = ''x'' \<and> member s (se_id se) ''x'' \<and> (\<exists>ids. map_of (sv_rooms s) ''x'' = Some ids \<and> se_id se \<in> set ids)"
proof -
  have w: "server_wf server_default" by (simp add: server_wf_def server_default_def)
  define se where "se = (session_new 0)\<lparr>se_id := 5\<rparr>"
  obtain out s1 where c: "server_connect 5 1 server_default = Inr (5, out, s1)"
    using connect_wf [OF w, of 5 1] by (auto simp: server_default_def)
  have r1: "chat_reach se [] s1" by (rule chat_reach.connect [OF w _ c]) (simp_all add: server_default_def se_def)
  have r2: "chat_reach (se\<lparr>se_room := ''x''\<rparr>) [Join 5 ''x''] s1"
    using chat_reach.request [OF r1, of 0 "ReqJoin ''x''"] by (simp add: se_def)
  from chat_message_reaches_room [OF r2, of 0 "[]"] obtain out2 s2 where h: "server_handle (Join 5 ''x'') s1 = Inr (out2, s2)" by auto
  have r3: "chat_reach (se\<lparr>se_room := ''x''\<rparr>) [] s2" by (rule chat_reach.deliver [OF r2 h])
  from chat_message_reaches_room [OF r3, of 0 "[]"] r3 show ?thesis
    by (intro exI [of _ "se\<lparr>se_room := ''x''\<rparr>"] exI [of _ s2]) (auto simp: member_def dest: map_of_SomeD)
qed

end
