(* ===== verification/Chat_Client.thy ===== *)
theory Chat_Client
  imports Chat_Server Resolver Io_Writer Supervisor System_Arbiter Requests
begin

text \<open>
  The client of the chat example (\<^verbatim>\<open>examples/chat/src/client.rs\<close>) and the \<^verbatim>\<open>main\<close> functions of client and server
  (\<^verbatim>\<open>examples/chat/src/main.rs\<close>).  Text is a list of characters up to U+00FF.  Sockets, the terminal and the JSON functions are
  parameters; handlers return what they do.  The last part puts client, codec, session and server together.
\<close>

section \<open>Commands\<close>

text \<open>\<^verbatim>\<open>char::is_whitespace\<close> and \<^verbatim>\<open>str::trim\<close> of the standard library.\<close>

definition is_whitespace :: "char \<Rightarrow> bool" where
  "is_whitespace c = (let n = of_char c :: nat in 9 \<le> n \<and> n \<le> 13 \<or> n = 32 \<or> n = 133 \<or> n = 160)"

definition str_trim :: "string \<Rightarrow> string" where
  "str_trim s = rev (dropWhile is_whitespace (rev (dropWhile is_whitespace s)))"

datatype ClientCommand = ClientCommand string

text \<open>What the client does: write a frame, print a line, send a message to the system, set a timer of so many seconds.\<close>

datatype client_out = WriteRequest ChatRequest | Println string | ToSystem nat sys_msg | RunLater nat

fun client_handle :: "ClientCommand \<Rightarrow> client_out list" where
  "client_handle (ClientCommand msg) =
     (let m = str_trim msg in
      if take 1 m = ''/'' then
        (let v = splitn2 CHR '' '' m in
         if hd v = ''/list'' then [WriteRequest ReqList]
         else if hd v = ''/join'' then
           (if length v = 2 then [WriteRequest (ReqJoin (v ! 1))] else [Println ''!!! room name is required''])
         else [Println ''!!! unknown command''])
      else [WriteRequest (ReqMessage m)])"

section \<open>The actor\<close>

definition client_hb :: "client_out list" where
  "client_hb = [RunLater 1]"

definition client_hb_fires :: "client_out list" where
  "client_hb_fires = WriteRequest ReqPing # client_hb"

definition client_started :: "client_out list" where
  "client_started = client_hb"

definition client_stopping :: "'id ThreadLocals \<Rightarrow> (client_out list \<times> Running) exec" where
  "client_stopping th =
     bind_exec (arbiter_system th) (\<lambda>sys. Inr ([Println ''Disconnected'', ToSystem sys (MsgSystemExit (SystemExit 0))], Stop))"

fun client_response :: "ChatResponse \<Rightarrow> client_out list" where
  "client_response (RespMessage msg) = [Println (''message: '' @ msg)]"
| "client_response (RespJoined msg) = [Println (''!!! joined: '' @ msg)]"
| "client_response (RespRooms rooms) = Println (CHR 0x0A # ''!!! Available rooms:'') # map Println rooms @ [Println '''']"
| "client_response RespPing = []"

text \<open>
  \<^verbatim>\<open>ChatClient::create\<close> in \<^verbatim>\<open>main\<close>, and the creation of a session when the server accepts a connection: \<open>reader\<close> is the
  framed reading half of the socket as a future of the actor, \<open>io\<close> its writing half.  A session starts with
  \<open>session_new\<close> and its writer.
\<close>

definition client_create ::
  "('io, 'er, 'w, 'f, 'e) writer_env \<Rightarrow> 'f \<Rightarrow> 'io \<Rightarrow> 'u \<Rightarrow> ('f, 'e, ('u, 'io, 'er) FramedWrite) code" where
  "client_create env reader io codec = code_bind (ctx_add_stream reader) (\<lambda>_. framed_new env io codec)"

definition server_tcp_connect ::
  "('io, 'er, 'w, 'f, 'e) writer_env \<Rightarrow> nat \<Rightarrow> 'f \<Rightarrow> 'io \<Rightarrow> 'u \<Rightarrow> ('f, 'e, ChatSession \<times> ('u, 'io, 'er) FramedWrite) code" where
  "server_tcp_connect env now reader io codec =
     code_bind (ctx_add_stream reader) (\<lambda>_. code_bind (framed_new env io codec) (\<lambda>fw. Return (session_new now, fw)))"

text \<open>
  The actor \<^verbatim>\<open>Server\<close> that accepts connections, and \<^verbatim>\<open>main\<close> of the server: the chat server is started, the listener is bound (or
  \<^verbatim>\<open>unwrap\<close> panics) and its stream of connections is added to the actor.  The result are the contexts of the two actors.
\<close>

record ChatListener =
  srv_chat :: "unit Addr"

definition server_main ::
  "bool \<Rightarrow> 'be + 'f \<Rightarrow> ((ChatServer, 'f1, 'e1) ContextImpl \<times> (ChatListener, 'f, 'e) ContextImpl) exec" where
  "server_main dbg listener =
     bind_exec (actor_start KindUnsync server_default) (\<lambda>(_, server).
       case listener of
         Inl _ \<Rightarrow> Inl Panicked
       | Inr incoming \<Rightarrow>
           bind_exec (actor_create dbg KindUnit
             (code_bind (ctx_add_message_stream incoming) (\<lambda>_. Return \<lparr>srv_chat = addr_new ()\<rparr>))) (\<lambda>(_, acceptor).
             Inr (server, acceptor)))"

text \<open>What \<^verbatim>\<open>main\<close> does with the result of connecting: create the client and start the console, or exit with code 1.\<close>

fun client_connected ::
  "bool \<Rightarrow> ('io, 'er, ('u, 'io, 'er) FramedWrite, 'f, 'e) writer_env \<Rightarrow> 'u \<Rightarrow> 'ce + ('f \<times> 'io) \<Rightarrow>
     (int + SyncAddressSender option \<times> (('u, 'io, 'er) FramedWrite, 'f, 'e) ContextImpl) exec" where
  "client_connected dbg env codec (Inr (reader, io)) =
     bind_exec (actor_create dbg KindSyn (client_create env reader io codec)) (\<lambda>r. Inr (Inr r))"
| "client_connected dbg env codec (Inl _) = Inr (Inl 1)"

text \<open>
  The console thread: \<open>rd i\<close> is what the \<open>i\<close>-th \<^verbatim>\<open>read_line\<close> gives, the text read (empty at the end of the input) or
  an error, which ends the loop.  After \<open>n\<close> turns: the commands sent, and whether the loop still runs.
\<close>

fun console_loop :: "(nat \<Rightarrow> unit + string) \<Rightarrow> nat \<Rightarrow> nat \<Rightarrow> ClientCommand list \<times> bool" where
  "console_loop rd 0 i = ([], True)"
| "console_loop rd (Suc n) i =
     (case rd i of
        Inl _ \<Rightarrow> ([], False)
      | Inr cmd \<Rightarrow> (let (cs, b) = console_loop rd n (Suc i) in (ClientCommand cmd # cs, b)))"

section \<open>From the terminal of one client to those of the others\<close>

fun wrote :: "client_out list \<Rightarrow> ChatRequest list" where
  "wrote [] = []"
| "wrote (WriteRequest r # out) = r # wrote out"
| "wrote (_ # out) = wrote out"

fun frames_of :: "session_out list \<Rightarrow> ChatResponse list" where
  "frames_of [] = []"
| "frames_of (WriteFrame r # out) = r # frames_of out"
| "frames_of (_ # out) = frames_of out"

fun oks :: "('er + 'm) list \<Rightarrow> 'm list" where
  "oks [] = []"
| "oks (Inr m # rs) = m # oks rs"
| "oks (Inl _ # rs) = oks rs"

fun session_all :: "nat \<Rightarrow> ChatRequest list \<Rightarrow> ChatSession \<Rightarrow> session_out list \<times> ChatSession" where
  "session_all now [] se = ([], se)"
| "session_all now (r # rs) se =
     (let (out, se1) = session_request now r se; (outs, se2) = session_all now rs se1 in (out @ outs, se2))"

fun server_all :: "server_msg list \<Rightarrow> ChatServer \<Rightarrow> ((nat \<times> string) list \<times> ChatServer) exec" where
  "server_all [] s = Inr ([], s)"
| "server_all (m # ms) s =
     bind_exec (server_handle m s) (\<lambda>(out, s1). bind_exec (server_all ms s1) (\<lambda>(outs, s2). Inr (out @ outs, s2)))"

text \<open>What the client behind a session does when the server sends the session a text; \<open>chop\<close> is how the
  network cuts up what is written.\<close>

definition peer_sees ::
  "(ChatResponse \<Rightarrow> u8 list) \<Rightarrow> (u8 list \<Rightarrow> 'er + ChatResponse) \<Rightarrow> (u8 list \<Rightarrow> u8 list list) \<Rightarrow> string \<Rightarrow> client_out list exec" where
  "peer_sees js parse chop msg =
     bind_exec (receive_chunks (client_decode parse) (chop (fold (chat_encode js) (frames_of (session_message msg)) [])) [])
       (\<lambda>(rs, _). Inr (concat (map client_response (oks rs))))"

fun peers_see ::
  "(ChatResponse \<Rightarrow> u8 list) \<Rightarrow> (u8 list \<Rightarrow> 'er + ChatResponse) \<Rightarrow> (u8 list \<Rightarrow> u8 list list) \<Rightarrow> (nat \<times> string) list \<Rightarrow>
     (nat \<times> client_out list) list exec" where
  "peers_see js parse chop [] = Inr []"
| "peers_see js parse chop ((addr, msg) # sent) =
     bind_exec (peer_sees js parse chop msg) (\<lambda>ls. bind_exec (peers_see js parse chop sent) (\<lambda>rest. Inr ((addr, ls) # rest)))"

text \<open>A line typed at the client of the session \<open>se\<close>: what every client that hears of it does, by address, and the session and
  the server afterwards.\<close>

definition type_line ::
  "(ChatRequest \<Rightarrow> u8 list) \<Rightarrow> (u8 list \<Rightarrow> 'er + ChatRequest) \<Rightarrow> (ChatResponse \<Rightarrow> u8 list) \<Rightarrow> (u8 list \<Rightarrow> 'er + ChatResponse) \<Rightarrow>
   (u8 list \<Rightarrow> u8 list list) \<Rightarrow> nat \<Rightarrow> string \<Rightarrow> ChatSession \<Rightarrow> ChatServer \<Rightarrow>
   ((nat \<times> client_out list) list \<times> ChatSession \<times> ChatServer) exec" where
  "type_line js parse js' parse' chop now line se s =
     bind_exec (receive_chunks (chat_decode parse) (chop (fold (client_encode js) (wrote (client_handle (ClientCommand line))) [])) [])
       (\<lambda>(rs, _).
         let (out, se') = session_all now (oks rs) se in
         bind_exec (server_all (to_server out) s) (\<lambda>(sent, s').
           bind_exec (peers_see js' parse' chop sent) (\<lambda>seen. Inr (seen, se', s'))))"

lemma oks_Inr [simp]: "oks (map Inr ms) = ms"
  by (induction ms) auto

lemma wire_request:
  assumes "json_ok js parse r" and "length (js r) < 2 ^ 16" and "\<And>bs. concat (chop bs) = bs"
  shows "receive_chunks (chat_decode parse) (chop (fold (client_encode js) [r] [])) [] = Inr ([Inr r], [])"
proof -
  have d: "chat_decode parse = frame_decode parse" by (simp add: fun_eq_iff chat_decode_def)
  show ?thesis unfolding d using chat.receive_chunks_all [of js parse "[r]" "chop (client_encode js r [])"] assms
    by (simp add: client_encode_def del: receive_chunks.simps)
qed

lemma peer_sees_message:
  assumes "json_ok js parse (RespMessage msg)" and "length (js (RespMessage msg)) < 2 ^ 16" and "\<And>bs. concat (chop bs) = bs"
  shows "peer_sees js parse chop msg = Inr [Println (''message: '' @ msg)]"
proof -
  have d: "client_decode parse = frame_decode parse" by (simp add: fun_eq_iff client_decode_def)
  have "receive_chunks (client_decode parse) (chop (fold (chat_encode js) [RespMessage msg] [])) [] = Inr ([Inr (RespMessage msg)], [])"
    unfolding d using chat.receive_chunks_all [of js parse "[RespMessage msg]" "chop (chat_encode js (RespMessage msg) [])"] assms
    by (simp add: chat_encode_def del: receive_chunks.simps)
  then show ?thesis by (simp add: peer_sees_def session_message_def del: receive_chunks.simps)
qed

lemma peers_see_messages:
  assumes "\<forall>(addr, msg) \<in> set sent. json_ok js parse (RespMessage msg) \<and> length (js (RespMessage msg)) < 2 ^ 16"
    and "\<And>bs. concat (chop bs) = bs"
  shows "peers_see js parse chop sent = Inr (map (\<lambda>(addr, msg). (addr, [Println (''message: '' @ msg)])) sent)"
  using assms(1) by (induction sent) (auto simp: peer_sees_message [OF _ _ assms(2)])

section \<open>Properties\<close>

lemma str_trim_last: "str_trim s \<noteq> [] \<Longrightarrow> \<not> is_whitespace (last (str_trim s))"
proof -
  assume "str_trim s \<noteq> []"
  then have "dropWhile is_whitespace (rev (dropWhile is_whitespace s)) \<noteq> []" by (auto simp: str_trim_def)
  from hd_dropWhile [OF this] show ?thesis by (simp add: str_trim_def last_rev)
qed

lemma str_trim_trimmed:
  assumes "s \<noteq> [] \<Longrightarrow> \<not> is_whitespace (hd s) \<and> \<not> is_whitespace (last s)"
  shows "str_trim s = s"
proof (cases "s = []")
  case False
  then have "dropWhile is_whitespace s = s" "dropWhile is_whitespace (rev s) = rev s"
    using assms by (auto simp: dropWhile_eq_self_iff hd_rev)
  then show ?thesis by (simp add: str_trim_def)
qed (simp add: str_trim_def)

lemma splitn2_sep: "d \<notin> set x \<Longrightarrow> splitn2 d (x @ d # y) = [x, y]"
proof -
  assume "d \<notin> set x"
  then have h: "\<And>c. c \<in> set x \<Longrightarrow> c \<noteq> d" by auto
  show ?thesis by (simp add: splitn2_def dropWhile_append2 [OF h] takeWhile_append2 [OF h])
qed

lemma client_join:
  assumes "str_trim line = ''/join '' @ name"
  shows "client_handle (ClientCommand line) = [WriteRequest (ReqJoin name)] \<and> name \<noteq> []"
proof -
  have "splitn2 CHR '' '' (''/join'' @ CHR '' '' # name) = [''/join'', name]" by (rule splitn2_sep) simp
  moreover have "name \<noteq> []" using str_trim_last [of line] assms by (auto simp: is_whitespace_def)
  ultimately show ?thesis using assms by simp
qed

lemma client_message:
  assumes "take 1 (str_trim line) \<noteq> ''/''"
  shows "client_handle (ClientCommand line) = [WriteRequest (ReqMessage (str_trim line))]"
  using assms by simp

declare client_handle.simps [simp del]

text \<open>What a session that joins a room makes the server say to others.\<close>

lemma notify_rooms_texts: "(addr, msg) \<in> set (notify_rooms rooms s) \<Longrightarrow> msg = ''Someone disconnected''"
  by (auto simp: notify_rooms_def send_message_def split: option.splits if_splits)

lemma server_join_texts:
  assumes "server_join i name s = Inr (out, s')" and "(addr, msg) \<in> set out"
  shows "msg = ''Someone disconnected'' \<or> msg = ''Someone connected''"
  using assms
  by (auto simp: server_join_def Let_def split_def bind_exec_eq_Inr send_message_def
      dest: notify_rooms_texts split: option.splits if_splits)

lemma type_line_message:
  assumes "tracked se [] s" and "take 1 (str_trim line) \<noteq> ''/''" and ch: "\<And>bs. concat (chop bs) = bs"
    and "json_ok js parse (ReqMessage (str_trim line)) \<and> length (js (ReqMessage (str_trim line))) < 2 ^ 16"
    and "json_ok js' parse' (RespMessage (str_trim line)) \<and> length (js' (RespMessage (str_trim line))) < 2 ^ 16"
  shows "\<exists>ids. map_of (sv_rooms s) (se_room se) = Some ids \<and> se_id se \<in> set ids \<and> distinct ids \<and> set ids \<subseteq> dom (sv_sessions s) \<and>
    type_line js parse js' parse' chop now line se s =
      Inr (map (\<lambda>j. (the (sv_sessions s j), [Println (''message: '' @ str_trim line)])) (filter (\<lambda>j. j \<noteq> se_id se) ids), se, s)"
proof -
  let ?m = "str_trim line"
  obtain ids where ids: "map_of (sv_rooms s) (se_room se) = Some ids" "se_id se \<in> set ids" "distinct ids" "set ids \<subseteq> dom (sv_sessions s)"
    and out: "send_message (se_room se) ?m (se_id se) s = map (\<lambda>j. (the (sv_sessions s j), ?m)) (filter (\<lambda>j. j \<noteq> se_id se) ids)"
    using tracked_message [OF assms(1), of ?m] by blast
  have w: "receive_chunks (chat_decode parse) (chop (fold (client_encode js) [ReqMessage ?m] [])) [] = Inr ([Inr (ReqMessage ?m)], [])"
    using wire_request [of js parse "ReqMessage ?m" chop] assms(4) ch by blast
  have p: "peers_see js' parse' chop (send_message (se_room se) ?m (se_id se) s) =
      Inr (map (\<lambda>(addr, msg). (addr, [Println (''message: '' @ msg)])) (send_message (se_room se) ?m (se_id se) s))"
    by (rule peers_see_messages) (use assms(5) ch in \<open>auto simp: out\<close>)
  have "type_line js parse js' parse' chop now line se s =
      Inr (map (\<lambda>j. (the (sv_sessions s j), [Println (''message: '' @ ?m)])) (filter (\<lambda>j. j \<noteq> se_id se) ids), se, s)"
    using w p by (simp add: type_line_def client_message [OF assms(2)] out split_def comp_def del: receive_chunks.simps fold_simps)
  with ids show ?thesis by blast
qed

lemma type_line_join:
  assumes "tracked se [] s" and "str_trim line = ''/join '' @ name" and ch: "\<And>bs. concat (chop bs) = bs"
    and "json_ok js parse (ReqJoin name) \<and> length (js (ReqJoin name)) < 2 ^ 16"
    and "\<forall>msg \<in> {''Someone disconnected'', ''Someone connected''}.
      json_ok js' parse' (RespMessage msg) \<and> length (js' (RespMessage msg)) < 2 ^ 16"
  shows "\<exists>seen s'. type_line js parse js' parse' chop now line se s = Inr (seen, se\<lparr>se_room := name\<rparr>, s') \<and>
    tracked (se\<lparr>se_room := name\<rparr>) [] s' \<and> name \<noteq> []"
proof -
  obtain r where t: "server_wf s" "member s (se_id se) r" using assms(1) by (auto simp: tracked_def)
  obtain out s' where j: "server_join (se_id se) name s = Inr (out, s')" "server_wf s'" "member s' (se_id se) name"
    using join_wf [OF t(1) wf_member_dom [OF t], of name] by blast
  have w: "receive_chunks (chat_decode parse) (chop (fold (client_encode js) [ReqJoin name] [])) [] = Inr ([Inr (ReqJoin name)], [])"
    using wire_request [of js parse "ReqJoin name" chop] assms(4) ch by blast
  have p: "peers_see js' parse' chop out = Inr (map (\<lambda>(addr, msg). (addr, [Println (''message: '' @ msg)])) out)"
    by (rule peers_see_messages) (use assms(5) ch server_join_texts [OF j(1)] in \<open>auto dest: server_join_texts [OF j(1)]\<close>)
  have "type_line js parse js' parse' chop now line se s =
      Inr (map (\<lambda>(addr, msg). (addr, [Println (''message: '' @ msg)])) out, se\<lparr>se_room := name\<rparr>, s')"
    using w p j(1) client_join [OF assms(2)]
    by (simp add: type_line_def split_def comp_def del: receive_chunks.simps fold_simps)
  moreover have "tracked (se\<lparr>se_room := name\<rparr>) [] s'" using j by (auto simp: tracked_def)
  ultimately show ?thesis using client_join [OF assms(2)] by blast
qed


definition demo_js :: "ChatRequest \<Rightarrow> u8 list" where
  "demo_js r = (case r of ReqJoin _ \<Rightarrow> [1] | _ \<Rightarrow> [0])"

definition demo_parse :: "u8 list \<Rightarrow> unit + ChatRequest" where
  "demo_parse bs = Inr (if bs = [1] then ReqJoin ''x'' else ReqMessage ''hi'')"

definition demo_js' :: "ChatResponse \<Rightarrow> u8 list" where
  "demo_js' r = (if r = RespMessage ''hi'' then [0] else if r = RespMessage ''Someone connected'' then [1] else [2])"

definition demo_parse' :: "u8 list \<Rightarrow> unit + ChatResponse" where
  "demo_parse' bs = Inr (RespMessage (if bs = [0] then ''hi'' else if bs = [1] then ''Someone connected'' else ''Someone disconnected''))"


text \<open>The console thread does not notice the end of its input: from then on it sends an empty command in every turn
  and never stops, and the client passes each on to the server as an empty chat message.\<close>

lemma console_eof_floods:
  assumes "\<forall>i < k. \<exists>l. rd i = Inr l" and "\<forall>i \<ge> k. rd i = Inr ''''"
  shows "\<exists>cs. console_loop rd (k + n) 0 = (cs @ replicate n (ClientCommand ''''), True) \<and> length cs = k \<and>
    client_handle (ClientCommand '''') = [WriteRequest (ReqMessage '''')]"
proof -
  have e: "\<forall>j \<ge> i. rd j = Inr '''' \<Longrightarrow> console_loop rd n i = (replicate n (ClientCommand ''''), True)" for i
    by (induction n arbitrary: i) auto
  have "\<exists>cs. console_loop rd (d + n) i = (cs @ replicate n (ClientCommand ''''), True) \<and> length cs = d" if "i + d = k" for d i
    using that
  proof (induction d arbitrary: i)
    case 0
    then show ?case using e [of i] assms(2) by auto
  next
    case (Suc d)
    obtain l where l: "rd i = Inr l" using Suc.prems spec [OF assms(1), of i] by auto
    obtain cs where "console_loop rd (d + n) (Suc i) = (cs @ replicate n (ClientCommand ''''), True)" "length cs = d"
      using Suc.IH [of "Suc i"] Suc.prems by auto
    then show ?case using l by (intro exI [of _ "ClientCommand l # cs"]) simp
  qed
  from this [of 0 k] show ?thesis by (auto simp: client_handle.simps str_trim_def)
qed

text \<open>\<^verbatim>\<open>main\<close> of the server leaves a chat server that waits for its first poll with an address outside, and an actor that
  stays alive by its stream of connections alone, as nobody has its address.  When the port is taken it panics.\<close>

lemma server_main_ready:
  "\<exists>server acceptor h. server_main dbg (Inr incoming) = Inr (server, acceptor) \<and> fresh_ctx server server_default [] \<and>
     c_items acceptor = [(h, incoming)] \<and> c_wait acceptor = [] \<and> c_act acceptor = Some \<lparr>srv_chat = addr_new ()\<rparr> \<and>
     \<not> mailbox_connected (c_mailbox acceptor) \<and> ctx_alive acceptor"
  "server_main dbg (Inl e) = Inl Panicked"
  by (auto simp: server_main_def start_defs fresh_ctx_def u_rep_def run_code_bind ctx_add_message_stream_def ctx_state_def ctx_spawn_def handle_next_def
      handle_default_def ctx_alive_def)

text \<open>A client that stops ends its system: the message it sends makes the system end its loop with code 0.\<close>

lemma client_stop_ends_system:
  assumes "arbiter_system th = Inr sys"
  shows "\<exists>msg. client_stopping th = Inr ([Println ''Disconnected'', ToSystem sys msg], Stop) \<and>
    so_stop (fst (system_handle msg \<lparr>sy_stop = Some stop, sy_arbiters = as\<rparr>)) = Some (stop, 0)"
  using assms by (auto simp: client_stopping_def)

end
