(* ===== verification/Example_Actors.thy ===== *)
theory Example_Actors
  imports Actix_Prelude
begin

text \<open>
  The handlers of the two small examples: the CPU-bound handler of the sync actor in \<^verbatim>\<open>examples/fibonacci.rs\<close> and
  the counter of \<^verbatim>\<open>examples/ping.rs\<close>.  Arithmetic wraps around in a release build and panics on overflow
  when the code is built with overflow checks (\<open>dbg\<close>).
\<close>

type_synonym u32 = "32 word"
type_synonym u64 = "64 word"

definition add_checked :: "bool \<Rightarrow> u64 \<Rightarrow> u64 \<Rightarrow> u64 exec" where
  "add_checked dbg a b = (if dbg \<and> 2 ^ 64 \<le> unat a + unat b then Inl Panicked else Inr (a + b))"

section \<open>Fibonacci\<close>

datatype Fibonacci = Fibonacci u32

lemma unat_inc: "unat (i + 1) = Suc (unat i)" if "i < n" for i n :: u32
  using that unsigned_less [of n, where 'a = nat] by (simp add: unat_word_ariths word_less_nat_alt)

text \<open>The loop, with the bound \<open>n\<close>; the result is \<open>acc\<close>.\<close>

function fib_loop :: "bool \<Rightarrow> u32 \<Rightarrow> u32 \<Rightarrow> u64 \<Rightarrow> u64 \<Rightarrow> u64 \<Rightarrow> u64 exec" where
  "fib_loop dbg n i acc prev cur =
     (if i < n then bind_exec (add_checked dbg prev cur) (\<lambda>acc'. fib_loop dbg n (i + 1) acc' cur acc') else Inr acc)"
  by pat_completeness auto
termination
proof (relation "measure (\<lambda>(dbg, n, i, acc, prev, cur). unat (n - i))")
  fix n i :: u32
  assume "i < n"
  then have "unat (n - (i + 1)) < unat (n - i)" using unat_inc [of i n] inc_le [of i n] less_imp_le [of i n]
    by (simp add: unat_sub word_less_nat_alt)
  then show "((dbg, n, i + 1, acc', cur, acc'), dbg, n, i, acc, prev, cur) \<in> measure (\<lambda>(dbg, n, i, acc, prev, cur). unat (n - i))"
    for dbg acc acc' prev cur by simp
qed simp

declare fib_loop.simps [simp del]

fun fib_handle :: "bool \<Rightarrow> Fibonacci \<Rightarrow> (unit + u64) exec" where
  "fib_handle dbg (Fibonacci n) =
     (if n = 0 then Inr (Inl ())
      else if n = 1 then Inr (Inr 1)
      else bind_exec (fib_loop dbg (n - 1) 0 0 0 1) (\<lambda>acc. Inr (Inr acc)))"

section \<open>Ping\<close>

datatype Ping = Ping usize

record MyActor =
  ma_count :: usize

fun ping_handle :: "bool \<Rightarrow> Ping \<Rightarrow> MyActor \<Rightarrow> (usize \<times> MyActor) exec" where
  "ping_handle dbg (Ping n) a =
     bind_exec (add_checked dbg (ma_count a) n) (\<lambda>count. Inr (count, a\<lparr>ma_count := count\<rparr>))"

section \<open>Properties\<close>

fun fib :: "nat \<Rightarrow> nat" where
  "fib 0 = 0"
| "fib (Suc 0) = 1"
| "fib (Suc (Suc n)) = fib n + fib (Suc n)"

text \<open>To evaluate large numbers.\<close>

fun fib_iter :: "nat \<Rightarrow> nat \<Rightarrow> nat \<Rightarrow> nat" where
  "fib_iter 0 a b = a"
| "fib_iter (Suc n) a b = fib_iter n b (a + b)"

lemma fib_iter_numeral: "fib_iter (numeral k) a b = fib_iter (pred_numeral k) b (a + b)" "fib_iter 1 a b = b"
  by (simp_all add: numeral_eq_Suc)

lemma fib_iter: "fib_iter n (fib k) (fib (Suc k)) = fib (n + k)"
  by (induction n arbitrary: k) (simp_all flip: fib.simps(3))

lemma fib_mono: "fib n \<le> fib (Suc n)"
  by (cases n) simp_all

lemma fib_mono_le: "m \<le> n \<Longrightarrow> fib m \<le> fib n"
  by (rule lift_Suc_mono_le [of fib]) (rule fib_mono)

text \<open>From iteration \<open>k\<close> on, with the Fibonacci numbers at hand, up to wrap-around.\<close>

lemma fib_loop_fib:
  assumes "unat i + d = unat n" and "dbg \<longrightarrow> fib (Suc (unat i)) < 2 ^ 64"
  shows "fib_loop dbg n i s (of_nat (fib (unat i))) (of_nat (fib (Suc (unat i)))) =
    (if d = 0 then Inr s else if dbg \<and> 2 ^ 64 \<le> fib (Suc (unat n)) then Inl Panicked else Inr (of_nat (fib (Suc (unat n)))))"
  using assms
proof (induction d arbitrary: i s)
  case 0
  then show ?case by (subst fib_loop.simps) (simp add: word_less_nat_alt)
next
  case (Suc d)
  let ?k = "unat i"
  have k: "Suc ?k \<le> unat n" using Suc.prems(1) by simp
  then have lt: "i < n" by (simp add: word_less_nat_alt)
  then have i1: "unat (i + 1) = Suc ?k" by (rule unat_inc)
  have sum: "of_nat (fib ?k) + of_nat (fib (Suc ?k)) = (of_nat (fib (Suc (Suc ?k))) :: u64)" by simp
  show ?case
  proof (cases "dbg \<and> 2 ^ 64 \<le> fib (Suc (Suc ?k))")
    case True
    then have "unat (of_nat (fib ?k) :: u64) = fib ?k" "unat (of_nat (fib (Suc ?k)) :: u64) = fib (Suc ?k)"
      using Suc.prems(2) fib_mono [of ?k] by (simp_all add: unat_of_nat take_bit_nat_eq_self_iff)
    moreover have "2 ^ 64 \<le> fib (Suc (unat n))" using True fib_mono_le [of "Suc (Suc ?k)" "Suc (unat n)"] k by simp
    ultimately show ?thesis using True lt by (subst fib_loop.simps) (simp add: add_checked_def)
  next
    case False
    have "unat (of_nat (fib ?k) :: u64) + unat (of_nat (fib (Suc ?k)) :: u64) \<le> fib (Suc (Suc ?k))"
      by (simp add: unat_of_nat add_mono)
    then have a: "add_checked dbg (of_nat (fib ?k)) (of_nat (fib (Suc ?k))) = Inr (of_nat (fib (Suc (Suc ?k))))"
      using False by (auto simp: add_checked_def)
    have "fib_loop dbg n (i + 1) s' (of_nat (fib (unat (i + 1)))) (of_nat (fib (Suc (unat (i + 1))))) =
        (if d = 0 then Inr s' else if dbg \<and> 2 ^ 64 \<le> fib (Suc (unat n)) then Inl Panicked else Inr (of_nat (fib (Suc (unat n)))))" for s'
      using False Suc.prems(1) i1 by (intro Suc.IH) auto
    from this [unfolded i1] have "fib_loop dbg n i s (of_nat (fib ?k)) (of_nat (fib (Suc ?k))) =
        (if d = 0 then Inr (of_nat (fib (Suc (Suc ?k))))
         else if dbg \<and> 2 ^ 64 \<le> fib (Suc (unat n)) then Inl Panicked else Inr (of_nat (fib (Suc (unat n)))))"
      by (subst fib_loop.simps) (simp add: lt a del: fib.simps)
    moreover have "unat n = Suc ?k" if "d = 0" using that Suc.prems(1) by simp
    ultimately show ?thesis using False by (auto simp del: fib.simps)
  qed
qed

text \<open>The loop of the Fibonacci handler terminates for every request and computes the Fibonacci number, up
  to the width of its result: built with overflow checks it panics exactly when the number does not fit
  64 bits, from the 94th on, and otherwise it returns the number modulo \<open>2 ^ 64\<close>.\<close>

theorem fibonacci_correct:
  "fib_handle dbg (Fibonacci n) =
     (if n = 0 then Inr (Inl ())
      else if dbg \<and> 93 < unat n then Inl Panicked
      else Inr (Inr (of_nat (fib (unat n)))))"
proof -
  have "fib_iter 93 0 1 < 2 ^ 64 \<and> 2 ^ 64 \<le> fib_iter 94 0 1" by (simp add: fib_iter_numeral del: One_nat_def)
  then have f: "fib 93 < 2 ^ 64" "2 ^ 64 \<le> fib 94" unfolding fib_iter [of 93 0, simplified, symmetric] fib_iter [of 94 0, simplified, symmetric] One_nat_def by blast+
  have big: "2 ^ 64 \<le> fib m \<longleftrightarrow> 93 < m" for m
    using f fib_mono_le [of m 93] fib_mono_le [of 94 m] by (cases "m \<le> 93") auto
  show ?thesis
  proof (cases "n = 0 \<or> n = 1")
    case False
    then have "unat n \<noteq> unat (0 :: u32)" "unat n \<noteq> unat (1 :: u32)" unfolding word_unat_eq_iff by simp_all
    then have n: "1 < unat n" "unat (n - 1) = unat n - 1" using False by (simp_all add: unat_minus_one)
    then have "fib_loop dbg (n - 1) 0 0 0 1 = (if dbg \<and> 2 ^ 64 \<le> fib (unat n) then Inl Panicked else Inr (of_nat (fib (unat n))))"
      using fib_loop_fib [of 0 "unat n - 1" "n - 1" dbg 0] by simp
    then show ?thesis using False unfolding big by simp
  qed auto
qed

end
