(* ===== verification/Example_Mains.thy ===== *)
theory Example_Mains
  imports Example_Actors Supervisor Requests System_Arbiter Sync_Arbiter
begin

text \<open>
  The \<^verbatim>\<open>main\<close> functions of \<^verbatim>\<open>examples/ping.rs\<close> and \<^verbatim>\<open>examples/fibonacci.rs\<close>: the two small programs as wholes, on the
  models of the components they use.
\<close>

text \<open>What the futures of a \<^verbatim>\<open>main\<close> do: print whether the result is right, send a message to the system.\<close>

datatype main_out = PrintResult bool | SystemDoSend nat sys_msg

section \<open>Ping\<close>

text \<open>The actor: the state of \<^verbatim>\<open>MyActor\<close> beside the rest of the world; \<open>ovf\<close> tells whether overflow is checked.\<close>

definition ping_code ::
  "bool \<Rightarrow> Ping \<Rightarrow> MyActor \<times> 's \<Rightarrow> ('f, 'e, (usize, 'af, 'pf) response \<times> MyActor \<times> 's) code" where
  "ping_code ovf msg w =
     (case ping_handle ovf msg (fst w) of
        Inl f \<Rightarrow> Fault f
      | Inr (n, a) \<Rightarrow> Return (Reply n, a, snd w))"

definition ping_actor ::
  "bool \<Rightarrow> bool \<Rightarrow> ('otx, usize, 'af, 'pf, 'f, MyActor \<times> 's) resp_env \<Rightarrow> (MyActor \<times> 's, 'f, (Ping, 'otx) EnvelopeProxy) actor_impl" where
  "ping_actor dbg ovf env =
     \<lparr>debug_assertions = dbg, a_started = actor_default_started, a_stopping = actor_default_stopping,
      a_stopped = actor_default_stopped, a_restarting = supervised_default_restarting,
      a_handle = (\<lambda>e w. code_bind (unsync_envelope_handle env (ping_code ovf) e w) (\<lambda>(_, w'). Return w')),
      a_poll = (\<lambda>f w. Return (PReady (), w))\<rparr>"

text \<open>Starting the actor and sending the message; \<open>oneshot\<close> is the channel of the answer, \<open>s\<close> the rest of the world.\<close>

definition ping_main ::
  "'otx \<times> 'rx \<Rightarrow> 's \<Rightarrow> ((unit, Ping, 'rx, 't) Request \<times> (MyActor \<times> 's, 'f, (Ping, 'otx) EnvelopeProxy) ContextImpl) exec" where
  "ping_main oneshot s =
     bind_exec (actor_start KindUnsync (\<lparr>ma_count = 10\<rparr>, s)) (\<lambda>(_, c).
       bind_exec (addr_send (unsync_destination context_pack_unsync 0 oneshot) (addr_new ()) (Ping 10) (unsync_msgs (c_mailbox c)))
         (\<lambda>(res, _, u). Inr (res, on_unsync (\<lambda>_. u) c)))"

text \<open>The future that is spawned, on the result of polling the request: \<^verbatim>\<open>res.map(...).map_err(|_| ())\<close>.\<close>

fun ping_result :: "'id ThreadLocals \<Rightarrow> (usize, MailboxError) Poll \<Rightarrow> ((unit, unit) Poll \<times> main_out list) exec" where
  "ping_result th (Inr (Ready res)) =
     bind_exec (arbiter_system th) (\<lambda>sys.
       Inr (PReady (), [PrintResult (res = 20), SystemDoSend sys (MsgSystemExit (SystemExit 0))]))"
| "ping_result th (Inr NotReady) = Inr (PNotReady, [])"
| "ping_result th (Inl _) = Inr (Inl (), [])"

section \<open>Fibonacci\<close>

text \<open>The actor, in a release build, where its handler does not panic.\<close>

definition fib_actor :: "(unit, Fibonacci, unit + u64) sync_actor" where
  "fib_actor =
     \<lparr>sa_factory = (), sa_started = SReturn, sa_stopping = (\<lambda>a. SReturn (Stop, a)), sa_stopped = SReturn,
      sa_handle = (\<lambda>msg a. SReturn (case fib_handle False msg of Inl _ \<Rightarrow> Inl () | Inr r \<Rightarrow> r, a))\<rparr>"

text \<open>The loop that sends, and what is left when \<^verbatim>\<open>main\<close> starts to run the system: the address and the arbiter of the pool.\<close>

fun do_send_all ::
  "'m list \<Rightarrow> SyncAddressSender \<Rightarrow> ('m, 'otx) SyncContextEnvelope Chan \<Rightarrow> ('m, 'otx) SyncContextEnvelope Chan exec" where
  "do_send_all [] tx c = Inr c"
| "do_send_all (m # ms) tx c = bind_exec (syn_do_send sync_context_pack tx m c) (do_send_all ms tx)"

definition fib_main :: "(SyncAddressSender \<times> (Fibonacci, 'otx) SyncContextEnvelope SyncArbiter) exec" where
  "fib_main =
     bind_exec (sync_arbiter_start 3) (\<lambda>(tx, ar).
       bind_exec (do_send_all (map (\<lambda>n. Fibonacci (of_nat n)) [5..<10]) tx (ar_msgs ar)) (\<lambda>rx. Inr (tx, ar\<lparr>ar_msgs := rx\<rparr>)))"

text \<open>The function that is spawned on the reactor.\<close>

definition fib_exit :: "'id ThreadLocals \<Rightarrow> ((unit, unit) Poll \<times> main_out list) exec" where
  "fib_exit th = bind_exec (arbiter_system th) (\<lambda>sys. Inr (PReady (), [SystemDoSend sys (MsgSystemExit (SystemExit 0))]))"

section \<open>The run of the ping example\<close>

text \<open>The first poll of the actor, by evaluation of its context.\<close>

lemmas poll_eval = ctx_poll_def call_act_unit_def put_log_def put_act_def ctx_mailbox_poll_def mailbox_poll_def ctx_waiting_def
  ctx_stopping_def poll_unsync_def put_mailbox_def ctx_handle_message_def urx_poll_def with_shared_def debug_count_def
  MAX_SYNC_POLLS_def check_state_def ctx_alive_def mailbox_connected_def urx_connected_def actor_default_started_def
  flag_insert_def flag_remove_def flag_contains_def flag_intersects_def RUNNING_def MODIFIED_def STARTED_def STOPPING_def
  STOPPED_def Let_def

lemma ping_actor_sel:
  "a_started (ping_actor dbg ovf env) = actor_default_started" "debug_assertions (ping_actor dbg ovf env) = dbg"
  by (simp_all add: ping_actor_def)

lemma ping_poll:
  assumes "\<forall>w. \<not> o_canceled env otx w" and "2 < k"
  shows "\<exists>c c'. ping_main (otx, rx) s = Inr (request_new (Some rx) None, c) \<and>
    ctx_poll (ping_actor dbg ovf env) cur k c = Inr (PNotReady, c') \<and> c_act c' = Some (o_send env otx 20 (\<lparr>ma_count = 20\<rparr>, s))"
proof -
  obtain j where k: "k = Suc (Suc (Suc j))" using that [of "k - 3"] assms(2) by simp
  have h: "a_handle (ping_actor dbg ovf env) (context_pack_unsync (Ping 10) (Some otx)) (\<lparr>ma_count = 10\<rparr>, s) =
      Return (o_send env otx 20 (\<lparr>ma_count = 20\<rparr>, s))"
    using assms(1) by (simp add: ping_actor_def context_pack_unsync_def unsync_envelope_new_def unsync_envelope_handle_def ping_code_def
        add_checked_def reply_handle_def send_opt_def)
  show ?thesis
    by (simp add: ping_main_def start_defs address_defs request_of_send_def usend_def on_unsync_def upush_def wake_def flag_insert_def RUNNING_def
        MODIFIED_def del: flag_simps) (simp add: k h poll_eval ping_actor_sel del: flag_simps)
qed

text \<open>The whole program: the system is set up, the actor is started and the message sent; the actor's first poll handles it; the request then
  resolves with 20, so that \<^verbatim>\<open>RESULT: true\<close> is printed and the system is told to exit; the system then sends code 0 to
  the receiver that \<^verbatim>\<open>run\<close> waits for.  This holds with and without overflow checks and debug assertions.  The one-shot channel is assumed to be what
  its crate documents.\<close>

theorem ping_example_exits:
  fixes rx :: 'rx and tp :: "'t \<Rightarrow> MyActor \<times> 's \<Rightarrow> (unit, unit) Poll \<times> 't"
  assumes "\<forall>w. \<not> o_canceled env otx w" and "\<forall>r w. \<exists>rx'. rxp rx (o_send env otx r w) = (PReady r, rx')" and "2 < k"
    and "system_new h addr saddr reg uuid stop sys ''test'' th = (sy, ab, th1)"
  shows "\<exists>rq c c' w' rq' u'. ping_main (otx, rx) s = Inr (rq, c) \<and>
    ctx_poll (ping_actor dbg ovf env) cur k c = Inr (PNotReady, c') \<and> c_act c' = Some w' \<and>
    request_poll (unsync_transport_send context_pack_unsync cur' oneshot) utx_drop rxp tp rq (unsync_msgs (c_mailbox c')) w' = Inr (PReady 20, rq', u') \<and>
    ping_result th1 (PReady 20) = Inr (PReady (), [PrintResult True, SystemDoSend sys (MsgSystemExit (SystemExit 0))]) \<and>
    so_stop (fst (system_handle (MsgSystemExit (SystemExit 0)) sy)) = Some (stop, 0)"
proof -
  obtain c c' where p: "ping_main (otx, rx) s = Inr (request_new (Some rx) None :: (unit, Ping, 'rx, 't) Request, c)"
    "ctx_poll (ping_actor dbg ovf env) cur k c = Inr (PNotReady, c')" "c_act c' = Some (o_send env otx 20 (\<lparr>ma_count = 20\<rparr>, s))"
    using ping_poll [OF assms(1,3), of rx s dbg ovf cur] by blast
  obtain rx' where "rxp rx (o_send env otx 20 (\<lparr>ma_count = 20\<rparr>, s)) = (PReady 20, rx')" using assms(2) by blast
  then obtain rq' where "request_poll (unsync_transport_send context_pack_unsync cur' oneshot) utx_drop rxp tp (request_new (Some rx) None)
      (unsync_msgs (c_mailbox c')) (o_send env otx 20 (\<lparr>ma_count = 20\<rparr>, s)) = Inr (PReady 20, rq', unsync_msgs (c_mailbox c'))"
    by (simp add: request_poll_def request_new_def request_poll_rx_def)
  moreover have "arbiter_system th1 = Inr sys" "sy_stop sy = Some stop" using assms(4) by (auto simp: system_new_def cell_defs)
  moreover obtain a b where "o_send env otx 20 (\<lparr>ma_count = 20\<rparr>, s) = (a, b)" by force
  ultimately show ?thesis using p by auto
qed

section \<open>The run of the Fibonacci example\<close>

lemma do_send_all_queue:
  "\<lbrakk>chan_wf c qs ps; chan_open c; length qs + length ms < 2 ^ 63\<rbrakk> \<Longrightarrow>
   \<exists>c'. do_send_all ms tx c = Inr c' \<and> chan_wf c' (qs @ map (\<lambda>m. sync_envelope_new m None) ms) ps \<and> chan_open c' \<and>
     i_num_senders c' = i_num_senders c"
proof (induction ms arbitrary: c qs)
  case (Cons m ms)
  obtain c1 where c1: "sync_do_send sync_context_pack m c = Inr (Inr (), c1)" "chan_wf c1 (qs @ [sync_context_pack m None]) ps" "chan_open c1"
    using sync_do_send_open [OF Cons.prems(1,2), of sync_context_pack m] Cons.prems(3) by auto
  have "i_num_senders c1 = i_num_senders c" using send_senders(1) [OF c1(1)] .
  then show ?case using Cons.IH [OF c1(2,3)] Cons.prems(3) c1(1) by (simp add: syn_do_send_def sync_context_pack_def)
qed auto

text \<open>A worker that has been started.\<close>

definition fib_worker :: "unit SyncContext" where
  "fib_worker = \<lparr>sx_act = (), sx_stopping = False, sx_state = StateRunning\<rparr>"

lemma fib_worker_started: "worker_start fib_actor = ([SvStarted], fib_worker)"
  by (simp add: worker_start_def call_sync_unit_def fib_actor_def sync_context_new_def fib_worker_def)

lemma fib_turn:
  assumes "\<not> sx_stopping c"
  shows "worker_turn canceled fib_actor (Some (ProtoEnvelope (sync_envelope_new m None))) c = (False, [SvMessage m], c)"
  using assms by (simp add: sync_envelope_handle_def sync_envelope_new_def call_sync_def fib_actor_def worker_restart_def)

lemma fib_pool:
  assumes "length sched = length ms" and "\<forall>i \<in> set sched. i < length ws" and "\<forall>w \<in> set ws. \<exists>c. w = Some c \<and> \<not> sx_stopping c"
  shows "pool_run canceled fib_actor sched (map (\<lambda>m. ProtoEnvelope (sync_envelope_new m None)) ms) ws =
    Some (map (\<lambda>(i, m). (i, ProtoEnvelope (sync_envelope_new m None), [SvMessage m])) (zip sched ms), [], ws)"
  using assms
proof (induction sched ms rule: list_induct2)
  case (Cons i sched m ms)
  then obtain c where "ws ! i = Some c" "\<not> sx_stopping c" "i < length ws" by (metis list.set_intros(1) nth_mem)
  moreover from this have "ws[i := Some c] = ws" by (metis list_update_id)
  ultimately show ?case using Cons by (simp add: fib_turn del: worker_turn.simps)
qed simp

text \<open>The five messages wait in the arbiter of the pool when \<^verbatim>\<open>main\<close> runs the system.  One poll of the arbiter hands them to the
  three workers in the order in which they were sent, and whichever worker takes which message, each is handled once, and the
  handler computes the Fibonacci number.  The function that is spawned tells the system to exit with code 0.\<close>

theorem fibonacci_example_runs:
  assumes "5 < k" and "length sched = 5" and "\<forall>i \<in> set sched. i < 3" and "arbiter_system th = Inr sys"
  shows "\<exists>tx ar ar'. fib_main = Inr (tx, ar) \<and> worker_start fib_actor = ([SvStarted] :: (Fibonacci, 'otx, unit + u64) sync_event list, fib_worker) \<and>
    sync_arbiter_poll k cur ar = Inr (PNotReady, ar') \<and>
    pool_run canceled fib_actor sched (ar_queue ar') (replicate 3 (Some fib_worker)) =
      Some (map (\<lambda>(i, m). (i, ProtoEnvelope (sync_envelope_new m (None :: 'otx option)), [SvMessage m]))
        (zip sched (map (\<lambda>n. Fibonacci (of_nat n)) [5..<10])), [], replicate 3 (Some fib_worker)) \<and>
    (\<forall>n \<in> {5..<10}. run_scode (sa_handle fib_actor (Fibonacci (of_nat n)) ()) c = ((Inr (of_nat (fib n)), ()), c)) \<and>
    fib_exit th = Inr (PReady (), [SystemDoSend sys (MsgSystemExit (SystemExit 0))])"
proof -
  let ?ms = "map (\<lambda>n. Fibonacci (of_nat n)) [5..<10]" and ?ws = "replicate 3 (Some fib_worker)"
  have b: "0 < MAX_BUFFER" by code_simp
  obtain tx rx where ch: "channel 0 = Inr (tx, rx :: (Fibonacci, 'otx) SyncContextEnvelope Chan)" using b by (auto simp: channel_def)
  then obtain ps where wf: "chan_wf rx [] ps" "chan_open rx" "i_num_senders rx = 1"
    using channel_rep [OF ch] b by (auto simp: sync_chan_rep_def channel_def)
  obtain rx1 where s: "do_send_all ?ms tx rx = Inr rx1" "chan_wf rx1 (map (\<lambda>m. sync_envelope_new m None) ?ms) ps" "chan_open rx1"
    "i_num_senders rx1 = 1"
    using do_send_all_queue [OF wf(1,2), of ?ms tx] wf(3) by auto
  let ?ar = "\<lparr>ar_queue = [], ar_msgs = rx1, ar_threads = 3\<rparr>"
  have m: "fib_main = Inr (tx, ?ar)" using ch s(1) by (simp add: fib_main_def sync_arbiter_start_def)
  obtain rx2 where "arbiter_forward k cur ?ar = Inr (?ar\<lparr>ar_msgs := rx2, ar_queue := map ProtoEnvelope (map (\<lambda>m. sync_envelope_new m None) ?ms)\<rparr>)"
    "i_num_senders rx2 = 1"
    using arbiter_forward_all [of ?ar "map (\<lambda>m. sync_envelope_new m None) ?ms" ps k cur] s assms(1) by auto
  then obtain ar2 where p: "sync_arbiter_poll k cur ?ar = Inr (PNotReady, ar2)"
    "ar_queue ar2 = map (\<lambda>m. ProtoEnvelope (sync_envelope_new m None)) ?ms"
    by (simp add: sync_arbiter_poll_def sync_rx_connected_def o_def)
  have "\<not> sx_stopping fib_worker" by (simp add: fib_worker_def)
  then have "pool_run canceled fib_actor sched (map (\<lambda>m. ProtoEnvelope (sync_envelope_new m None)) ?ms) ?ws =
      Some (map (\<lambda>(i, m). (i, ProtoEnvelope (sync_envelope_new m None), [SvMessage m])) (zip sched ?ms), [], ?ws)"
    using assms(2,3) by (intro fib_pool) auto
  moreover have "run_scode (sa_handle fib_actor (Fibonacci (of_nat n)) ()) c = ((Inr (of_nat (fib n)), ()), c)" if "n \<in> {5..<10}" for n
  proof -
    have "unat (of_nat n :: u32) = n" using that by (simp add: unat_of_nat take_bit_nat_eq_self)
    moreover from this have "(of_nat n :: u32) \<noteq> 0" using that by (metis atLeastLessThan_iff not_numeral_le_zero unsigned_0)
    ultimately show ?thesis using fibonacci_correct [of False "of_nat n"] by (simp add: fib_actor_def)
  qed
  ultimately show ?thesis using m p assms(4)
    by (intro exI [of _ tx] exI [of _ ?ar] exI [of _ ar2]) (simp add: fib_exit_def fib_worker_started)
qed

end
