(* ===== verification/Spec2Isabelle.thy ===== *)
theory Spec2Isabelle
  imports Sync_Atomic Repo_Tests Supervisor Requests Io_Writer Resolver Sync_Arbiter Process_Signals Chat_Client Example_Mains
begin

text \<open>
  A model of the actor framework \<^verbatim>\<open>actix\<close> (version 0.5) and the theorems that make it correct.

  \<^bold>\<open>The program.\<close>  An actor is a value with message handlers.  It runs inside an execution context, a future that
  a single-threaded reactor polls.  The context owns the futures the actor has spawned and a mailbox; the
  mailbox is the receiving end of a channel for senders of the same thread and, once a thread-safe
  address has been asked for, of a channel for senders of other threads.  Addresses are the sending ends.
  Sending with a reply gives a future, the request, that first waits for a slot in the mailbox and then for the
  answer on a one-shot channel.  Around this core are combinators for futures that have access to the
  actor, a supervisor that restarts actors, pools of threads for blocking actors, registries of
  services, arbiters (one reactor thread each) and the system actor that shuts them down, and three service actors: a
  buffered writer, a DNS resolver with a connector, and process signals.

  \<^bold>\<open>Theories, their sources and what they show.\<close>  File names are relative to \<^verbatim>\<open>src/\<close> of the repository's
  crate unless they start with \<^verbatim>\<open>examples/\<close>.

  \<^item> \<open>Actix_Prelude\<close>: machine integers, \<^verbatim>\<open>Async\<close> and \<^verbatim>\<open>Poll\<close>, the fault monad \<open>exec\<close> (panic, use after free, fuel
    exhausted), the errors of \<^verbatim>\<open>address/mod.rs\<close>, \<^verbatim>\<open>swap_remove\<close> and \<^verbatim>\<open>swap\<close> on vectors.
  \<^item> \<open>Mpsc_Queue\<close> (\<^verbatim>\<open>address/queue.rs\<close>): the lock-free queue on an explicit heap.  Every interleaving of any number of
    pushers with the popper is FIFO, loses nothing and touches no freed node; dropping a queue frees every
    node once.
  \<^item> \<open>Channel_Spec\<close>: the interface \<open>bounded_channel\<close> of both channels and its client lemmas.
  \<^item> \<open>Sync_Channel\<close> (\<^verbatim>\<open>address/sync_channel.rs\<close>): the channel between threads, on the packed 64-bit state word,
    two queues and the cells of parked senders.  FIFO and backpressure, by an interpretation of \<open>bounded_channel\<close>; the
    compare-exchange loops under arbitrary interference; closing.  \<open>Sync_Interleave\<close> interleaves the
    atomic steps of senders (sending, parking, polling again, cloning, dropping) and of the receiver (polling, making
    senders, dropping): no wake-up of the receiver is lost and the counter is exact.  \<open>Sync_Atomic\<close> ties the two
    together: each operation of \<open>Sync_Channel\<close>, run alone in any reachable state, returns and is a run of these steps;
    and it records the history of a run, in which the channel is first in, first out under any interleaving.
    \<open>Sync_Races\<close> has two runs of that system which end badly: a sender that parks after the receiver has looked for it, and
    a message that is pushed while the receiver is being dropped.
  \<^item> \<open>Unsync_Channel\<close> (\<^verbatim>\<open>address/unsync_channel.rs\<close>): the channel inside a thread, with the counts of \<^verbatim>\<open>Rc\<close> and \<^verbatim>\<open>Weak\<close>.
    The same interface, no lost wake-up of blocked senders, disconnection of both sides.
  \<^item> \<open>Repo_Tests\<close>: the unit tests of the two channel modules, as programs over the models; all their assertions hold.
  \<^item> \<open>Mailbox\<close> (\<^verbatim>\<open>mailbox.rs\<close>), \<open>Actor_Context\<close> (\<^verbatim>\<open>contextimpl.rs\<close>, \<^verbatim>\<open>context.rs\<close>, parts of \<^verbatim>\<open>actor.rs\<close> and
    \<^verbatim>\<open>contextitems.rs\<close>): the state of a context and its poll loop.  User code is a tree of the calls it makes on the
    context.  \<open>Context_Lifecycle\<close> and \<open>Context_Properties\<close> show the order of the lifecycle callbacks for arbitrary user
    code (the states of an actor, ordered as \<^verbatim>\<open>ActorState\<close> lists them, never go back under calls of the
    actor), what stopping and waiting block, uniqueness of spawn handles, the complete behaviour of a poll for user
    code that leaves the context alone (its result is the replay of the events of the poll), and four situations in which the loops go wrong.
  \<^item> \<open>Actor_Futures\<close>, \<open>Actor_Streams\<close> (\<^verbatim>\<open>fut/\<close>): all combinators.  The adapters are interpretations of
    the interface \<open>future_adapter\<close>; sequencing, timeouts and folds are characterised over whole lives of a future.
  \<^item> \<open>Handlers\<close> (\<^verbatim>\<open>handler.rs\<close>, \<^verbatim>\<open>address/envelope.rs\<close>, \<^verbatim>\<open>contextitems.rs\<close>, \<^verbatim>\<open>stream.rs\<close>, \<^verbatim>\<open>utils.rs\<close>): responses, envelopes,
    streams and delayed messages of an actor.
  \<^item> \<open>Supervisor\<close> (\<^verbatim>\<open>supervisor.rs\<close>, starting in \<^verbatim>\<open>actor.rs\<close>, \<^verbatim>\<open>arbiter.rs\<close> and \<^verbatim>\<open>msgs.rs\<close>): no message is lost over
    restarts, the supervisor ends only when nobody can reach the actor, and the ways to start agree.
  \<^item> \<open>Requests\<close> (\<^verbatim>\<open>address/mod.rs\<close>, \<^verbatim>\<open>address/sync.rs\<close>, \<^verbatim>\<open>address/unsync.rs\<close>, \<^verbatim>\<open>address/message.rs\<close>): addresses, recipients and
    request futures.  A request delivers at most once and resolves at most once, proved in the interface
    \<open>transport\<close> that both channels interpret and carried to the requests of recipients by the interface
    \<open>request_kind\<close>; blocked requests are resumed.
  \<^item> \<open>Io_Writer\<close> (\<^verbatim>\<open>io.rs\<close>): bytes are conserved and in order, closing is graceful, the watermarks.
  \<^item> \<open>Resolver\<close> (\<^verbatim>\<open>actors/resolver.rs\<close>): parsing of addresses, the order in which addresses are tried.
  \<^item> \<open>Sync_Arbiter\<close> (\<^verbatim>\<open>sync.rs\<close>): the lifecycle of the actors of a pool, forwarding and draining.
  \<^item> \<open>Registry\<close> (\<^verbatim>\<open>registry.rs\<close>): services are started once within an arbiter; the system registry can start
    one twice.
  \<^item> \<open>System_Arbiter\<close> (\<^verbatim>\<open>arbiter.rs\<close>, \<^verbatim>\<open>system.rs\<close>, \<^verbatim>\<open>msgs.rs\<close>, \<^verbatim>\<open>utils.rs\<close>): thread-local cells, the runner of the
    system, executing functions on an arbiter, services of an arbiter and of the system, shutdown.
  \<^item> \<open>Process_Signals\<close> (\<^verbatim>\<open>actors/signal.rs\<close>): subscribing, the streams of signals, broadcasting to the subscribers that
    still live, and the default handler, by which a signal ends the system.
  \<^item> \<open>Chat_Codec\<close>, \<open>Chat_Server\<close>, \<open>Chat_Client\<close> (\<^verbatim>\<open>examples/chat/src/\<close>): the wire format survives any segmentation, sessions and
    server agree on rooms, and a line typed at one client reaches the other members of its room.
  \<^item> \<open>Example_Actors\<close>, \<open>Example_Mains\<close> (\<^verbatim>\<open>examples/fibonacci.rs\<close>, \<^verbatim>\<open>examples/ping.rs\<close>): the Fibonacci handler is correct up to the
    width of its result, and the two programs do what they are for, from \<^verbatim>\<open>main\<close> to the exit of the system.
  \<^item> This theory: a request through address, mailbox, context, envelope and response, from the same thread and from
    another one.

  \<^bold>\<open>Conventions.\<close>  State is passed explicitly.  A panic, an assertion that fails and an access to freed memory are
  the values \<open>Inl Panicked\<close> and \<open>Inl UseAfterFree\<close> of \<open>exec\<close>, so absence of panics is part of the theorems that
  give a result \<open>Inr\<close>.  \<^verbatim>\<open>usize\<close> is 64 bits wide and wraps around.  Waking a task appends it to a list of woken tasks.
  Fields such as \<open>c_log\<close> record what happened and do not influence the code.

  \<^bold>\<open>Fuel.\<close>  Loops whose end depends on user code (the poll loop of a context, of its mailbox, of a supervisor, of
  a stream, of a writer, the recursion of the registry) take a fuel argument and return \<open>Inl OutOfFuel\<close> when it is
  used up.  Theorems about results state the fuel that suffices: more than the number of messages and futures for a
  context, more than the number of messages for a supervisor, more than the bytes in the buffer for a writer.
  Compare-exchange loops run against a finite list of interfering writes and terminate by its length; the
  theorems hold for every such list.  The Fibonacci loop and the connector's loop are total functions.

  \<^bold>\<open>Parameters.\<close>  Code of other crates is a parameter: one-shot channels, timers, the reactor (\<^verbatim>\<open>futures\<close>,
  \<^verbatim>\<open>tokio-core\<close>), sinks and encoders (\<^verbatim>\<open>tokio-io\<close>), the DNS client, JSON.  What is assumed of them is a
  hypothesis of the theorem that needs it, and each such theorem is applied to a concrete instance right after it.

  \<^bold>\<open>Not modelled.\<close>  The reactor and thread scheduling (futures are polled by whoever states the theorem), what the
  operating system and other crates do when a signal handler, a socket or the DNS client is installed (the calls are
  parameters), memory orderings weaker than sequential consistency in the queue and the channel, \<^verbatim>\<open>lib.rs\<close> and
  \<^verbatim>\<open>actors/mod.rs\<close> (re-exports), \<^verbatim>\<open>build.rs\<close>, logging, trait declarations (their implementations are
  modelled), and the tests in \<^verbatim>\<open>tests/\<close>,
  which run a reactor.
\<close>

section \<open>Properties that span components\<close>

text \<open>An actor whose messages are handled through envelopes, by a handler that leaves the context alone.\<close>

definition answering ::
  "bool \<Rightarrow> ('tx, 'r, 'af, 'pf, 'f, 'w) resp_env \<Rightarrow>
     ('m \<Rightarrow> 'w \<Rightarrow> ('f, ('m, 'tx) EnvelopeProxy, ('r, 'af, 'pf) response \<times> 'w) code) \<Rightarrow> ('w, 'f, ('m, 'tx) EnvelopeProxy) actor_impl" where
  "answering dbg env handle =
     \<lparr>debug_assertions = dbg, a_started = Return, a_stopping = (\<lambda>w. Return (Stop, w)), a_stopped = Return, a_restarting = Return,
      a_handle = (\<lambda>e w. code_bind (envelope_handle env handle e w) (\<lambda>(_, w'). Return w')),
      a_poll = (\<lambda>f w. Return (PReady (), w))\<rparr>"

text \<open>The effect of an envelope when the handler answers at once: \<open>f\<close> is the answer, \<open>g\<close> the new state.\<close>

definition answer ::
  "('tx, 'r, 'af, 'pf, 'f, 'w) resp_env \<Rightarrow> ('m \<Rightarrow> 'w \<Rightarrow> 'r) \<Rightarrow> ('m \<Rightarrow> 'w \<Rightarrow> 'w) \<Rightarrow> ('m, 'tx) EnvelopeProxy \<Rightarrow> 'w \<Rightarrow> 'w" where
  "answer env f g e w =
     (if ep_tx e \<noteq> None \<and> o_canceled env (the (ep_tx e)) w then w
      else case ep_msg e of None \<Rightarrow> w | Some m \<Rightarrow> send_opt env (ep_tx e) (f m w) (g m w))"

lemma answering_quiet:
  "answering dbg env (\<lambda>m w. Return (Reply (f m w), g m w)) =
     quiet_actor dbg (answer env f g) (\<lambda>w. Stop) (\<lambda>f w. (PReady (), w))"
  by (auto simp: answering_def quiet_actor_def answer_def envelope_handle_def reply_handle_def fun_eq_iff split: option.splits)

lemma fresh_idle: "fresh_ctx c w us \<Longrightarrow> idle_ctx c w us []"
  using fresh_connected [of c w us] by (auto simp: fresh_ctx_def idle_ctx_def sync_holds_def)

text \<open>The last step of a request: the answer is on its one-shot channel.\<close>

lemma answered_request_resolves:
  assumes "\<forall>r w. \<exists>rx'. rxp rx (o_send env otx r w) = (PReady r, rx')"
  shows "\<exists>rq'. request_poll send txd rxp tp (request_new (Some rx) None) d (o_send env otx r w) = Inr (PReady r, rq', d)"
proof -
  obtain rx' where "rxp rx (o_send env otx r w) = (PReady r, rx')" using assms by blast
  then show ?thesis by (simp add: request_poll_def request_new_def request_poll_rx_def)
qed

lemma answer_envelope:
  "\<forall>w. \<not> o_canceled env otx w \<Longrightarrow> answer env f g (envelope_new m (Some otx)) w = o_send env otx (f m w) (g m w)"
  by (simp add: answer_def envelope_new_def send_opt_def)


text \<open>C2: A request from another thread is answered.  A message sent through a thread-safe address of an actor, by a sender that is not
  parked, while the channel has room, is queued behind the messages already there and the actor's task is
  woken if it was parked; the next poll of the actor handles the messages of the single-thread mailbox, then all of the thread-safe
  one in order, each with the state the earlier ones left; and the request then resolves with the answer of the handler to this
  message, whatever has become of the channel meanwhile.\<close>

theorem remote_request_answered:
  assumes "idle_ctx c w us ms" and "sync_msgs (c_mailbox c) = Some ch" and "\<not> sender_blocked tx ch" and "\<not> chan_full ch" and "length ms + 1 < 2 ^ 63"
    and "\<forall>w. \<not> o_canceled env otx w" and "\<forall>r w. \<exists>rx'. rxp rx (o_send env otx r w) = (PReady r, rx')"
    and "length us < k" and "length ms + 1 < k" and "dbg \<longrightarrow> length us + length ms + 1 < MAX_SYNC_POLLS"
  shows "\<exists>rq a ch1 c' w'.
    addr_send (syn_destination context_pack_syn cur (otx, rx)) (addr_new tx) m ch = Inr (rq, a, ch1) \<and> ch_woken ch1 = ch_woken ch @ recv_wakeup ch \<and>
    ctx_poll (answering dbg env (\<lambda>m w. Return (Reply (f m w), g m w))) cur' k (c\<lparr>c_mailbox := (c_mailbox c)\<lparr>sync_msgs := Some ch1\<rparr>\<rparr>) =
      Inr (PNotReady, c') \<and> c_act c' = Some w' \<and>
    (\<forall>d. \<exists>rq'. request_poll (syn_transport_send context_pack_syn cur'' oneshot) sync_tx_drop rxp tp rq d w' =
      Inr (PReady (f m (fold (answer env f g) (us @ ms) w)), rq', d))"
proof -
  let ?e = "envelope_new m (Some otx)" and ?w = "fold (answer env f g) (us @ ms) w"
  obtain ps where ch: "chan_wf ch ms ps" "chan_open ch" using assms(1,2) by (auto simp: idle_ctx_def sync_holds_def)
  obtain tx' ch1 where s: "sync_send context_pack_syn cur (otx, rx) m tx ch = Inr (Inr rx, tx', ch1)"
    "chan_wf ch1 (ms @ [?e]) ps" "ch_woken ch1 = ch_woken ch @ recv_wakeup ch" "chan_open ch1"
    using sync_send_room [OF ch(1) assms(3) ch(2) assms(4,5), of context_pack_syn cur otx rx m] by (auto simp: context_pack_syn_def)
  let ?c1 = "c\<lparr>c_mailbox := (c_mailbox c)\<lparr>sync_msgs := Some ch1\<rparr>\<rparr>"
  have "mailbox_reach (c_mailbox ?c1) = mailbox_reach (c_mailbox c)" using send_senders(2) [OF s(1)] assms(2) by (simp add: mailbox_reach_def)
  then have i: "idle_ctx ?c1 w us (ms @ [?e])"
    using assms(1) s(2,4) mailbox_connected_reach by (auto simp: idle_ctx_def sync_holds_def)
  from quiet_poll_idle [OF i, of k dbg "answer env f g" "\<lambda>w. Stop" "\<lambda>f w. (PReady (), w)" cur'] assms(8-10)
  obtain c' where c': "ctx_poll (answering dbg env (\<lambda>m w. Return (Reply (f m w), g m w))) cur' k ?c1 = Inr (PNotReady, c')"
    "c_act c' = Some (o_send env otx (f m ?w) (g m ?w))"
    by (auto simp: answering_quiet answer_envelope [OF assms(6)])
  moreover have "addr_send (syn_destination context_pack_syn cur (otx, rx)) (addr_new tx) m ch =
      Inr (request_new (Some rx) None, addr_new tx', ch1)"
    using s(1) by (simp add: address_defs request_of_send_def)
  moreover have "\<exists>rq'. request_poll (syn_transport_send context_pack_syn cur'' oneshot) sync_tx_drop rxp tp (request_new (Some rx) None) d
      (o_send env otx (f m ?w) (g m ?w)) = Inr (PReady (f m ?w), rq', d)" for d
    by (rule answered_request_resolves) (rule assms(7))
  ultimately show ?thesis using s(3) by blast
qed

text \<open>A counter that answers with its new value, as in \<^verbatim>\<open>examples/ping.rs\<close>; its one-shot channel is a
  slot.\<close>

definition slot_env :: "(unit, nat, unit, unit, unit, nat \<times> nat option) resp_env" where
  "slot_env = \<lparr>o_send = (\<lambda>_ r (n, _). (n, Some r)), o_canceled = (\<lambda>_ _. False), o_box = (\<lambda>_ _. ()), o_reactor_spawn = (\<lambda>_ _ w. w)\<rparr>"

definition slot_poll :: "unit \<Rightarrow> nat \<times> nat option \<Rightarrow> (nat, unit) Poll \<times> unit" where
  "slot_poll rx w = (case snd w of Some r \<Rightarrow> (PReady r, rx) | None \<Rightarrow> (PNotReady, rx))"


theorem remote_request_answered_witness:
  "\<exists>tx c ch rq a ch1 c' w'. actor_start KindSyn (10, None) = Inr (Some tx, c) \<and> sync_msgs (c_mailbox c) = Some ch \<and>
     addr_send (syn_destination context_pack_syn 0 ((), ())) (addr_new tx) (10 :: nat) ch = Inr (rq, a, ch1) \<and>
     ctx_poll (answering True slot_env (\<lambda>m w. Return (Reply (fst w + m), (fst w + m, snd w)))) 1 3 (c\<lparr>c_mailbox := (c_mailbox c)\<lparr>sync_msgs := Some ch1\<rparr>\<rparr>) =
       Inr (PNotReady, c') \<and> c_act c' = Some w' \<and>
     (\<forall>d. \<exists>rq'. request_poll (syn_transport_send context_pack_syn 0 ((), ())) sync_tx_drop slot_poll (\<lambda>t _. (PNotReady, t :: unit)) rq d w' =
       Inr (PReady 20, rq', d))"
proof -
  have b: "16 < MAX_BUFFER" by code_simp
  obtain tx and ch :: "(nat, unit) EnvelopeProxy Chan" where ch: "channel 16 = Inr (tx, ch)" using b by (auto simp: channel_def)
  then have rep: "chan_wf ch [] []" "chan_open ch" "i_buffer ch = 16" "i_num_senders ch = 1" "\<not> sender_blocked tx ch"
    using channel_rep [OF ch] b by (auto simp: channel_def sync_chan_rep_def sender_blocked_def)
  then have "\<not> chan_full ch" using chan_wfD(3) [OF rep(1,2)] by (simp add: chan_full_def)
  have "\<exists>tx c ch. actor_start KindSyn (10, None) = Inr (Some tx, c :: (nat \<times> nat option, unit, (nat, unit) EnvelopeProxy) ContextImpl) \<and>
      idle_ctx c (10, None) [] [] \<and> sync_msgs (c_mailbox c) = Some ch \<and> \<not> sender_blocked tx ch \<and> \<not> chan_full ch"
    using ch rep \<open>\<not> chan_full ch\<close> by (auto simp: start_defs idle_ctx_def sync_holds_def u_rep_def simp del: channel_def)
  then obtain tx c ch where s: "actor_start KindSyn (10, None) = Inr (Some tx, c :: (nat \<times> nat option, unit, (nat, unit) EnvelopeProxy) ContextImpl)"
    "idle_ctx c (10, None) [] []" "sync_msgs (c_mailbox c) = Some ch" "\<not> sender_blocked tx ch" "\<not> chan_full ch" by blast
  have o: "\<forall>w. \<not> o_canceled slot_env () w" "\<forall>r w. \<exists>rx'. slot_poll () (o_send slot_env () r w) = (PReady r, rx')"
    by (simp_all add: slot_env_def slot_poll_def split_def)
  from remote_request_answered [OF s(2-5), where env = slot_env and otx = "()" and rx = "()" and rxp = slot_poll and k = 3 and dbg = True and f = "\<lambda>m w. fst w + m" and g = "\<lambda>m w. (fst w + m, snd w)" and m = 10
      and cur = 0 and cur' = 1 and cur'' = 0 and oneshot = "((), ())" and tp = "\<lambda>t _. (PNotReady, t :: unit)"] o s(1,3)
  show ?thesis by (simp add: MAX_SYNC_POLLS_def) blast
qed

end
